(* ===== verification/Prelude.thy ===== *)
theory Prelude
  imports Main "HOL-Library.Word"
begin

text \<open>
  Shared vocabulary of the development: the machine integer types of the C code, how a
  32-bit and a 64-bit integer are laid out in memory on the little-endian target, the
  libc byte-order function \<open>htonl\<close>, the linear search that every fixed-size table of the
  program uses, and the generic list and word lemmas the components share.
\<close>

unbundle bit_operations_syntax

type_synonym u8 = "8 word"
type_synonym u16 = "16 word"
type_synonym u32 = "32 word"
type_synonym u64 = "64 word"
type_synonym bytes = "8 word list"

named_theorems wire_simps \<open>layout of integers in memory and on the wire\<close>
named_theorems table_simps \<open>facts about fixed-size tables searched linearly\<close>

section \<open>Integers in memory\<close>

text \<open>
  \<open>mem_bytes k w\<close> is the first \<open>k\<close> bytes of an integer in increasing address order on the
  little-endian target; \<open>load_bytes\<close> reads an integer back from such bytes (\<open>memcpy\<close> into a
  local); \<open>be_bytes\<close> is network order, the most significant byte first.
\<close>

definition mem_bytes :: "nat \<Rightarrow> 'a::len word \<Rightarrow> bytes" where
  "mem_bytes k w = map (\<lambda>i. ucast (drop_bit (8 * i) w)) [0..<k]"

fun load_bytes :: "bytes \<Rightarrow> 'a::len word" where
  "load_bytes [] = 0"
| "load_bytes (b # bs) = ucast b OR push_bit 8 (load_bytes bs)"

definition be_bytes :: "nat \<Rightarrow> 'a::len word \<Rightarrow> bytes" where
  "be_bytes k w = rev (mem_bytes k w)"

text \<open>\<open>htonl\<close> and \<open>ntohl\<close> reverse the four bytes on the little-endian target.\<close>

definition htonl :: "u32 \<Rightarrow> u32" where
  "htonl w = load_bytes (rev (mem_bytes 4 w))"

definition ntohl :: "u32 \<Rightarrow> u32" where
  "ntohl w = load_bytes (rev (mem_bytes 4 w))"

lemma length_mem_bytes [simp]: "length (mem_bytes k w) = k"
  by (simp add: mem_bytes_def)

lemma length_be_bytes [simp]: "length (be_bytes k w) = k"
  by (simp add: be_bytes_def)

lemma bit_load_bytes:
  "bit (load_bytes bs :: 'a::len word) n \<longleftrightarrow>
     n < LENGTH('a) \<and> n div 8 < length bs \<and> bit (bs ! (n div 8)) (n mod 8)"
proof (induction bs arbitrary: n)
  case Nil
  then show ?case by simp
next
  case (Cons b bs)
  show ?case
  proof (cases "n < 8")
    case True
    then show ?thesis by (auto simp: bit_simps)
  next
    case False
    then obtain m where n: "n = m + 8" by (metis add.commute le_Suc_ex not_less)
    have "\<not> bit b (m + 8)"
      using bit_imp_le_length [of b "m + 8"] by auto
    moreover have "(m + 8) div 8 = Suc (m div 8)" by simp
    ultimately show ?thesis by (auto simp add: n bit_simps Cons.IH simp del: div_add_self2)
  qed
qed

lemma nth_mem_bytes: "i < k \<Longrightarrow> mem_bytes k w ! i = ucast (drop_bit (8 * i) w)"
  by (simp add: mem_bytes_def)

lemma bit_mem_bytes:
  "i < k \<Longrightarrow> bit (mem_bytes k w ! i) j \<longleftrightarrow> j < 8 \<and> bit w (8 * i + j)"
  by (auto simp: nth_mem_bytes bit_simps add.commute)

lemma load_mem_bytes [wire_simps]:
  assumes "LENGTH('a::len) \<le> 8 * k"
  shows "load_bytes (mem_bytes k (w :: 'a word)) = w"
proof (rule bit_word_eqI)
  fix n assume n: "n < LENGTH('a)"
  with assms have "n div 8 < k" by auto
  with n show "bit (load_bytes (mem_bytes k w) :: 'a word) n = bit w n"
    by (simp add: bit_load_bytes bit_mem_bytes mult.commute)
qed

lemma mem_load_bytes [wire_simps]:
  assumes "length bs = k" and "8 * k \<le> LENGTH('a::len)"
  shows "mem_bytes k (load_bytes bs :: 'a word) = bs"
proof (rule nth_equalityI)
  fix i assume i: "i < length (mem_bytes k (load_bytes bs :: 'a word))"
  show "mem_bytes k (load_bytes bs :: 'a word) ! i = bs ! i"
  proof (rule bit_word_eqI)
    fix j :: nat assume j: "j < LENGTH(8)"
    from i j assms have "8 * i + j < LENGTH('a)" by simp
    with i j assms show "bit (mem_bytes k (load_bytes bs :: 'a word) ! i) j = bit (bs ! i) j"
      by (simp add: bit_mem_bytes bit_load_bytes)
  qed
qed (simp add: assms)

lemma mem_htonl [wire_simps]: "mem_bytes 4 (htonl w) = be_bytes 4 w"
  by (simp add: htonl_def be_bytes_def wire_simps)

lemma ntohl_be [wire_simps]: "ntohl (load_bytes (be_bytes 4 w)) = w"
  by (simp add: ntohl_def be_bytes_def wire_simps)

lemma mem_bytes_append:
  "mem_bytes (j + k) w = mem_bytes j w @ mem_bytes k (drop_bit (8 * j) w)"
  by (rule nth_equalityI)
    (auto simp: nth_append nth_mem_bytes algebra_simps not_less
        intro: arg_cong [where f = "\<lambda>n. ucast (drop_bit n w)"])

lemma mem_bytes_ucast:
  assumes "8 * k \<le> LENGTH('a::len)" and "8 * k \<le> LENGTH('b::len)"
  shows "mem_bytes k (ucast (w :: 'a word) :: 'b word) = mem_bytes k w"
proof (rule nth_equalityI)
  fix i assume "i < length (mem_bytes k (ucast w :: 'b word))"
  then have i: "i < k" by simp
  show "mem_bytes k (ucast w :: 'b word) ! i = mem_bytes k w ! i"
  proof (rule bit_word_eqI)
    fix j :: nat assume j: "j < LENGTH(8)"
    from i j assms have "8 * i + j < LENGTH('b)" by simp
    with i j show "bit (mem_bytes k (ucast w :: 'b word) ! i) j = bit (mem_bytes k w ! i) j"
      by (simp add: bit_mem_bytes bit_simps)
  qed
qed simp

lemma take_mem_bytes: "j \<le> k \<Longrightarrow> take j (mem_bytes k w) = mem_bytes j w"
  by (simp add: mem_bytes_def take_map)

section \<open>Linear search in a fixed-size table\<close>

text \<open>
  Every lookup of the program is a loop \<open>for (i = 0; i < N; ++i) if (P(t[i])) ...\<close> that stops
  at the first hit: \<open>first_idx P t\<close> is the index it stops at.
\<close>

fun first_idx :: "('a \<Rightarrow> bool) \<Rightarrow> 'a list \<Rightarrow> nat option" where
  "first_idx P [] = None"
| "first_idx P (x # xs) = (if P x then Some 0 else map_option Suc (first_idx P xs))"

lemma first_idx_None [table_simps]: "first_idx P xs = None \<longleftrightarrow> (\<forall>x \<in> set xs. \<not> P x)"
  by (induction xs) auto

lemma first_idx_Some:
  "first_idx P xs = Some i \<longleftrightarrow> i < length xs \<and> P (xs ! i) \<and> (\<forall>j < i. \<not> P (xs ! j))"
proof (induction xs arbitrary: i)
  case Nil
  then show ?case by simp
next
  case (Cons x xs)
  show ?case
  proof (cases i)
    case 0
    then show ?thesis by auto
  next
    case (Suc k)
    then show ?thesis by (auto simp: Cons.IH All_less_Suc2)
  qed
qed

lemma first_idx_SomeD:
  assumes "first_idx P xs = Some i"
  shows first_idx_less: "i < length xs"
    and first_idx_holds: "P (xs ! i)"
    and first_idx_least: "j < i \<Longrightarrow> \<not> P (xs ! j)"
  using assms by (auto simp: first_idx_Some)

lemma first_idx_cong:
  "length xs = length ys \<Longrightarrow> (\<And>i. i < length xs \<Longrightarrow> P (xs ! i) \<longleftrightarrow> Q (ys ! i)) \<Longrightarrow>
     first_idx P xs = first_idx Q ys"
proof (induction xs ys rule: list_induct2')
  case (4 x xs y ys)
  from "4.prems"(2) [of 0] have "P x \<longleftrightarrow> Q y" by simp
  moreover have "first_idx P xs = first_idx Q ys"
    using "4.prems"(1) "4.prems"(2) [of "Suc _"] by (intro "4.IH") auto
  ultimately show ?case by simp
qed auto

lemma first_idx_update_same:
  "i < length xs \<Longrightarrow> first_idx P xs = Some i \<Longrightarrow> Q y \<Longrightarrow> (\<And>j. j < i \<Longrightarrow> \<not> Q (xs ! j)) \<Longrightarrow>
     first_idx Q (xs[i := y]) = Some i"
  by (auto simp: first_idx_Some)

lemma list_all_update:
  "\<forall>x \<in> set xs. P x \<Longrightarrow> P y \<Longrightarrow> \<forall>x \<in> set (xs[i := y]). P x"
  using set_update_subset_insert [of xs i y] by auto

end
