(* ===== verification/Quic_Packet.thy ===== *)
theory Quic_Packet
  imports Prelude
begin

text \<open>
  The QUIC-like packet of \<open>src/server/quic.h\<close> and its codec, the functions
  \<open>quic_packet_serialize\<close> and \<open>quic_packet_deserialize\<close> of \<open>src/server/quic.c\<close>.
  A \<open>NULL\<close> pointer is \<open>None\<close>; the payload pointer of a received packet points into the
  receive buffer, so it is the rest of that buffer. The lemmas show that what is written is
  the network-order layout the code intends, on the little-endian target, that reading it back
  gives the packet, and which inputs are refused.
\<close>

section \<open>Constants and types\<close>

definition QUIC_MAX_PAYLOAD :: nat where "QUIC_MAX_PAYLOAD = 16 * 1024"
definition QUIC_HEADER_SIZE :: nat where "QUIC_HEADER_SIZE = 25"
definition QUIC_MAX_PACKET_SIZE :: nat where
  "QUIC_MAX_PACKET_SIZE = QUIC_HEADER_SIZE + QUIC_MAX_PAYLOAD"

definition QUIC_FLAG_INITIAL :: u8 where "QUIC_FLAG_INITIAL = 0x01"
definition QUIC_FLAG_HANDSHAKE :: u8 where "QUIC_FLAG_HANDSHAKE = 0x02"
definition QUIC_FLAG_DATA :: u8 where "QUIC_FLAG_DATA = 0x04"
definition QUIC_FLAG_ACK :: u8 where "QUIC_FLAG_ACK = 0x08"
definition QUIC_FLAG_CLOSE :: u8 where "QUIC_FLAG_CLOSE = 0x10"

lemmas quic_sizes = QUIC_MAX_PAYLOAD_def QUIC_HEADER_SIZE_def QUIC_MAX_PACKET_SIZE_def
lemmas quic_flags = QUIC_FLAG_INITIAL_def QUIC_FLAG_HANDSHAKE_def QUIC_FLAG_DATA_def
  QUIC_FLAG_ACK_def QUIC_FLAG_CLOSE_def

text \<open>A flag test of the C code, \<open>packet->flags & F\<close>, as a condition.\<close>

definition has_flag :: "u8 \<Rightarrow> u8 \<Rightarrow> bool" where
  "has_flag fl f \<longleftrightarrow> fl AND f \<noteq> 0"

record quic_packet =
  pk_flags :: u8
  pk_connection_id :: u64
  pk_packet_number :: u32
  pk_stream_id :: u32
  pk_offset :: u32
  pk_length :: u32
  pk_payload :: "bytes option"

section \<open>64-bit byte order\<close>

definition host_to_be64 :: "u64 \<Rightarrow> u64" where
  "host_to_be64 value =
     ucast (htonl (ucast (drop_bit 32 value)))
     OR push_bit 32 (ucast (htonl (ucast (value AND 0xFFFFFFFF))))"

definition be64_to_host :: "u64 \<Rightarrow> u64" where
  "be64_to_host value =
     ucast (ntohl (ucast (drop_bit 32 value)))
     OR push_bit 32 (ucast (ntohl (ucast (value AND 0xFFFFFFFF))))"

section \<open>Serialisation\<close>

text \<open>\<open>memcpy(buf + i, src, n)\<close> into a buffer that is large enough.\<close>

definition write_at :: "bytes \<Rightarrow> nat \<Rightarrow> bytes \<Rightarrow> bytes" where
  "write_at buf i src = take i buf @ src @ drop (i + length src) buf"

text \<open>
  \<open>QUIC_HEADER_SIZE + packet->length\<close> adds an \<open>int\<close> and a \<open>uint32_t\<close>: the sum is computed
  modulo \<open>2^32\<close> and then widened to \<open>size_t\<close>.
\<close>

definition required_size :: "u32 \<Rightarrow> nat" where
  "required_size len = unat (word_of_nat QUIC_HEADER_SIZE + len)"

text \<open>
  The result is the new contents of the buffer and \<open>*out_len\<close>, or \<open>None\<close> for the return
  value \<open>-1\<close>, which leaves the buffer as it was.
\<close>

definition quic_packet_serialize ::
  "quic_packet option \<Rightarrow> bytes option \<Rightarrow> (bytes \<times> nat) option" where
  "quic_packet_serialize packet buffer =
     (case (packet, buffer) of
        (Some p, Some buf) \<Rightarrow>
          if QUIC_MAX_PAYLOAD < unat (pk_length p) then None
          else let required = required_size (pk_length p) in
            if length buf < required then None
            else
              let buf = write_at buf 0 [pk_flags p];
                  buf = write_at buf 1 (mem_bytes 8 (host_to_be64 (pk_connection_id p)));
                  buf = write_at buf 9 (mem_bytes 4 (htonl (pk_packet_number p)));
                  buf = write_at buf 13 (mem_bytes 4 (htonl (pk_stream_id p)));
                  buf = write_at buf 17 (mem_bytes 4 (htonl (pk_offset p)));
                  buf = write_at buf 21 (mem_bytes 4 (htonl (pk_length p)));
                  buf = (case pk_payload p of
                           None \<Rightarrow> buf
                         | Some d \<Rightarrow>
                             if 0 < pk_length p
                             then write_at buf QUIC_HEADER_SIZE (take (unat (pk_length p)) d)
                             else buf)
              in Some (buf, required)
      | _ \<Rightarrow> None)"

section \<open>Deserialisation\<close>

definition quic_packet_deserialize :: "bytes option \<Rightarrow> quic_packet option" where
  "quic_packet_deserialize buffer =
     (case buffer of
        None \<Rightarrow> None
      | Some buf \<Rightarrow>
          if length buf < QUIC_HEADER_SIZE then None
          else
            let fl = buf ! 0;
                cid = be64_to_host (load_bytes (take 8 (drop 1 buf)));
                pn = ntohl (load_bytes (take 4 (drop 9 buf)));
                sid = ntohl (load_bytes (take 4 (drop 13 buf)));
                off = ntohl (load_bytes (take 4 (drop 17 buf)));
                len = ntohl (load_bytes (take 4 (drop 21 buf)));
                required = required_size len
            in if QUIC_MAX_PAYLOAD < unat len \<or> length buf < required then None
               else Some \<lparr>pk_flags = fl, pk_connection_id = cid, pk_packet_number = pn,
                          pk_stream_id = sid, pk_offset = off, pk_length = len,
                          pk_payload = Some (drop QUIC_HEADER_SIZE buf)\<rparr>)"

section \<open>The layout on the wire\<close>

definition packet_header :: "quic_packet \<Rightarrow> bytes" where
  "packet_header p = pk_flags p # be_bytes 8 (pk_connection_id p)
     @ be_bytes 4 (pk_packet_number p) @ be_bytes 4 (pk_stream_id p)
     @ be_bytes 4 (pk_offset p) @ be_bytes 4 (pk_length p)"

text \<open>The payload bytes a packet carries: the first \<open>length\<close> ones its pointer reaches.\<close>

definition packet_body :: "quic_packet \<Rightarrow> bytes" where
  "packet_body p = (case pk_payload p of None \<Rightarrow> [] | Some d \<Rightarrow> take (unat (pk_length p)) d)"

text \<open>
  A packet whose length field tells the truth: no more than the maximum, and the payload
  pointer reaches that many bytes (an empty packet may have none).
\<close>

definition packet_ok :: "quic_packet \<Rightarrow> bool" where
  "packet_ok p \<longleftrightarrow> unat (pk_length p) \<le> QUIC_MAX_PAYLOAD \<and>
     length (packet_body p) = unat (pk_length p)"

definition wire :: "quic_packet \<Rightarrow> bytes" where
  "wire p = packet_header p @ packet_body p"

lemma length_packet_header [simp]: "length (packet_header p) = QUIC_HEADER_SIZE"
  by (simp add: packet_header_def quic_sizes)

lemma length_wire: "packet_ok p \<Longrightarrow> length (wire p) = QUIC_HEADER_SIZE + unat (pk_length p)"
  by (simp add: wire_def packet_ok_def)

lemma required_size_eq:
  "unat len \<le> QUIC_MAX_PAYLOAD \<Longrightarrow> required_size len = QUIC_HEADER_SIZE + unat len"
  by (simp add: required_size_def quic_sizes unat_word_ariths)

lemma mem_bytes_two_words:
  fixes a b :: u32
  shows "mem_bytes 8 (ucast a OR push_bit 32 (ucast b) :: u64) = mem_bytes 4 a @ mem_bytes 4 b"
proof -
  let ?w = "ucast a OR push_bit 32 (ucast b) :: u64"
  have "mem_bytes 4 ?w = mem_bytes 4 (ucast ?w :: u32)"
    by (rule mem_bytes_ucast [symmetric]) simp_all
  moreover have "(ucast ?w :: u32) = a"
    by (rule bit_word_eqI) (auto simp: bit_simps)
  moreover have "mem_bytes 4 (drop_bit 32 ?w) = mem_bytes 4 (ucast (drop_bit 32 ?w) :: u32)"
    by (rule mem_bytes_ucast [symmetric]) simp_all
  moreover have "(ucast (drop_bit 32 ?w) :: u32) = b"
    by (rule bit_word_eqI) (auto simp: bit_simps dest: bit_imp_le_length)
  ultimately show ?thesis
    using mem_bytes_append [of 4 4 ?w] by simp
qed

lemma and_low_word: "(v :: u64) AND 0xFFFFFFFF = take_bit 32 v"
proof -
  have "(0xFFFFFFFF :: u64) = mask 32" by (simp add: mask_eq_exp_minus_1)
  then show ?thesis by (simp only: take_bit_eq_mask)
qed

lemma ucast_low_word: "(ucast ((v :: u64) AND 0xFFFFFFFF) :: u32) = ucast v"
  unfolding and_low_word by (rule bit_word_eqI) (auto simp: bit_simps)

lemma mem_host_to_be64: "mem_bytes 8 (host_to_be64 v) = be_bytes 8 v"
proof -
  have "mem_bytes 8 (host_to_be64 v)
    = rev (mem_bytes 4 (ucast (drop_bit 32 v) :: u32)) @ rev (mem_bytes 4 (ucast v :: u32))"
    unfolding host_to_be64_def ucast_low_word mem_bytes_two_words mem_htonl be_bytes_def ..
  also have "\<dots> = rev (mem_bytes 4 v @ mem_bytes 4 (drop_bit 32 v))"
    by (simp add: mem_bytes_ucast)
  also have "\<dots> = be_bytes 8 v"
    using mem_bytes_append [of 4 4 v] by (simp add: be_bytes_def)
  finally show ?thesis .
qed

lemma be64_to_host_eq: "be64_to_host v = host_to_be64 v"
  by (simp add: be64_to_host_def host_to_be64_def ntohl_def htonl_def)

lemma be64_to_host_be: "be64_to_host (load_bytes (be_bytes 8 v)) = v"
proof -
  let ?x = "load_bytes (be_bytes 8 v) :: u64"
  have "mem_bytes 8 (host_to_be64 ?x) = rev (mem_bytes 8 ?x)"
    by (simp add: mem_host_to_be64 be_bytes_def)
  also have "\<dots> = mem_bytes 8 v"
    by (simp add: mem_load_bytes be_bytes_def)
  finally have "load_bytes (mem_bytes 8 (host_to_be64 ?x)) = (load_bytes (mem_bytes 8 v) :: u64)"
    by simp
  then show ?thesis by (simp add: load_mem_bytes be64_to_host_eq)
qed

section \<open>Serialisation writes the wire layout\<close>

lemma write_at_zero: "write_at buf 0 src = src @ drop (length src) buf"
  by (simp add: write_at_def)

lemma write_at_step:
  "length pre = i \<Longrightarrow> write_at (pre @ drop i buf) i src = (pre @ src) @ drop (i + length src) buf"
  by (simp add: write_at_def add.commute)

lemma serialize_header:
  "write_at (write_at (write_at (write_at (write_at (write_at buf 0 [pk_flags p])
     1 (mem_bytes 8 (host_to_be64 (pk_connection_id p))))
     9 (mem_bytes 4 (htonl (pk_packet_number p))))
     13 (mem_bytes 4 (htonl (pk_stream_id p))))
     17 (mem_bytes 4 (htonl (pk_offset p))))
     21 (mem_bytes 4 (htonl (pk_length p)))
   = packet_header p @ drop QUIC_HEADER_SIZE buf"
proof -
  let ?h1 = "[pk_flags p]"
  let ?h2 = "?h1 @ be_bytes 8 (pk_connection_id p)"
  let ?h3 = "?h2 @ be_bytes 4 (pk_packet_number p)"
  let ?h4 = "?h3 @ be_bytes 4 (pk_stream_id p)"
  let ?h5 = "?h4 @ be_bytes 4 (pk_offset p)"
  let ?h6 = "?h5 @ be_bytes 4 (pk_length p)"
  have "write_at buf 0 ?h1 = ?h1 @ drop 1 buf"
    by (simp add: write_at_zero)
  moreover have "write_at (?h1 @ drop 1 buf) 1 (be_bytes 8 (pk_connection_id p)) = ?h2 @ drop 9 buf"
    using write_at_step [of ?h1 1 buf] by simp
  moreover have "write_at (?h2 @ drop 9 buf) 9 (be_bytes 4 (pk_packet_number p)) = ?h3 @ drop 13 buf"
    using write_at_step [of ?h2 9 buf] by simp
  moreover have "write_at (?h3 @ drop 13 buf) 13 (be_bytes 4 (pk_stream_id p)) = ?h4 @ drop 17 buf"
    using write_at_step [of ?h3 13 buf] by simp
  moreover have "write_at (?h4 @ drop 17 buf) 17 (be_bytes 4 (pk_offset p)) = ?h5 @ drop 21 buf"
    using write_at_step [of ?h4 17 buf] by simp
  moreover have "write_at (?h5 @ drop 21 buf) 21 (be_bytes 4 (pk_length p)) = ?h6 @ drop 25 buf"
    using write_at_step [of ?h5 21 buf] by simp
  ultimately show ?thesis
    by (simp only: mem_host_to_be64 mem_htonl) (simp add: packet_header_def QUIC_HEADER_SIZE_def)
qed

lemma serialize_ok:
  assumes "packet_ok p" and "length (wire p) \<le> length buf"
  shows "quic_packet_serialize (Some p) (Some buf)
     = Some (wire p @ drop (length (wire p)) buf, length (wire p))"
proof -
  let ?len = "unat (pk_length p)"
  have req: "required_size (pk_length p) = QUIC_HEADER_SIZE + ?len"
    using assms(1) by (simp add: packet_ok_def required_size_eq)
  have payload: "(case pk_payload p of None \<Rightarrow> packet_header p @ drop QUIC_HEADER_SIZE buf
       | Some d \<Rightarrow> if 0 < pk_length p
           then write_at (packet_header p @ drop QUIC_HEADER_SIZE buf) QUIC_HEADER_SIZE (take ?len d)
           else packet_header p @ drop QUIC_HEADER_SIZE buf)
     = wire p @ drop (length (wire p)) buf"
    using assms(1)
    by (auto simp: wire_def packet_ok_def packet_body_def write_at_step word_gt_0
        split: option.splits)
  show ?thesis
    unfolding quic_packet_serialize_def Let_def prod.case option.case serialize_header payload
    using assms by (simp add: req length_wire packet_ok_def)
qed

lemma serialize_refused:
  "quic_packet_serialize (Some p) (Some buf) = None \<longleftrightarrow>
     QUIC_MAX_PAYLOAD < unat (pk_length p) \<or> length buf < QUIC_HEADER_SIZE + unat (pk_length p)"
  by (auto simp: quic_packet_serialize_def Let_def required_size_eq not_less)

lemma length_write_at: "i + length src \<le> length buf \<Longrightarrow> length (write_at buf i src) = length buf"
  by (simp add: write_at_def)

lemma serialize_length:
  assumes "quic_packet_serialize (Some p) (Some buf) = Some (b, n)"
  shows "n = QUIC_HEADER_SIZE + unat (pk_length p)" and "n \<le> length buf" and "length b = length buf"
proof -
  have le: "unat (pk_length p) \<le> QUIC_MAX_PAYLOAD" and n: "n = required_size (pk_length p)"
    and fits: "n \<le> length buf"
    using assms by (auto simp: quic_packet_serialize_def Let_def split: if_splits)
  then show "n = QUIC_HEADER_SIZE + unat (pk_length p)" and "n \<le> length buf"
    by (simp_all add: required_size_eq)
  then show "length b = length buf"
    using assms
    by (auto simp: quic_packet_serialize_def Let_def QUIC_HEADER_SIZE_def length_write_at
        split: if_splits option.splits)
qed

section \<open>Deserialisation reads it back\<close>

lemma deserialize_fields:
  assumes "unat (pk_length p) \<le> QUIC_MAX_PAYLOAD" and "unat (pk_length p) \<le> length rest"
  shows "quic_packet_deserialize (Some (packet_header p @ rest)) = Some (p\<lparr>pk_payload := Some rest\<rparr>)"
proof -
  let ?b = "packet_header p @ rest"
  have "take 8 (drop 1 ?b) = be_bytes 8 (pk_connection_id p)"
    and "take 4 (drop 9 ?b) = be_bytes 4 (pk_packet_number p)"
    and "take 4 (drop 13 ?b) = be_bytes 4 (pk_stream_id p)"
    and "take 4 (drop 17 ?b) = be_bytes 4 (pk_offset p)"
    and "take 4 (drop 21 ?b) = be_bytes 4 (pk_length p)"
    and "?b ! 0 = pk_flags p" and "drop QUIC_HEADER_SIZE ?b = rest"
    and "\<not> length ?b < QUIC_HEADER_SIZE"
    by (simp_all add: packet_header_def QUIC_HEADER_SIZE_def)
  then show ?thesis
    using assms unfolding quic_packet_deserialize_def option.case Let_def
    by (simp add: be64_to_host_be ntohl_be required_size_eq)
qed

lemma roundtrip:
  assumes "packet_ok p"
  shows "quic_packet_deserialize (Some (wire p)) = Some (p\<lparr>pk_payload := Some (packet_body p)\<rparr>)"
  using assms deserialize_fields [of p "packet_body p"] by (simp add: wire_def packet_ok_def)

lemma be_bytes_ntohl: "length b = 4 \<Longrightarrow> be_bytes 4 (ntohl (load_bytes b)) = b"
  by (simp add: ntohl_def be_bytes_def mem_load_bytes)

lemma be_bytes_be64_to_host:
  assumes "length b = 8"
  shows "be_bytes 8 (be64_to_host (load_bytes b)) = b"
proof -
  have "mem_bytes 8 (be64_to_host (load_bytes b)) = rev (mem_bytes 8 (load_bytes b :: u64))"
    by (simp add: be64_to_host_eq mem_host_to_be64 be_bytes_def)
  also have "\<dots> = rev b" using assms by (simp add: mem_load_bytes)
  finally show ?thesis by (simp add: be_bytes_def)
qed

lemma split_fields:
  assumes "25 \<le> length b"
  shows "take 25 b = b ! 0 # take 8 (drop 1 b) @ take 4 (drop 9 b) @ take 4 (drop 13 b)
     @ take 4 (drop 17 b) @ take 4 (drop 21 b)"
proof -
  have "take (1 + 8 + 4 + 4 + 4 + 4) b = take 1 b @ take 8 (drop 1 b) @ take 4 (drop 9 b)
     @ take 4 (drop 13 b) @ take 4 (drop 17 b) @ take 4 (drop 21 b)"
    unfolding take_add by simp
  moreover have "take 1 b = [b ! 0]" using assms by (cases b) auto
  ultimately show ?thesis by simp
qed

lemma deserialize_sound:
  assumes "quic_packet_deserialize (Some buf) = Some p"
  shows "packet_ok p" and "wire p = take (QUIC_HEADER_SIZE + unat (pk_length p)) buf"
    and "pk_payload p = Some (drop QUIC_HEADER_SIZE buf)"
proof -
  let ?len = "ntohl (load_bytes (take 4 (drop 21 buf))) :: u32"
  have le: "QUIC_HEADER_SIZE \<le> length buf" and max: "unat ?len \<le> QUIC_MAX_PAYLOAD"
    and req: "\<not> length buf < required_size ?len"
    using assms by (auto simp: quic_packet_deserialize_def Let_def split: if_splits)
  have enough: "QUIC_HEADER_SIZE + unat ?len \<le> length buf"
    using req max by (simp add: required_size_eq)
  have p: "p = \<lparr>pk_flags = buf ! 0,
      pk_connection_id = be64_to_host (load_bytes (take 8 (drop 1 buf))),
      pk_packet_number = ntohl (load_bytes (take 4 (drop 9 buf))),
      pk_stream_id = ntohl (load_bytes (take 4 (drop 13 buf))),
      pk_offset = ntohl (load_bytes (take 4 (drop 17 buf))),
      pk_length = ?len, pk_payload = Some (drop QUIC_HEADER_SIZE buf)\<rparr>"
    using assms by (auto simp: quic_packet_deserialize_def Let_def split: if_splits)
  then have len: "pk_length p = ?len"
    and body: "packet_body p = take (unat ?len) (drop QUIC_HEADER_SIZE buf)"
    by (simp_all add: packet_body_def)
  from p show "pk_payload p = Some (drop QUIC_HEADER_SIZE buf)" by simp
  show "packet_ok p" using max enough by (simp add: packet_ok_def len body)
  have "packet_header p = take QUIC_HEADER_SIZE buf"
    using le by (simp add: p packet_header_def QUIC_HEADER_SIZE_def split_fields
        be_bytes_be64_to_host be_bytes_ntohl)
  then show "wire p = take (QUIC_HEADER_SIZE + unat (pk_length p)) buf"
    by (simp add: wire_def body len take_add)
qed

lemma deserialize_refused:
  "quic_packet_deserialize (Some buf) = None \<longleftrightarrow>
     length buf < QUIC_HEADER_SIZE \<or>
     QUIC_MAX_PAYLOAD < unat (ntohl (load_bytes (take 4 (drop 21 buf)))) \<or>
     length buf < QUIC_HEADER_SIZE + unat (ntohl (load_bytes (take 4 (drop 21 buf))))"
proof (cases "unat (ntohl (load_bytes (take 4 (drop 21 buf)))) \<le> QUIC_MAX_PAYLOAD")
  case True
  then show ?thesis by (auto simp: quic_packet_deserialize_def Let_def required_size_eq)
next
  case False
  then show ?thesis by (simp add: quic_packet_deserialize_def Let_def)
qed

section \<open>Properties\<close>

text \<open>
  The encoder. A packet whose length field tells the truth, written to a buffer with room for
  it, puts exactly the network-order layout (flags, 64-bit connection, packet number, stream,
  offset, length, payload) at the front of the buffer, reports that many bytes and leaves the
  rest of the buffer alone; on the little-endian target the 64-bit byte swap built from two
  \<open>htonl\<close> calls is right.
\<close>

theorem serialize_layout:
  assumes "packet_ok p" and "length (wire p) \<le> length buf"
  shows "quic_packet_serialize (Some p) (Some buf)
     = Some (wire p @ drop (length (wire p)) buf, QUIC_HEADER_SIZE + unat (pk_length p))"
  using serialize_ok [OF assms] length_wire [OF assms(1)] by simp

definition sample_packet :: quic_packet where
  "sample_packet = \<lparr>pk_flags = 4, pk_connection_id = 0x0102030405060708, pk_packet_number = 7,
     pk_stream_id = 1, pk_offset = 0x01020304, pk_length = 3, pk_payload = Some [10, 20, 30]\<rparr>"

lemma sample_packet_ok: "packet_ok sample_packet"
  by (simp add: packet_ok_def packet_body_def sample_packet_def QUIC_MAX_PAYLOAD_def)

lemma sample_packet_wire: "wire sample_packet
   = [4, 1, 2, 3, 4, 5, 6, 7, 8, 0, 0, 0, 7, 0, 0, 0, 1, 1, 2, 3, 4, 0, 0, 0, 3, 10, 20, 30]"
  by (simp add: wire_def packet_header_def packet_body_def sample_packet_def be_bytes_def
      mem_bytes_def upt_conv_Cons drop_bit_eq_div)

theorem serialize_layout_witness:
  "quic_packet_serialize (Some sample_packet) (Some (replicate 29 0))
     = Some ([4, 1, 2, 3, 4, 5, 6, 7, 8, 0, 0, 0, 7, 0, 0, 0, 1, 1, 2, 3, 4, 0, 0, 0, 3, 10, 20, 30, 0], 28)"
proof -
  have "length (wire sample_packet) \<le> length (replicate 29 (0 :: u8))"
    by (simp add: sample_packet_wire)
  from serialize_layout [OF sample_packet_ok this] show ?thesis
    by (simp add: sample_packet_wire) (simp add: sample_packet_def QUIC_HEADER_SIZE_def)
qed

text \<open>
  C7: Round trip. Deserialising the bytes that serialising a packet produced gives every field of
  the packet back, and a payload pointer that reaches exactly the packet's payload.
\<close>

theorem packet_roundtrip:
  assumes "packet_ok p" and "quic_packet_serialize (Some p) (Some buf) = Some (out, n)"
  shows "quic_packet_deserialize (Some (take n out)) = Some (p\<lparr>pk_payload := Some (packet_body p)\<rparr>)"
proof -
  have "length (wire p) \<le> length buf"
    using assms serialize_refused [of p buf] by (auto simp: length_wire)
  then have "out = wire p @ drop (length (wire p)) buf" and "n = length (wire p)"
    using serialize_ok [OF assms(1)] assms(2) by auto
  then show ?thesis using roundtrip [OF assms(1)] by simp
qed

theorem packet_roundtrip_witness:
  "quic_packet_deserialize (Some (wire sample_packet)) = Some sample_packet"
proof -
  have "quic_packet_serialize (Some sample_packet) (Some (replicate 28 0)) = Some (wire sample_packet, 28)"
    using serialize_ok [OF sample_packet_ok, of "replicate 28 0"] by (simp add: sample_packet_wire)
  from packet_roundtrip [OF sample_packet_ok this] show ?thesis
    by (simp add: sample_packet_wire) (simp add: sample_packet_def packet_body_def)
qed

text \<open>
  C8: The decoder. A datagram is refused exactly when it is shorter than the header, announces
  more than the maximal payload or is shorter than header and payload together (the
  32-bit addition in the check cannot wrap); an accepted one is the encoding of the packet that
  is returned, followed by whatever came after it.
\<close>

theorem deserialize_exact:
  "case quic_packet_deserialize (Some buf) of
     None \<Rightarrow> length buf < QUIC_HEADER_SIZE \<or>
       QUIC_MAX_PAYLOAD < unat (ntohl (load_bytes (take 4 (drop 21 buf)))) \<or>
       length buf < QUIC_HEADER_SIZE + unat (ntohl (load_bytes (take 4 (drop 21 buf))))
   | Some p \<Rightarrow> QUIC_HEADER_SIZE + unat (pk_length p) \<le> length buf \<and>
       unat (pk_length p) \<le> QUIC_MAX_PAYLOAD \<and>
       take (QUIC_HEADER_SIZE + unat (pk_length p)) buf = wire p"
proof (cases "quic_packet_deserialize (Some buf)")
  case None
  then show ?thesis using deserialize_refused [of buf] by simp
next
  case (Some p)
  note s = deserialize_sound [OF Some]
  have "QUIC_HEADER_SIZE + unat (pk_length p) \<le> length buf"
    using length_wire [OF s(1)] s(2) by (metis length_take min.cobounded1)
  moreover have "unat (pk_length p) \<le> QUIC_MAX_PAYLOAD" using s(1) by (simp add: packet_ok_def)
  ultimately show ?thesis using s(2) by (simp add: Some)
qed

end
