(* ===== verification/Slot_Table.thy ===== *)
theory Slot_Table
  imports Prelude
begin

text \<open>
  The fixed-size tables of the program (streams of a connection, connections and pending
  packets of the engine) are arrays whose entries carry an \<open>in_use\<close> flag and a key. They are
  searched linearly, an entry is claimed by overwriting the first free slot and released by
  clearing its flag. The locale states what a claim and a release must do to the flag and the
  key, and proves once what lookups return afterwards, that keys in use stay unique and how the
  number of used slots changes. Each table of the model interprets it on its own operations.
\<close>

definition slot_find :: "('e \<Rightarrow> bool) \<Rightarrow> ('e \<Rightarrow> 'k) \<Rightarrow> 'k \<Rightarrow> 'e list \<Rightarrow> nat option" where
  "slot_find used key k t = first_idx (\<lambda>e. used e \<and> key e = k) t"

definition slot_free :: "('e \<Rightarrow> bool) \<Rightarrow> 'e list \<Rightarrow> nat option" where
  "slot_free used t = first_idx (\<lambda>e. \<not> used e) t"

definition slots_unique :: "('e \<Rightarrow> bool) \<Rightarrow> ('e \<Rightarrow> 'k) \<Rightarrow> 'e list \<Rightarrow> bool" where
  "slots_unique used key t \<longleftrightarrow>
     (\<forall>i < length t. \<forall>j < length t. used (t ! i) \<longrightarrow> used (t ! j) \<longrightarrow> key (t ! i) = key (t ! j) \<longrightarrow> i = j)"

definition used_keys :: "('e \<Rightarrow> bool) \<Rightarrow> ('e \<Rightarrow> 'k) \<Rightarrow> 'e list \<Rightarrow> 'k set" where
  "used_keys used key t = key ` {e \<in> set t. used e}"

definition slots_used :: "('e \<Rightarrow> bool) \<Rightarrow> 'e list \<Rightarrow> nat" where
  "slots_used used t = length (filter used t)"

lemma length_filter_update:
  assumes "i < length xs"
  shows "length (filter P (xs[i := y])) + (if P (xs ! i) then 1 else 0)
     = length (filter P xs) + (if P y then 1 else 0)"
  using assms
proof (induction xs arbitrary: i)
  case Nil
  then show ?case by simp
next
  case (Cons x xs)
  then show ?case by (cases i) (auto simp: not_less_eq)
qed

lemma slots_used_le: "slots_used used t \<le> length t"
  by (simp add: slots_used_def)

lemma slots_used_all:
  "slots_used used t = length t \<longleftrightarrow> (\<forall>e \<in> set t. used e)"
proof -
  have "length (filter used t) = length t \<longleftrightarrow> (\<forall>e \<in> set t. used e)"
    by (metis filter_True filter_id_conv length_filter_less less_irrefl)
  then show ?thesis by (simp add: slots_used_def)
qed

lemma slot_free_None: "slot_free used t = None \<longleftrightarrow> slots_used used t = length t"
  by (simp add: slot_free_def table_simps slots_used_all)

lemma slot_find_None: "slot_find used key k t = None \<longleftrightarrow> k \<notin> used_keys used key t"
  by (auto simp: slot_find_def table_simps used_keys_def)

lemma slot_find_SomeD:
  assumes "slot_find used key k t = Some i"
  shows "i < length t" and "used (t ! i)" and "key (t ! i) = k"
  using assms by (auto simp: slot_find_def first_idx_Some)

lemma slot_free_SomeD:
  assumes "slot_free used t = Some i"
  shows "i < length t" and "\<not> used (t ! i)"
  using assms by (auto simp: slot_free_def first_idx_Some)

lemma slot_find_unique:
  assumes "slots_unique used key t" and "i < length t" and "used (t ! i)"
  shows "slot_find used key (key (t ! i)) t = Some i"
proof -
  have "\<not> (used (t ! j) \<and> key (t ! j) = key (t ! i))" if "j < i" for j
    using assms that unfolding slots_unique_def by (metis less_irrefl less_trans)
  then show ?thesis using assms by (auto simp: slot_find_def first_idx_Some)
qed

lemma slots_used_card:
  assumes "slots_unique used key t"
  shows "slots_used used t = card (used_keys used key t)"
proof -
  let ?I = "{i. i < length t \<and> used (t ! i)}"
  have inj: "inj_on (\<lambda>i. key (t ! i)) ?I"
    using assms by (auto simp: slots_unique_def inj_on_def)
  have "used_keys used key t = (\<lambda>i. key (t ! i)) ` ?I"
    by (auto simp: used_keys_def in_set_conv_nth image_iff)
  then show ?thesis
    using card_image [OF inj] by (simp add: slots_used_def length_filter_conv_card)
qed

text \<open>An update of slot \<open>i\<close> that is invisible to the search for \<open>k\<close>.\<close>

lemma slot_find_update_other:
  assumes "i < length t" and "\<not> (used (t ! i) \<and> key (t ! i) = k)" and "\<not> (used e \<and> key e = k)"
  shows "slot_find used key k (t[i := e]) = slot_find used key k t"
  unfolding slot_find_def
  by (rule first_idx_cong) (use assms in \<open>auto simp: nth_list_update\<close>)

text \<open>An update that keeps the flag and the key of the slot.\<close>

lemma slot_update_same:
  assumes "i < length t" and "used e = used (t ! i)" and "key e = key (t ! i)"
  shows "slot_find used key k (t[i := e]) = slot_find used key k t"
    and "slots_unique used key (t[i := e]) = slots_unique used key t"
    and "used_keys used key (t[i := e]) = used_keys used key t"
    and "slots_used used (t[i := e]) = slots_used used t"
proof -
  have same: "used (t[i := e] ! j) = used (t ! j)" "key (t[i := e] ! j) = key (t ! j)"
    if "j < length t" for j
    using assms that by (auto simp: nth_list_update)
  have find: "slot_find used key x (t[i := e]) = slot_find used key x t" for x
    unfolding slot_find_def by (rule first_idx_cong) (use same in auto)
  then show "slot_find used key k (t[i := e]) = slot_find used key k t" .
  show "slots_unique used key (t[i := e]) = slots_unique used key t"
    unfolding slots_unique_def by (simp add: same cong: conj_cong imp_cong)
  show "used_keys used key (t[i := e]) = used_keys used key t"
    using find by (metis set_eqI slot_find_None)
  show "slots_used used (t[i := e]) = slots_used used t"
    using length_filter_update [OF assms(1), of used e] assms(2)
    by (auto simp: slots_used_def split: if_splits)
qed

text \<open>A pass over the table that changes no key and claims no slot.\<close>

lemma slots_unique_map:
  assumes "slots_unique used key t"
    and "\<And>e. e \<in> set t \<Longrightarrow> used (f e) \<Longrightarrow> used e \<and> key (f e) = key e"
  shows "slots_unique used key (map f t)"
  using assms unfolding slots_unique_def by (auto simp: in_set_conv_nth) metis

locale slot_table =
  fixes used :: "'e \<Rightarrow> bool" and key :: "'e \<Rightarrow> 'k"
    and claim :: "'k \<Rightarrow> 'a \<Rightarrow> 'e \<Rightarrow> 'e" and release :: "'e \<Rightarrow> 'e"
  assumes claim_used: "used (claim k a e)"
    and claim_key: "key (claim k a e) = k"
    and release_used: "\<not> used (release e)"
begin

lemmas laws = claim_used claim_key release_used

lemma claim_find_other:
  assumes "slot_free used t = Some i" and "k' \<noteq> k"
  shows "slot_find used key k' (t[i := claim k a (t ! i)]) = slot_find used key k' t"
  using slot_free_SomeD [OF assms(1)] assms(2) by (intro slot_find_update_other) (auto simp: laws)

lemma claim_keys:
  assumes "slot_free used t = Some i"
  shows "used_keys used key (t[i := claim k a (t ! i)]) = insert k (used_keys used key t)"
proof (rule set_eqI)
  fix x
  show "x \<in> used_keys used key (t[i := claim k a (t ! i)]) \<longleftrightarrow> x \<in> insert k (used_keys used key t)"
  proof (cases "x = k")
    case True
    have "claim k a (t ! i) \<in> set (t[i := claim k a (t ! i)])"
      using slot_free_SomeD(1) [OF assms] by (rule set_update_memI)
    then have "k \<in> used_keys used key (t[i := claim k a (t ! i)])"
      unfolding used_keys_def by (metis (mono_tags, lifting) claim_key claim_used imageI mem_Collect_eq)
    with True show ?thesis by simp
  next
    case False
    then show ?thesis
      using claim_find_other [OF assms, of x k] slot_find_None [of used key x]
      by (metis insert_iff)
  qed
qed

lemma claim_unique:
  assumes "slot_free used t = Some i" and "k \<notin> used_keys used key t" and "slots_unique used key t"
  shows "slots_unique used key (t[i := claim k a (t ! i)])"
proof -
  have "key (t ! j) \<noteq> k" if "j < length t" "used (t ! j)" for j
    using assms(2) that by (auto simp: used_keys_def)
  then show ?thesis
    using assms(3) slot_free_SomeD [OF assms(1)]
    unfolding slots_unique_def by (auto simp: nth_list_update laws)
qed

lemma claim_find:
  assumes "slot_free used t = Some i" and "k \<notin> used_keys used key t"
  shows "slot_find used key k (t[i := claim k a (t ! i)]) = Some i"
proof -
  have "\<not> (used (t ! j) \<and> key (t ! j) = k)" if "j < length t" for j
    using assms(2) that by (auto simp: used_keys_def)
  then show ?thesis
    using slot_free_SomeD [OF assms(1)] by (auto simp: slot_find_def first_idx_Some laws)
qed

lemma claim_count:
  assumes "slot_free used t = Some i"
  shows "slots_used used (t[i := claim k a (t ! i)]) = Suc (slots_used used t)"
  using length_filter_update [OF slot_free_SomeD(1) [OF assms], of used "claim k a (t ! i)"]
    slot_free_SomeD(2) [OF assms] by (simp add: slots_used_def laws)

lemma release_find_other:
  assumes "slot_find used key k t = Some i" and "k' \<noteq> k"
  shows "slot_find used key k' (t[i := release (t ! i)]) = slot_find used key k' t"
  using slot_find_SomeD [OF assms(1)] assms(2) by (intro slot_find_update_other) (auto simp: laws)

lemma release_unique:
  assumes "i < length t" and "slots_unique used key t"
  shows "slots_unique used key (t[i := release (t ! i)])"
  using assms unfolding slots_unique_def by (auto simp: nth_list_update laws)

lemma release_find:
  assumes "slot_find used key k t = Some i" and "slots_unique used key t"
  shows "slot_find used key k (t[i := release (t ! i)]) = None"
proof -
  have "\<not> (used (t ! j) \<and> key (t ! j) = k)" if "j < length t" "j \<noteq> i" for j
    using assms(2) slot_find_SomeD [OF assms(1)] that unfolding slots_unique_def by metis
  then have "\<not> (used (t[i := release (t ! i)] ! j) \<and> key (t[i := release (t ! i)] ! j) = k)"
    if "j < length t" for j
    using that by (cases "j = i") (auto simp: laws)
  then show ?thesis
    unfolding slot_find_def table_simps by (metis in_set_conv_nth length_list_update)
qed

lemma release_keys:
  assumes "slot_find used key k t = Some i" and "slots_unique used key t"
  shows "used_keys used key (t[i := release (t ! i)]) = used_keys used key t - {k}"
proof (rule set_eqI)
  fix x
  show "x \<in> used_keys used key (t[i := release (t ! i)]) \<longleftrightarrow> x \<in> used_keys used key t - {k}"
    using release_find [OF assms] release_find_other [OF assms(1), of x] slot_find_None [of used key x]
    by (metis Diff_iff insert_iff empty_iff)
qed

lemma release_count:
  assumes "slot_find used key k t = Some i"
  shows "Suc (slots_used used (t[i := release (t ! i)])) = slots_used used t"
  using length_filter_update [OF slot_find_SomeD(1) [OF assms], of used "release (t ! i)"]
    slot_find_SomeD(2) [OF assms] by (simp add: slots_used_def laws)

end

end
