(* ===== verification/Quic_Stream.thy ===== *)
theory Quic_Stream
  imports Slot_Table
begin

text \<open>
  Stream reassembly, \<open>src/server/quic_stream.c\<close>: a manager is a table of sixteen streams, a
  stream keeps the offset of the next byte to deliver and a linked list of the segments that
  arrived and were not delivered yet. The list is modelled as an HOL list, the heap block of a
  segment as the bytes it still holds (\<open>memmove\<close> to its front drops the delivered ones).
  The manager pointer is the state passed and returned. Whether the two \<open>malloc\<close> calls of
  \<open>insert_segment\<close> succeed is the argument \<open>mem\<close>.
\<close>

section \<open>Data model\<close>

definition QUIC_STREAM_MAX_STREAMS :: nat where "QUIC_STREAM_MAX_STREAMS = 16"

record quic_stream_segment =
  seg_offset :: u32
  seg_length :: u32
  seg_data :: bytes

record quic_stream_state =
  ss_stream_id :: u32
  ss_next_offset :: u32
  ss_segments :: "quic_stream_segment list"
  ss_in_use :: bool

type_synonym quic_stream_manager = "quic_stream_state list"

text \<open>\<open>memset\<close> to zero gives sixteen free slots.\<close>

definition zero_stream :: quic_stream_state where
  "zero_stream = \<lparr>ss_stream_id = 0, ss_next_offset = 0, ss_segments = [], ss_in_use = False\<rparr>"

definition quic_stream_manager_init :: quic_stream_manager where
  "quic_stream_manager_init = replicate QUIC_STREAM_MAX_STREAMS zero_stream"

text \<open>What claiming and releasing a slot writes; a released slot keeps its stream number.\<close>

definition claim_stream :: "u32 \<Rightarrow> unit \<Rightarrow> quic_stream_state \<Rightarrow> quic_stream_state" where
  "claim_stream sid u s = s\<lparr>ss_in_use := True, ss_stream_id := sid, ss_next_offset := 0,
     ss_segments := []\<rparr>"

definition release_stream :: "quic_stream_state \<Rightarrow> quic_stream_state" where
  "release_stream s = s\<lparr>ss_segments := [], ss_in_use := False\<rparr>"

definition quic_stream_manager_destroy :: "quic_stream_manager \<Rightarrow> quic_stream_manager" where
  "quic_stream_manager_destroy mgr =
     map (\<lambda>s. if ss_in_use s then release_stream s else s) mgr"

text \<open>The test of both searches: the slot is in use and has this identifier.\<close>

definition stream_is :: "u32 \<Rightarrow> quic_stream_state \<Rightarrow> bool" where
  "stream_is sid s \<longleftrightarrow> ss_in_use s \<and> ss_stream_id s = sid"

definition quic_stream_reset ::
  "quic_stream_manager \<Rightarrow> u32 \<Rightarrow> int \<times> quic_stream_manager" where
  "quic_stream_reset mgr sid =
     (case first_idx (stream_is sid) mgr of
        Some i \<Rightarrow> (0, mgr[i := (mgr ! i)\<lparr>ss_segments := [], ss_next_offset := 0\<rparr>])
      | None \<Rightarrow> (-1, mgr))"

definition find_or_create_stream ::
  "quic_stream_manager \<Rightarrow> u32 \<Rightarrow> (nat \<times> quic_stream_manager) option" where
  "find_or_create_stream mgr sid =
     (case first_idx (stream_is sid) mgr of
        Some i \<Rightarrow> Some (i, mgr)
      | None \<Rightarrow>
          (case first_idx (\<lambda>s. \<not> ss_in_use s) mgr of
             Some i \<Rightarrow> Some (i, mgr[i := claim_stream sid () (mgr ! i)])
           | None \<Rightarrow> None))"

section \<open>Inserting and consuming segments\<close>

text \<open>The cursor walks past the segments that start before the new one.\<close>

fun insert_ordered ::
  "quic_stream_segment \<Rightarrow> quic_stream_segment list \<Rightarrow> quic_stream_segment list" where
  "insert_ordered node [] = [node]"
| "insert_ordered node (s # ss) =
     (if seg_offset s < seg_offset node then s # insert_ordered node ss else node # s # ss)"

definition insert_segment ::
  "bool \<Rightarrow> quic_stream_state \<Rightarrow> u32 \<Rightarrow> bytes \<Rightarrow> u32 \<Rightarrow> int \<times> quic_stream_state" where
  "insert_segment mem state off data len =
     (if \<not> mem then (-1, state)
      else
        let node = \<lparr>seg_offset = off, seg_length = len, seg_data = take (unat len) data\<rparr>
        in (0, state\<lparr>ss_segments := insert_ordered node (ss_segments state)\<rparr>))"

text \<open>
  One iteration of the loop per segment: the segments left, the next offset and the bytes
  written to the output buffer so far (\<open>written\<close> is their number) are the loop's state.
\<close>

fun consume_loop ::
  "quic_stream_segment list \<Rightarrow> u32 \<Rightarrow> nat \<Rightarrow> bytes
     \<Rightarrow> quic_stream_segment list \<times> u32 \<times> bytes" where
  "consume_loop [] nxt cap out = ([], nxt, out)"
| "consume_loop (s # ss) nxt cap out =
     (if seg_offset s \<le> nxt then
        let start = (if seg_offset s < nxt then nxt - seg_offset s else 0)
        in if seg_length s \<le> start then consume_loop ss nxt cap out
           else
             let remaining = seg_length s - start;
                 to_copy = (if cap - length out < unat remaining
                            then cap - length out else unat remaining);
                 out' = out @ take to_copy (drop (unat start) (seg_data s));
                 nxt' = nxt + word_of_nat to_copy
             in if unat start + to_copy < unat (seg_length s) then
                  let consumed = start + word_of_nat to_copy
                  in (\<lparr>seg_offset = seg_offset s + consumed,
                       seg_length = seg_length s - consumed,
                       seg_data = drop (unat consumed) (seg_data s)\<rparr> # ss, nxt', out')
                else consume_loop ss nxt' cap out'
      else (s # ss, nxt, out))"

definition consume_segments ::
  "quic_stream_state \<Rightarrow> nat \<Rightarrow> quic_stream_state \<times> bytes" where
  "consume_segments state cap =
     (let (segs, nxt, out) = consume_loop (ss_segments state) (ss_next_offset state) cap []
      in (state\<lparr>ss_segments := segs, ss_next_offset := nxt\<rparr>, out))"

text \<open>
  The entry point. The data pointer may be \<open>NULL\<close>; the output buffer is given by its size,
  \<open>None\<close> when the pointer is \<open>NULL\<close>. The result is the return value, the manager,
  \<open>*out_offset\<close> if it was written, and the bytes written to the buffer.
\<close>

definition quic_stream_on_data ::
  "bool \<Rightarrow> quic_stream_manager \<Rightarrow> u32 \<Rightarrow> u32 \<Rightarrow> bytes option \<Rightarrow> u32 \<Rightarrow> nat option
     \<Rightarrow> int \<times> quic_stream_manager \<times> u32 option \<times> bytes" where
  "quic_stream_on_data mem mgr sid off data len out_buf =
     (case (data, out_buf) of
        (Some d, Some cap) \<Rightarrow>
          if len = 0 \<or> cap = 0 then (-1, mgr, None, [])
          else
            (case find_or_create_stream mgr sid of
               None \<Rightarrow> (-1, mgr, None, [])
             | Some (i, mgr) \<Rightarrow>
                 let out_offset = ss_next_offset (mgr ! i);
                     (rc, state) = insert_segment mem (mgr ! i) off d len
                 in if rc \<noteq> 0 then (-1, mgr, Some out_offset, [])
                    else
                      let (state, out) = consume_segments state cap
                      in (0, mgr[i := state], Some out_offset, out))
      | _ \<Rightarrow> (-1, mgr, None, []))"

section \<open>Well-formed streams and what they hold\<close>

text \<open>
  A segment is well formed when its block holds exactly \<open>seg_length\<close> bytes, at least one, and
  its last byte has a position below \<open>2^32\<close>.
\<close>

definition seg_ok :: "quic_stream_segment \<Rightarrow> bool" where
  "seg_ok s \<longleftrightarrow> length (seg_data s) = unat (seg_length s) \<and> 0 < unat (seg_length s) \<and>
     unat (seg_offset s) + unat (seg_length s) < 2 ^ 32"

definition seg_range :: "quic_stream_segment \<Rightarrow> nat set" where
  "seg_range s = {unat (seg_offset s) ..< unat (seg_offset s) + unat (seg_length s)}"

text \<open>The list is ordered by offset, up to segments that start at or before the next byte.\<close>

definition segs_ordered :: "u32 \<Rightarrow> quic_stream_segment list \<Rightarrow> bool" where
  "segs_ordered nxt segs \<longleftrightarrow> sorted (map (\<lambda>s. max (unat nxt) (unat (seg_offset s))) segs)"

definition segs_ok :: "u32 \<Rightarrow> quic_stream_segment list \<Rightarrow> bool" where
  "segs_ok nxt segs \<longleftrightarrow> (\<forall>s \<in> set segs. seg_ok s) \<and> segs_ordered nxt segs"

definition stream_ok :: "quic_stream_state \<Rightarrow> bool" where
  "stream_ok st \<longleftrightarrow> segs_ok (ss_next_offset st) (ss_segments st)"

text \<open>
  The abstract state of a stream: the set of byte positions that have arrived, delivered or
  still buffered. The content of the positions is a function \<open>B\<close> that the segments agree with.
\<close>

definition segs_range :: "quic_stream_segment list \<Rightarrow> nat set" where
  "segs_range segs = (\<Union>s \<in> set segs. seg_range s)"

definition stream_received :: "quic_stream_state \<Rightarrow> nat set" where
  "stream_received st = {..< unat (ss_next_offset st)} \<union> segs_range (ss_segments st)"

definition seg_agrees :: "(nat \<Rightarrow> u8) \<Rightarrow> quic_stream_segment \<Rightarrow> bool" where
  "seg_agrees B s \<longleftrightarrow>
     seg_data s = map B [unat (seg_offset s) ..< unat (seg_offset s) + unat (seg_length s)]"

section \<open>The loop, case by case, over natural numbers\<close>

definition seg_end :: "quic_stream_segment \<Rightarrow> u32" where
  "seg_end s = seg_offset s + seg_length s"

text \<open>What is left of a segment of which everything before position \<open>p\<close> has been delivered.\<close>

definition seg_rest :: "quic_stream_segment \<Rightarrow> nat \<Rightarrow> quic_stream_segment" where
  "seg_rest s p = \<lparr>seg_offset = word_of_nat p, seg_length = word_of_nat (unat (seg_end s) - p),
     seg_data = drop (p - unat (seg_offset s)) (seg_data s)\<rparr>"

lemma unat_seg_end: "seg_ok s \<Longrightarrow> unat (seg_end s) = unat (seg_offset s) + unat (seg_length s)"
  by (simp add: seg_ok_def seg_end_def unat_word_ariths)

lemma seg_range_end: "seg_ok s \<Longrightarrow> seg_range s = {unat (seg_offset s) ..< unat (seg_end s)}"
  by (simp add: seg_range_def unat_seg_end)

lemma seg_end_pos: "seg_ok s \<Longrightarrow> unat (seg_offset s) < unat (seg_end s)"
  by (simp add: unat_seg_end) (simp add: seg_ok_def)

lemma consume_stop:
  "unat nxt < unat (seg_offset s) \<Longrightarrow> consume_loop (s # ss) nxt cap out = (s # ss, nxt, out)"
  by (simp add: word_le_nat_alt)

lemma consume_start:
  assumes "seg_offset s \<le> (nxt :: u32)"
  shows "unat (if seg_offset s < nxt then nxt - seg_offset s else 0)
     = unat nxt - unat (seg_offset s)"
  using assms by (auto simp: word_le_nat_alt word_less_nat_alt unat_sub_if')

lemma consume_skip:
  assumes "seg_ok s" and "unat (seg_end s) \<le> unat nxt"
  shows "consume_loop (s # ss) nxt cap out = consume_loop ss nxt cap out"
proof -
  have le: "seg_offset s \<le> nxt"
    using assms by (simp add: word_le_nat_alt unat_seg_end)
  have "seg_length s \<le> (if seg_offset s < nxt then nxt - seg_offset s else 0)"
    unfolding word_le_nat_alt consume_start [OF le] using assms by (simp add: unat_seg_end)
  with le show ?thesis by (simp add: Let_def)
qed

lemma consume_live:
  fixes s :: quic_stream_segment and nxt :: u32 and cap :: nat and out :: bytes
  assumes "seg_ok s" and "unat (seg_offset s) \<le> unat nxt" and "unat nxt < unat (seg_end s)"
  defines "k \<equiv> min (cap - length out) (unat (seg_end s) - unat nxt)"
  defines "out' \<equiv> out @ take k (drop (unat nxt - unat (seg_offset s)) (seg_data s))"
  shows "consume_loop (s # ss) nxt cap out =
    (if unat nxt + k < unat (seg_end s)
     then (seg_rest s (unat nxt + k) # ss, word_of_nat (unat nxt + k), out')
     else consume_loop ss (seg_end s) cap out')"
proof -
  let ?start = "if seg_offset s < nxt then nxt - seg_offset s else 0"
  have le: "seg_offset s \<le> nxt" using assms(2) by (simp add: word_le_nat_alt)
  note start = consume_start [OF le]
  have e: "unat (seg_end s) = unat (seg_offset s) + unat (seg_length s)"
    using assms(1) by (rule unat_seg_end)
  have lt: "\<not> seg_length s \<le> ?start"
    unfolding word_le_nat_alt start using assms(2,3) e by simp
  have rem: "unat (seg_length s - ?start) = unat (seg_end s) - unat nxt"
    using lt unfolding word_le_nat_alt start
    by (simp add: unat_sub_if' start e) (use assms(2,3) e in simp)
  have copy: "(if cap - length out < unat (seg_length s - ?start)
       then cap - length out else unat (seg_length s - ?start)) = k"
    unfolding rem k_def by simp
  have small: "unat nxt + k < 2 ^ 32" and "k < 2 ^ 32"
    using assms(1,3) e by (auto simp: k_def seg_ok_def)
  have nxt': "nxt + word_of_nat k = word_of_nat (unat nxt + k)"
    by simp
  have guard: "unat ?start + k < unat (seg_length s) \<longleftrightarrow> unat nxt + k < unat (seg_end s)"
    unfolding start using assms(2,3) e by auto
  have startw: "?start = word_of_nat (unat nxt - unat (seg_offset s))"
    unfolding start [symmetric] by simp
  have cons: "?start + word_of_nat k = word_of_nat (unat nxt - unat (seg_offset s) + k)"
    unfolding startw by simp
  have cons_nat: "unat (word_of_nat (unat nxt - unat (seg_offset s) + k) :: u32)
     = unat nxt - unat (seg_offset s) + k"
    unfolding unat_of_nat using small by simp
  have rest: "\<lparr>seg_offset = seg_offset s + (?start + word_of_nat k),
        seg_length = seg_length s - (?start + word_of_nat k),
        seg_data = drop (unat (?start + word_of_nat k)) (seg_data s)\<rparr>
     = seg_rest s (unat nxt + k)" if "unat nxt + k < unat (seg_end s)"
  proof -
    have "seg_offset s + (?start + word_of_nat k) = word_of_nat (unat nxt + k)"
    proof -
      have "unat (seg_offset s) + (unat nxt - unat (seg_offset s) + k) = unat nxt + k"
        using assms(2) by simp
      then have "word_of_nat (unat (seg_offset s)) + word_of_nat (unat nxt - unat (seg_offset s) + k)
         = (word_of_nat (unat nxt + k) :: u32)"
        by (metis of_nat_add)
      then show ?thesis unfolding cons by simp
    qed
    moreover have "seg_length s - (?start + word_of_nat k)
       = word_of_nat (unat (seg_end s) - (unat nxt + k))"
    proof -
      have "unat (seg_end s) - (unat nxt + k)
         = unat (seg_length s) - (unat nxt - unat (seg_offset s) + k)"
        using assms(2,3) e by auto
      moreover have "unat nxt - unat (seg_offset s) + k \<le> unat (seg_length s)"
        using that assms(2) e by auto
      ultimately show ?thesis
        unfolding cons by (simp add: of_nat_diff del: of_nat_add)
    qed
    moreover have "unat (?start + word_of_nat k) = unat nxt + k - unat (seg_offset s)"
      unfolding cons cons_nat using assms(2) by simp
    ultimately show ?thesis by (simp add: seg_rest_def)
  qed
  have final: "word_of_nat (unat nxt + k) = seg_end s" if "\<not> unat nxt + k < unat (seg_end s)"
  proof -
    have "unat nxt + k = unat (seg_end s)"
      using that assms(3) by (auto simp: k_def)
    then show ?thesis by simp
  qed
  show ?thesis
    unfolding consume_loop.simps(2) Let_def copy nxt' guard
    using le lt rest final by (simp add: out'_def start)
qed

text \<open>
  The induction principle of the loop: a segment that starts after the next byte stops it, one
  that ends at or before it is dropped, a live one is copied whole or, when the buffer is full,
  in part.
\<close>

definition live_bytes :: "quic_stream_segment \<Rightarrow> u32 \<Rightarrow> bytes" where
  "live_bytes s nxt = drop (unat nxt - unat (seg_offset s)) (seg_data s)"

lemma length_live_bytes:
  "seg_ok s \<Longrightarrow> unat (seg_offset s) \<le> unat nxt \<Longrightarrow>
     length (live_bytes s nxt) = unat (seg_end s) - unat nxt"
  by (simp add: live_bytes_def unat_seg_end) (simp add: seg_ok_def)

lemma consume_take:
  assumes "seg_ok s" and "unat (seg_offset s) \<le> unat nxt" and "unat nxt < unat (seg_end s)"
    and "unat (seg_end s) - unat nxt \<le> cap - length out"
  shows "consume_loop (s # ss) nxt cap out
     = consume_loop ss (seg_end s) cap (out @ live_bytes s nxt)"
  using assms length_live_bytes [OF assms(1,2)]
  by (subst consume_live) (simp_all add: min_absorb2 live_bytes_def)

lemma consume_part:
  assumes "seg_ok s" and "unat (seg_offset s) \<le> unat nxt" and "unat nxt < unat (seg_end s)"
    and "cap - length out < unat (seg_end s) - unat nxt"
  shows "consume_loop (s # ss) nxt cap out
     = (seg_rest s (unat nxt + (cap - length out)) # ss,
        word_of_nat (unat nxt + (cap - length out)),
        out @ take (cap - length out) (live_bytes s nxt))"
proof -
  have k: "min (cap - length out) (unat (seg_end s) - unat nxt) = cap - length out"
    and guard: "unat nxt + (cap - length out) < unat (seg_end s)"
    using assms(4) by linarith+
  show ?thesis
    unfolding consume_live [OF assms(1-3)] k if_P [OF guard] by (simp add: live_bytes_def)
qed

lemma consume_induct [consumes 1, case_names Nil Stop Skip Take Part]:
  assumes ok: "\<forall>s \<in> set segs. seg_ok s"
    and Nil: "\<And>nxt out. P [] nxt out"
    and Stop: "\<And>s ss nxt out. seg_ok s \<Longrightarrow> (\<forall>x \<in> set ss. seg_ok x) \<Longrightarrow> unat nxt < unat (seg_offset s) \<Longrightarrow> P (s # ss) nxt out"
    and Skip: "\<And>s ss nxt out. seg_ok s \<Longrightarrow> unat (seg_end s) \<le> unat nxt \<Longrightarrow> P ss nxt out \<Longrightarrow>
       P (s # ss) nxt out"
    and Take: "\<And>s ss nxt out. seg_ok s \<Longrightarrow> (\<forall>x \<in> set ss. seg_ok x) \<Longrightarrow> unat (seg_offset s) \<le> unat nxt \<Longrightarrow>
       unat nxt < unat (seg_end s) \<Longrightarrow> unat (seg_end s) - unat nxt \<le> cap - length out \<Longrightarrow>
       P ss (seg_end s) (out @ live_bytes s nxt) \<Longrightarrow> P (s # ss) nxt out"
    and Part: "\<And>s ss nxt out. seg_ok s \<Longrightarrow> (\<forall>x \<in> set ss. seg_ok x) \<Longrightarrow> unat (seg_offset s) \<le> unat nxt \<Longrightarrow>
       unat nxt < unat (seg_end s) \<Longrightarrow> cap - length out < unat (seg_end s) - unat nxt \<Longrightarrow>
       P (s # ss) nxt out"
  shows "P segs (nxt :: u32) (out :: bytes)"
  using ok
proof (induction segs arbitrary: nxt out)
  case Nil
  show ?case by (rule assms(2))
next
  case (Cons s ss nxt out)
  then have s: "seg_ok s" "\<forall>x \<in> set ss. seg_ok x" and IH: "\<And>nxt out. P ss nxt out" by auto
  consider "unat nxt < unat (seg_offset s)" | "unat (seg_end s) \<le> unat nxt"
    | "unat (seg_offset s) \<le> unat nxt" "unat nxt < unat (seg_end s)"
      "unat (seg_end s) - unat nxt \<le> cap - length out"
    | "unat (seg_offset s) \<le> unat nxt" "unat nxt < unat (seg_end s)"
      "cap - length out < unat (seg_end s) - unat nxt"
    by linarith
  then show ?case
    using s IH by cases (blast intro: Stop Skip Take Part)+
qed

lemmas consume_cases = consume_loop.simps(1) consume_stop consume_skip consume_take consume_part

declare consume_loop.simps(2) [simp del]

section \<open>What the loop keeps and delivers\<close>

lemma unat_part:
  assumes "seg_ok s" and "p < unat (seg_end s)"
  shows "unat (word_of_nat p :: u32) = p"
proof -
  have "p < 2 ^ LENGTH(32)"
    using assms unsigned_less [of "seg_end s"] by (meson less_trans)
  then show ?thesis unfolding unat_of_nat by (rule mod_less)
qed

lemma seg_rest_ok:
  assumes "seg_ok s" and "unat (seg_offset s) \<le> p" and "p < unat (seg_end s)"
  shows "unat (seg_offset (seg_rest s p)) = p" and "seg_end (seg_rest s p) = seg_end s"
    and "seg_ok (seg_rest s p)"
proof -
  have len: "unat (word_of_nat (unat (seg_end s) - p) :: u32) = unat (seg_end s) - p"
  proof -
    have "unat (seg_end s) - p < 2 ^ LENGTH(32)"
      using unsigned_less [of "seg_end s"] by (meson diff_le_self le_less_trans)
    then show ?thesis unfolding unat_of_nat by (rule mod_less)
  qed
  show off: "unat (seg_offset (seg_rest s p)) = p"
    using assms(1,3) by (simp add: seg_rest_def unat_part)
  have "word_of_nat p + word_of_nat (unat (seg_end s) - p) = (word_of_nat (unat (seg_end s)) :: u32)"
    using assms(3) by (simp flip: of_nat_add)
  then show "seg_end (seg_rest s p) = seg_end s"
    by (simp add: seg_end_def [of "seg_rest s p"]) (simp add: seg_rest_def)
  show "seg_ok (seg_rest s p)"
    using assms off len unsigned_less [of "seg_end s"] unat_seg_end [OF assms(1)]
    by (simp add: seg_ok_def seg_rest_def)
qed

text \<open>The output is the bytes from the old to the new next offset; the offset only grows.\<close>

lemma consume_progress:
  assumes "\<forall>s \<in> set segs. seg_ok s" and "length out \<le> cap"
    and "consume_loop segs nxt cap out = (segs', nxt', out')"
  shows "unat nxt \<le> unat nxt' \<and> length out' = length out + (unat nxt' - unat nxt) \<and>
     length out' \<le> cap"
  using assms
proof (induction segs nxt out rule: consume_induct [where cap = cap])
  case (Take s ss nxt out)
  then have "consume_loop ss (seg_end s) cap (out @ live_bytes s nxt) = (segs', nxt', out')"
    and len: "length (live_bytes s nxt) = unat (seg_end s) - unat nxt"
    by (simp_all add: consume_take length_live_bytes)
  moreover have "length (out @ live_bytes s nxt) \<le> cap"
    using Take.hyps(5) Take.prems(1) by (simp add: len)
  ultimately show ?case using Take.IH Take.hyps(4) by auto
next
  case (Part s ss nxt out)
  let ?k = "cap - length out"
  from Part have "unat (word_of_nat (unat nxt + ?k) :: u32) = unat nxt + ?k"
    by (intro unat_part [of s]) auto
  moreover have "nxt' = word_of_nat (unat nxt + ?k)"
    and "out' = out @ take ?k (live_bytes s nxt)"
    using Part by (simp_all only: consume_part prod.inject)
  ultimately show ?case
    using Part by (simp add: length_live_bytes)
qed (auto simp: consume_cases)

lemma consume_segs_ok:
  assumes "\<forall>s \<in> set segs. seg_ok s"
    and "consume_loop segs nxt cap out = (segs', nxt', out')"
  shows "\<forall>s \<in> set segs'. seg_ok s"
  using assms
proof (induction segs nxt out rule: consume_induct [where cap = cap])
  case (Part s ss nxt out)
  then show ?case
    by (auto simp: consume_part intro!: seg_rest_ok(3))
qed (auto simp: consume_cases)

text \<open>No position is lost: what was delivered or buffered before still is.\<close>

lemma consume_received:
  assumes "\<forall>s \<in> set segs. seg_ok s"
    and "consume_loop segs nxt cap out = (segs', nxt', out')"
  shows "{..< unat nxt'} \<union> segs_range segs' = {..< unat nxt} \<union> segs_range segs"
  using assms
proof (induction segs nxt out rule: consume_induct [where cap = cap])
  case (Skip s ss nxt out)
  then show ?case
    by (auto simp: consume_skip segs_range_def seg_range_end)
next
  case (Take s ss nxt out)
  then have "{..< unat nxt'} \<union> segs_range segs' = {..< unat (seg_end s)} \<union> segs_range ss"
    by (simp add: consume_take)
  with Take.hyps show ?case
    by (auto simp: segs_range_def seg_range_end)
next
  case (Part s ss nxt out)
  let ?p = "unat nxt + (cap - length out)"
  have p: "unat (seg_offset s) \<le> ?p" "?p < unat (seg_end s)"
    using Part.hyps by simp_all
  then have "unat (word_of_nat ?p :: u32) = ?p"
    and "seg_range (seg_rest s ?p) = {?p ..< unat (seg_end s)}"
    using seg_rest_ok [OF Part.hyps(1) p] unat_part [OF Part.hyps(1) p(2)]
    by (simp_all add: seg_range_end)
  moreover have "segs' = seg_rest s ?p # ss" and "nxt' = word_of_nat ?p"
    using Part by (simp_all add: consume_part)
  ultimately show ?case
    using Part.hyps p by (auto simp: segs_range_def seg_range_end simp del: of_nat_add)
qed (auto simp: consume_cases)

text \<open>Unless the buffer is full, nothing deliverable stays behind.\<close>

lemma segs_ordered_Cons:
  "segs_ordered nxt (s # ss) \<longleftrightarrow> segs_ordered nxt ss \<and>
     (\<forall>x \<in> set ss. unat (seg_offset s) \<le> max (unat nxt) (unat (seg_offset x)))"
  by (auto simp: segs_ordered_def le_max_iff_disj)

lemma segs_ordered_mono:
  "segs_ordered nxt segs \<Longrightarrow> unat nxt \<le> unat nxt' \<Longrightarrow> segs_ordered nxt' segs"
  by (induction segs) (force simp: segs_ordered_def le_max_iff_disj)+

lemma consume_ordered:
  assumes "\<forall>s \<in> set segs. seg_ok s" and "segs_ordered nxt segs"
    and "consume_loop segs nxt cap out = (segs', nxt', out')"
  shows "segs_ordered nxt' segs'"
  using assms
proof (induction segs nxt out rule: consume_induct [where cap = cap])
  case (Take s ss nxt out)
  then have "segs_ordered (seg_end s) ss"
    by (auto simp: segs_ordered_Cons elim!: segs_ordered_mono)
  with Take show ?case by (simp add: consume_take)
next
  case (Part s ss nxt out)
  let ?p = "unat nxt + (cap - length out)"
  have p: "unat (seg_offset s) \<le> ?p" "?p < unat (seg_end s)"
    using Part.hyps by simp_all
  note r = seg_rest_ok(1) [OF Part.hyps(1) p] unat_part [OF Part.hyps(1) p(2)]
  have "segs_ordered (word_of_nat ?p) ss"
    using Part.prems(1) r(2)
    by (auto simp: segs_ordered_Cons simp del: of_nat_add elim!: segs_ordered_mono)
  moreover have "segs' = seg_rest s ?p # ss" and "nxt' = word_of_nat ?p"
    using Part by (simp_all add: consume_part)
  moreover have "\<forall>x \<in> set ss. unat (seg_offset s) \<le> max (unat nxt) (unat (seg_offset x))"
    using Part.prems(1) by (simp add: segs_ordered_Cons)
  ultimately show ?case using r p by (simp add: segs_ordered_Cons del: of_nat_add)
next
  case (Skip s ss nxt out)
  then show ?case by (simp add: consume_skip segs_ordered_Cons)
qed (simp_all add: consume_cases)

lemma consume_frontier:
  assumes "\<forall>s \<in> set segs. seg_ok s" and "segs_ordered nxt segs" and "length out \<le> cap"
    and "consume_loop segs nxt cap out = (segs', nxt', out')" and "length out' < cap"
  shows "\<forall>s \<in> set segs'. unat nxt' < unat (seg_offset s)"
  using assms
proof (induction segs nxt out rule: consume_induct [where cap = cap])
  case (Stop s ss nxt out)
  then have "\<forall>x \<in> set ss. unat nxt < unat (seg_offset x)"
    by (fastforce simp: segs_ordered_Cons le_max_iff_disj)
  with Stop show ?case by (auto simp: consume_stop)
next
  case (Take s ss nxt out)
  then have "segs_ordered (seg_end s) ss"
    by (auto simp: segs_ordered_Cons elim!: segs_ordered_mono)
  with Take show ?case by (simp add: consume_take length_live_bytes)
next
  case (Part s ss nxt out)
  then have "length out' = cap" by (auto simp: consume_part length_live_bytes)
  with Part.prems show ?case by simp
qed (auto simp: consume_cases segs_ordered_Cons)

text \<open>Content: if the segments agree with \<open>B\<close>, the output is \<open>B\<close> from the old to the new offset.\<close>

lemma live_bytes_agree:
  assumes "seg_ok s" and "seg_agrees B s" and "unat (seg_offset s) \<le> unat nxt"
  shows "live_bytes s nxt = map B [unat nxt ..< unat (seg_end s)]"
  using assms by (simp add: live_bytes_def seg_agrees_def unat_seg_end drop_map)

lemma seg_rest_agrees:
  assumes "seg_ok s" and "seg_agrees B s" and "unat (seg_offset s) \<le> p" and "p < unat (seg_end s)"
  shows "seg_agrees B (seg_rest s p)"
proof -
  note r = seg_rest_ok [OF assms(1,3,4)]
  have "p + unat (seg_length (seg_rest s p)) = unat (seg_end s)"
    using r unat_seg_end [of "seg_rest s p"] by simp
  then show ?thesis
    using assms r(1) by (simp add: seg_agrees_def) (simp add: seg_rest_def unat_seg_end drop_map)
qed

lemma consume_content:
  assumes "\<forall>s \<in> set segs. seg_ok s" and "\<forall>s \<in> set segs. seg_agrees B s" and "length out \<le> cap"
    and "consume_loop segs nxt cap out = (segs', nxt', out')"
  shows "out' = out @ map B [unat nxt ..< unat nxt'] \<and> (\<forall>s \<in> set segs'. seg_agrees B s)"
  using assms
proof (induction segs nxt out rule: consume_induct [where cap = cap])
  case (Take s ss nxt out)
  have live: "live_bytes s nxt = map B [unat nxt ..< unat (seg_end s)]"
    using Take by (intro live_bytes_agree) auto
  have len: "length (out @ live_bytes s nxt) \<le> cap"
    using Take by (simp add: length_live_bytes)
  have run: "consume_loop ss (seg_end s) cap (out @ live_bytes s nxt) = (segs', nxt', out')"
    using Take by (simp add: consume_take)
  have "unat (seg_end s) \<le> unat nxt'"
    using consume_progress [OF Take.hyps(2) len run] by simp
  then have "[unat nxt ..< unat nxt'] = [unat nxt ..< unat (seg_end s)] @ [unat (seg_end s) ..< unat nxt']"
    using Take.hyps(4) by (metis le_add_diff_inverse less_imp_le upt_add_eq_append)
  then show ?case using Take.IH [OF _ len run] Take.prems(1) live by simp
next
  case (Part s ss nxt out)
  let ?k = "cap - length out"
  let ?p = "unat nxt + ?k"
  have p: "unat (seg_offset s) \<le> ?p" "?p < unat (seg_end s)"
    using Part.hyps by simp_all
  have "take ?k (live_bytes s nxt) = map B [unat nxt ..< ?p]"
    using Part p by (subst live_bytes_agree [of s B]) (auto simp: take_map)
  moreover have "unat nxt' = ?p" and "segs' = seg_rest s ?p # ss"
    and "out' = out @ take ?k (live_bytes s nxt)"
    using Part unat_part [OF Part.hyps(1) p(2)] by (simp_all add: consume_part del: of_nat_add)
  ultimately show ?case
    using Part p by (auto intro: seg_rest_agrees)
qed (auto simp: consume_cases)

section \<open>Insertion\<close>

lemma set_insert_ordered: "set (insert_ordered node segs) = insert node (set segs)"
  by (induction segs) auto

lemma insert_ordered_ordered:
  "segs_ordered nxt segs \<Longrightarrow> segs_ordered nxt (insert_ordered node segs)"
proof (induction segs)
  case Nil
  then show ?case by (simp add: segs_ordered_def)
next
  case (Cons s ss)
  show ?case
  proof (cases "seg_offset s < seg_offset node")
    case True
    with Cons show ?thesis
      by (auto simp: segs_ordered_Cons set_insert_ordered word_less_nat_alt)
  next
    case False
    then have "unat (seg_offset node) \<le> unat (seg_offset s)"
      by (simp add: word_less_nat_alt)
    moreover have "\<forall>x \<in> set ss. unat (seg_offset s) \<le> max (unat nxt) (unat (seg_offset x))"
      using Cons.prems by (simp add: segs_ordered_Cons)
    ultimately have "\<forall>x \<in> set (s # ss). unat (seg_offset node) \<le> max (unat nxt) (unat (seg_offset x))"
      by (auto intro: le_trans)
    with Cons.prems False show ?thesis by (simp add: segs_ordered_Cons [of _ node])
  qed
qed

section \<open>One stream: insert, then consume\<close>

text \<open>The data path of \<open>quic_stream_on_data\<close> once the stream has been found.\<close>

definition stream_push ::
  "quic_stream_state \<Rightarrow> u32 \<Rightarrow> bytes \<Rightarrow> u32 \<Rightarrow> nat \<Rightarrow> quic_stream_state \<times> bytes" where
  "stream_push st off d len cap =
     consume_segments (st\<lparr>ss_segments := insert_ordered
       \<lparr>seg_offset = off, seg_length = len, seg_data = take (unat len) d\<rparr> (ss_segments st)\<rparr>) cap"

text \<open>An arrival the sender can have produced: the bytes are there and no position wraps.\<close>

definition arrival_ok :: "u32 \<Rightarrow> bytes \<Rightarrow> u32 \<Rightarrow> bool" where
  "arrival_ok off d len \<longleftrightarrow> len \<noteq> 0 \<and> unat len \<le> length d \<and> unat off + unat len < 2 ^ 32"

definition arrival_range :: "u32 \<Rightarrow> u32 \<Rightarrow> nat set" where
  "arrival_range off len = {unat off ..< unat off + unat len}"

lemma arrival_seg_ok:
  "arrival_ok off d len \<Longrightarrow>
     seg_ok \<lparr>seg_offset = off, seg_length = len, seg_data = take (unat len) d\<rparr>"
  by (simp add: arrival_ok_def seg_ok_def unat_gt_0)

lemma stream_push_loop:
  assumes "stream_ok st" and "arrival_ok off d len"
    and "stream_push st off d len cap = (st', out)"
  obtains segs where "\<forall>s \<in> set segs. seg_ok s" and "segs_ordered (ss_next_offset st) segs"
    and "set segs = insert \<lparr>seg_offset = off, seg_length = len, seg_data = take (unat len) d\<rparr>
           (set (ss_segments st))"
    and "consume_loop segs (ss_next_offset st) cap [] = (ss_segments st', ss_next_offset st', out)"
    and "ss_stream_id st' = ss_stream_id st" and "ss_in_use st' = ss_in_use st"
proof -
  let ?node = "\<lparr>seg_offset = off, seg_length = len, seg_data = take (unat len) d\<rparr>"
  let ?segs = "insert_ordered ?node (ss_segments st)"
  have "\<forall>s \<in> set ?segs. seg_ok s"
    using assms(1) arrival_seg_ok [OF assms(2)]
    by (simp add: set_insert_ordered stream_ok_def segs_ok_def)
  moreover have "segs_ordered (ss_next_offset st) ?segs"
    using assms(1) by (simp add: stream_ok_def segs_ok_def insert_ordered_ordered)
  moreover have "consume_loop ?segs (ss_next_offset st) cap []
       = (ss_segments st', ss_next_offset st', out)"
    and "ss_stream_id st' = ss_stream_id st" "ss_in_use st' = ss_in_use st"
    using assms(3) by (auto simp: stream_push_def consume_segments_def split: prod.splits)
  ultimately show ?thesis by (intro that [of ?segs]) (simp_all add: set_insert_ordered)
qed

lemma stream_push_ok:
  assumes "stream_ok st" and "arrival_ok off d len"
    and "stream_push st off d len cap = (st', out)"
  shows "stream_ok st'"
proof -
  obtain segs where "\<forall>s \<in> set segs. seg_ok s" and "segs_ordered (ss_next_offset st) segs"
    and "consume_loop segs (ss_next_offset st) cap [] = (ss_segments st', ss_next_offset st', out)"
    using assms by (rule stream_push_loop)
  then show ?thesis
    using consume_segs_ok consume_ordered by (simp add: stream_ok_def segs_ok_def)
qed

lemma stream_push_ids:
  "stream_push st off d len cap = (st', out) \<Longrightarrow>
     ss_stream_id st' = ss_stream_id st \<and> ss_in_use st' = ss_in_use st"
  by (auto simp: stream_push_def consume_segments_def split: prod.splits)

text \<open>Refinement: the abstract state gains exactly the positions of the arrival.\<close>

lemma stream_push_received:
  assumes "stream_ok st" and "arrival_ok off d len"
    and "stream_push st off d len cap = (st', out)"
  shows "stream_received st' = stream_received st \<union> arrival_range off len"
proof -
  obtain segs where ok: "\<forall>s \<in> set segs. seg_ok s"
    and set: "set segs = insert \<lparr>seg_offset = off, seg_length = len, seg_data = take (unat len) d\<rparr>
           (set (ss_segments st))"
    and loop: "consume_loop segs (ss_next_offset st) cap [] = (ss_segments st', ss_next_offset st', out)"
    using assms by (rule stream_push_loop)
  have "segs_range segs = arrival_range off len \<union> segs_range (ss_segments st)"
    by (simp add: segs_range_def set seg_range_def arrival_range_def)
  then show ?thesis
    using consume_received [OF ok loop] by (auto simp: stream_received_def)
qed

text \<open>
  Refinement of the delivery: unless the output buffer was filled to its end, the next offset
  is the first position that has not arrived.
\<close>

lemma stream_push_frontier:
  assumes "stream_ok st" and "arrival_ok off d len"
    and "stream_push st off d len cap = (st', out)" and "length out < cap"
  shows "unat (ss_next_offset st') = (LEAST i. i \<notin> stream_received st')"
proof -
  obtain segs where ok: "\<forall>s \<in> set segs. seg_ok s" and ord: "segs_ordered (ss_next_offset st) segs"
    and loop: "consume_loop segs (ss_next_offset st) cap [] = (ss_segments st', ss_next_offset st', out)"
    using assms(1-3) by (rule stream_push_loop)
  have "\<forall>s \<in> set (ss_segments st'). unat (ss_next_offset st') < unat (seg_offset s)"
    using consume_frontier [OF ok ord _ loop assms(4)] by simp
  then have "unat (ss_next_offset st') \<notin> stream_received st'"
    by (force simp: stream_received_def segs_range_def seg_range_def)
  moreover have "i \<in> stream_received st'" if "i < unat (ss_next_offset st')" for i
    using that by (simp add: stream_received_def)
  ultimately show ?thesis
    by (intro Least_equality [symmetric]) (auto simp: not_less [symmetric])
qed

lemma stream_push_delivers:
  assumes "stream_ok st" and "arrival_ok off d len"
    and "\<forall>s \<in> set (ss_segments st). seg_agrees B s"
    and "take (unat len) d = map B [unat off ..< unat off + unat len]"
    and "stream_push st off d len cap = (st', out)"
  shows "out = map B [unat (ss_next_offset st) ..< unat (ss_next_offset st')]"
    and "unat (ss_next_offset st) \<le> unat (ss_next_offset st')" and "length out \<le> cap"
    and "\<forall>s \<in> set (ss_segments st'). seg_agrees B s"
proof -
  obtain segs where ok: "\<forall>s \<in> set segs. seg_ok s"
    and set: "set segs = insert \<lparr>seg_offset = off, seg_length = len, seg_data = take (unat len) d\<rparr>
           (set (ss_segments st))"
    and loop: "consume_loop segs (ss_next_offset st) cap [] = (ss_segments st', ss_next_offset st', out)"
    using assms(1,2,5) by (rule stream_push_loop)
  have agrees: "\<forall>s \<in> set segs. seg_agrees B s"
    using assms(3,4) by (simp add: set seg_agrees_def)
  show "out = map B [unat (ss_next_offset st) ..< unat (ss_next_offset st')]"
    and "\<forall>s \<in> set (ss_segments st'). seg_agrees B s"
    using consume_content [OF ok agrees _ loop] by simp_all
  show "unat (ss_next_offset st) \<le> unat (ss_next_offset st')" and "length out \<le> cap"
    using consume_progress [OF ok _ loop] by simp_all
qed

section \<open>The table of streams\<close>

interpretation streams: slot_table ss_in_use ss_stream_id claim_stream release_stream
  by unfold_locales (simp_all add: claim_stream_def release_stream_def)

abbreviation stream_find :: "quic_stream_manager \<Rightarrow> u32 \<Rightarrow> nat option" where
  "stream_find mgr sid \<equiv> slot_find ss_in_use ss_stream_id sid mgr"

abbreviation stream_keys :: "quic_stream_manager \<Rightarrow> u32 set" where
  "stream_keys mgr \<equiv> used_keys ss_in_use ss_stream_id mgr"

lemma first_idx_stream_is: "first_idx (stream_is sid) mgr = stream_find mgr sid"
  by (simp add: slot_find_def stream_is_def [abs_def])

lemma first_idx_stream_free: "first_idx (\<lambda>s. \<not> ss_in_use s) mgr = slot_free ss_in_use mgr"
  by (simp add: slot_free_def)

lemmas stream_searches = first_idx_stream_is first_idx_stream_free

definition mgr_ok :: "quic_stream_manager \<Rightarrow> bool" where
  "mgr_ok mgr \<longleftrightarrow> length mgr = QUIC_STREAM_MAX_STREAMS \<and>
     slots_unique ss_in_use ss_stream_id mgr \<and> (\<forall>s \<in> set mgr. ss_in_use s \<longrightarrow> stream_ok s)"

text \<open>The stream that the next packet for \<open>sid\<close> will find, an empty one if there is none yet.\<close>

definition mgr_stream :: "quic_stream_manager \<Rightarrow> u32 \<Rightarrow> quic_stream_state" where
  "mgr_stream mgr sid =
     (case stream_find mgr sid of Some i \<Rightarrow> mgr ! i | None \<Rightarrow> claim_stream sid () zero_stream)"

text \<open>A packet for \<open>sid\<close> finds a slot.\<close>

definition mgr_has_room :: "quic_stream_manager \<Rightarrow> u32 \<Rightarrow> bool" where
  "mgr_has_room mgr sid \<longleftrightarrow> stream_find mgr sid \<noteq> None \<or>
     slots_used ss_in_use mgr < QUIC_STREAM_MAX_STREAMS"

lemma claim_stream_fresh: "claim_stream sid () s = claim_stream sid () zero_stream"
  by (cases s) (simp add: claim_stream_def zero_stream_def)

lemma stream_ok_empty: "ss_segments st = [] \<Longrightarrow> stream_ok st"
  by (simp add: stream_ok_def segs_ok_def segs_ordered_def)

lemma stream_ok_fresh: "stream_ok (claim_stream sid () s)"
  by (rule stream_ok_empty) (simp add: claim_stream_def)

lemma mgr_stream_ok: "mgr_ok mgr \<Longrightarrow> stream_ok (mgr_stream mgr sid)"
  using slot_find_SomeD [of ss_in_use ss_stream_id sid mgr]
  by (auto simp: mgr_stream_def mgr_ok_def stream_ok_fresh split: option.splits)

lemma mgr_stream_ids: "ss_stream_id (mgr_stream mgr sid) = sid" "ss_in_use (mgr_stream mgr sid)"
  using slot_find_SomeD [of ss_in_use ss_stream_id sid mgr]
  by (auto simp: mgr_stream_def claim_stream_def split: option.splits)

lemma mgr_ok_init: "mgr_ok quic_stream_manager_init"
  by (simp add: mgr_ok_def quic_stream_manager_init_def slots_unique_def zero_stream_def)

lemma mgr_stream_init: "mgr_stream quic_stream_manager_init sid = claim_stream sid () zero_stream"
proof -
  have "stream_find quic_stream_manager_init sid = None"
    by (auto simp: slot_find_None used_keys_def quic_stream_manager_init_def zero_stream_def)
  then show ?thesis by (simp add: mgr_stream_def)
qed

text \<open>Finding or claiming the slot leaves every stream as a packet would find it.\<close>

lemma find_or_create_None:
  "length mgr = QUIC_STREAM_MAX_STREAMS \<Longrightarrow>
     find_or_create_stream mgr sid = None \<longleftrightarrow> \<not> mgr_has_room mgr sid"
  using slot_free_None [of ss_in_use mgr] slots_used_le [of ss_in_use mgr]
  by (auto simp: find_or_create_stream_def stream_searches mgr_has_room_def split: option.splits)

lemma find_or_create_Some:
  assumes "mgr_ok mgr" and "find_or_create_stream mgr sid = Some (i, mgr')"
  shows "stream_find mgr' sid = Some i" and "mgr' ! i = mgr_stream mgr sid" and "mgr_ok mgr'"
    and "stream_keys mgr' = insert sid (stream_keys mgr)"
    and "sid' \<noteq> sid \<Longrightarrow> mgr_stream mgr' sid' = mgr_stream mgr sid'"
proof -
  have all: "stream_find mgr' sid = Some i \<and> mgr' ! i = mgr_stream mgr sid \<and> mgr_ok mgr' \<and>
     stream_keys mgr' = insert sid (stream_keys mgr) \<and>
     (sid' \<noteq> sid \<longrightarrow> mgr_stream mgr' sid' = mgr_stream mgr sid')"
  proof (cases "stream_find mgr sid")
    case (Some k)
    then have "sid \<in> stream_keys mgr"
      using slot_find_None [of ss_in_use ss_stream_id sid mgr] by auto
    with Some assms show ?thesis
      by (auto simp: find_or_create_stream_def stream_searches mgr_stream_def)
  next
    case None
    then have new: "sid \<notin> used_keys ss_in_use ss_stream_id mgr"
      by (simp add: slot_find_None)
    obtain k where free: "slot_free ss_in_use mgr = Some k" and i: "i = k"
      and m: "mgr' = mgr[k := claim_stream sid () (mgr ! k)]"
      using assms(2) None
      by (auto simp: find_or_create_stream_def stream_searches split: option.splits)
    note k = slot_free_SomeD [OF free]
    have "mgr_ok mgr'"
      using assms(1) streams.claim_unique [OF free new]
      by (auto simp: mgr_ok_def m stream_ok_fresh dest!: set_update_subset_insert [THEN subsetD])
    moreover have "mgr_stream mgr' sid' = mgr_stream mgr sid'" if "sid' \<noteq> sid"
    proof -
      have "j \<noteq> k" if "stream_find mgr sid' = Some j" for j
        using slot_find_SomeD(2) [OF that] k(2) by auto
      then show ?thesis
        using streams.claim_find_other [OF free that]
        by (auto simp: mgr_stream_def m split: option.splits)
    qed
    ultimately show ?thesis
      using streams.claim_find [OF free new] streams.claim_keys [OF free] None k
      by (auto simp: m i mgr_stream_def intro: claim_stream_fresh)
  qed
  then show "stream_find mgr' sid = Some i" and "mgr' ! i = mgr_stream mgr sid" and "mgr_ok mgr'"
    and "stream_keys mgr' = insert sid (stream_keys mgr)"
    and "sid' \<noteq> sid \<Longrightarrow> mgr_stream mgr' sid' = mgr_stream mgr sid'"
    by blast+
qed

text \<open>Replacing the found stream by one with the same number.\<close>

lemma mgr_update:
  assumes "mgr_ok mgr" and "stream_find mgr sid = Some i"
    and "ss_stream_id st = sid" and "ss_in_use st" and "stream_ok st"
  shows "mgr_ok (mgr[i := st])" and "mgr_stream (mgr[i := st]) sid = st"
    and "stream_keys (mgr[i := st]) = stream_keys mgr"
    and "sid' \<noteq> sid \<Longrightarrow> mgr_stream (mgr[i := st]) sid' = mgr_stream mgr sid'"
proof -
  note i = slot_find_SomeD [OF assms(2)]
  have same: "ss_in_use st = ss_in_use (mgr ! i)" "ss_stream_id st = ss_stream_id (mgr ! i)"
    using assms(3,4) i by simp_all
  note upd = slot_update_same [of i mgr ss_in_use st ss_stream_id, OF i(1) same]
  show "stream_keys (mgr[i := st]) = stream_keys mgr" by (rule upd(3))
  show "mgr_ok (mgr[i := st])"
    using assms(1,5) upd(2)
    by (auto simp: mgr_ok_def dest!: set_update_subset_insert [THEN subsetD])
  show "mgr_stream (mgr[i := st]) sid = st"
    using upd(1) assms(2) i(1) by (simp add: mgr_stream_def)
  assume other: "sid' \<noteq> sid"
  have "j \<noteq> i" if "stream_find mgr sid' = Some j" for j
    using slot_find_SomeD(3) [OF that] i(3) other by auto
  then show "mgr_stream (mgr[i := st]) sid' = mgr_stream mgr sid'"
    using upd(1) by (auto simp: mgr_stream_def split: option.splits)
qed

text \<open>The whole entry point in terms of the streams.\<close>

lemma on_data_accepts:
  assumes "mgr_ok mgr" and "arrival_ok off d len" and "0 < cap" and "mgr_has_room mgr sid"
    and "stream_push (mgr_stream mgr sid) off d len cap = (st, out)"
  obtains mgr' where
    "quic_stream_on_data True mgr sid off (Some d) len (Some cap)
       = (0, mgr', Some (ss_next_offset (mgr_stream mgr sid)), out)"
    and "mgr_ok mgr'" and "mgr_stream mgr' sid = st"
    and "stream_keys mgr' = insert sid (stream_keys mgr)"
    and "\<And>sid'. sid' \<noteq> sid \<Longrightarrow> mgr_stream mgr' sid' = mgr_stream mgr sid'"
proof -
  have "length mgr = QUIC_STREAM_MAX_STREAMS" using assms(1) by (simp add: mgr_ok_def)
  then obtain i m where f: "find_or_create_stream mgr sid = Some (i, m)"
    using assms(4) find_or_create_None [of mgr sid] by auto
  note m = find_or_create_Some [OF assms(1) f]
  have "stream_ok st"
    using stream_push_ok [OF mgr_stream_ok [OF assms(1)] assms(2,5)] .
  moreover have "ss_stream_id st = sid" and "ss_in_use st"
    using stream_push_ids [OF assms(5)] mgr_stream_ids by simp_all
  ultimately have "mgr_ok (m[i := st])" and "mgr_stream (m[i := st]) sid = st"
    and "stream_keys (m[i := st]) = insert sid (stream_keys mgr)"
    and "\<And>sid'. sid' \<noteq> sid \<Longrightarrow> mgr_stream (m[i := st]) sid' = mgr_stream mgr sid'"
    using mgr_update [OF m(3,1)] m(4,5) by simp_all
  moreover have "quic_stream_on_data True mgr sid off (Some d) len (Some cap)
     = (0, m[i := st], Some (ss_next_offset (mgr_stream mgr sid)), out)"
    using assms(2,3,5) m(2)
    by (simp add: quic_stream_on_data_def f insert_segment_def arrival_ok_def Let_def stream_push_def)
  ultimately show ?thesis by (intro that [of "m[i := st]"])
qed

lemma on_data_refuses:
  assumes "length mgr = QUIC_STREAM_MAX_STREAMS" and "\<not> mgr_has_room mgr sid"
  shows "quic_stream_on_data mem mgr sid off d len cap = (-1, mgr, None, [])"
  using assms find_or_create_None [of mgr sid]
  by (simp add: quic_stream_on_data_def split: option.splits)

section \<open>Runs\<close>

text \<open>A sequence of packets for the streams of one connection, each with its output buffer.\<close>

record arrival =
  ar_sid :: u32
  ar_off :: u32
  ar_data :: bytes
  ar_len :: u32
  ar_cap :: nat

fun feed :: "quic_stream_manager \<Rightarrow> arrival list \<Rightarrow> quic_stream_manager \<times> (u32 \<times> bytes) list" where
  "feed m [] = (m, [])"
| "feed m (a # as) =
     (let (rc, m', off, out) = quic_stream_on_data True m (ar_sid a) (ar_off a) (Some (ar_data a))
                                 (ar_len a) (Some (ar_cap a));
          (m'', ds) = feed m' as
      in (m'', (ar_sid a, out) # ds))"

text \<open>The bytes handed over for one stream, in the order of the calls.\<close>

definition delivered :: "u32 \<Rightarrow> (u32 \<times> bytes) list \<Rightarrow> bytes" where
  "delivered sid ds = concat (map snd (filter (\<lambda>d. fst d = sid) ds))"

text \<open>A packet that carries bytes \<open>off .. off + len\<close> of the stream whose contents are \<open>B sid\<close>.\<close>

definition carries :: "(u32 \<Rightarrow> nat \<Rightarrow> u8) \<Rightarrow> arrival \<Rightarrow> bool" where
  "carries B a \<longleftrightarrow> arrival_ok (ar_off a) (ar_data a) (ar_len a) \<and> 0 < ar_cap a \<and>
     take (unat (ar_len a)) (ar_data a)
       = map (B (ar_sid a)) [unat (ar_off a) ..< unat (ar_off a) + unat (ar_len a)]"

definition ranges_of :: "u32 \<Rightarrow> arrival list \<Rightarrow> nat set" where
  "ranges_of sid as = (\<Union>a \<in> {a \<in> set as. ar_sid a = sid}. arrival_range (ar_off a) (ar_len a))"

lemma ranges_of_Nil: "ranges_of sid [] = {}"
  by (simp add: ranges_of_def)

lemma ranges_of_Cons: "ranges_of sid (a # as) =
   (if ar_sid a = sid then arrival_range (ar_off a) (ar_len a) else {}) \<union> ranges_of sid as"
  by (auto simp: ranges_of_def)

text \<open>The manager holds pieces of the streams \<open>B\<close> only.\<close>

definition mgr_holds :: "(u32 \<Rightarrow> nat \<Rightarrow> u8) \<Rightarrow> quic_stream_manager \<Rightarrow> bool" where
  "mgr_holds B m \<longleftrightarrow> mgr_ok m \<and>
     (\<forall>sid. \<forall>s \<in> set (ss_segments (mgr_stream m sid)). seg_agrees (B sid) s)"

lemma mgr_holds_init: "mgr_holds B quic_stream_manager_init"
  by (simp add: mgr_holds_def mgr_ok_init mgr_stream_init claim_stream_def)

text \<open>One packet, accepted or refused.\<close>

definition next_of :: "quic_stream_manager \<Rightarrow> u32 \<Rightarrow> nat" where
  "next_of m sid = unat (ss_next_offset (mgr_stream m sid))"

lemma packet_step:
  assumes "mgr_holds B m" and "carries B a"
    and "quic_stream_on_data True m (ar_sid a) (ar_off a) (Some (ar_data a)) (ar_len a)
           (Some (ar_cap a)) = (rc, m', o', out)"
  shows "mgr_holds B m'"
    and "out = map (B (ar_sid a)) [next_of m (ar_sid a) ..< next_of m' (ar_sid a)]"
    and "next_of m (ar_sid a) \<le> next_of m' (ar_sid a)"
    and "sid \<noteq> ar_sid a \<Longrightarrow> mgr_stream m' sid = mgr_stream m sid"
proof -
  let ?a = "ar_sid a"
  have all: "mgr_holds B m' \<and> out = map (B ?a) [next_of m ?a ..< next_of m' ?a] \<and>
     next_of m ?a \<le> next_of m' ?a \<and> (sid \<noteq> ?a \<longrightarrow> mgr_stream m' sid = mgr_stream m sid)"
  proof (cases "mgr_has_room m ?a")
    case False
    then have "m' = m" and "out = []"
      using assms(1,3) by (auto simp: mgr_holds_def mgr_ok_def on_data_refuses)
    with assms(1) show ?thesis by simp
  next
    case True
    have ok: "mgr_ok m" and hold: "\<forall>s \<in> set (ss_segments (mgr_stream m ?a)). seg_agrees (B ?a) s"
      using assms(1) by (simp_all add: mgr_holds_def)
    have arr: "arrival_ok (ar_off a) (ar_data a) (ar_len a)" and cap: "0 < ar_cap a"
      and dat: "take (unat (ar_len a)) (ar_data a)
         = map (B ?a) [unat (ar_off a) ..< unat (ar_off a) + unat (ar_len a)]"
      using assms(2) by (simp_all add: carries_def)
    obtain st out' where push:
      "stream_push (mgr_stream m ?a) (ar_off a) (ar_data a) (ar_len a) (ar_cap a) = (st, out')"
      by fastforce
    obtain m'' where call: "quic_stream_on_data True m ?a (ar_off a) (Some (ar_data a)) (ar_len a)
         (Some (ar_cap a)) = (0, m'', Some (ss_next_offset (mgr_stream m ?a)), out')"
      and m'': "mgr_ok m''" "mgr_stream m'' ?a = st"
        "\<And>sid'. sid' \<noteq> ?a \<Longrightarrow> mgr_stream m'' sid' = mgr_stream m sid'"
      using on_data_accepts [OF ok arr cap True push] by blast
    have eq: "m' = m''" "out = out'" using call assms(3) by simp_all
    note d = stream_push_delivers [OF mgr_stream_ok [OF ok] arr hold dat push]
    have "seg_agrees (B x) s" if "s \<in> set (ss_segments (mgr_stream m'' x))" for x s
      using that d(4) m'' assms(1) by (cases "x = ?a") (auto simp: mgr_holds_def)
    with d m'' show ?thesis by (simp add: eq mgr_holds_def next_of_def)
  qed
  then show "mgr_holds B m'" and "out = map (B ?a) [next_of m ?a ..< next_of m' ?a]"
    and "next_of m ?a \<le> next_of m' ?a" and "sid \<noteq> ?a \<Longrightarrow> mgr_stream m' sid = mgr_stream m sid"
    by blast+
qed

lemma map_upt_join: "i \<le> j \<Longrightarrow> j \<le> k \<Longrightarrow> map f [i ..< j] @ map f [j ..< k] = map f [i ..< k]"
  by (metis le_add_diff_inverse map_append upt_add_eq_append)

lemma feed_delivers:
  assumes "mgr_holds B m" and "\<forall>a \<in> set as. carries B a" and "feed m as = (m', ds)"
  shows "delivered sid ds = map (B sid) [next_of m sid ..< next_of m' sid] \<and>
     next_of m sid \<le> next_of m' sid \<and> mgr_holds B m'"
  using assms
proof (induction as arbitrary: m ds)
  case Nil
  then show ?case by (simp add: delivered_def)
next
  case (Cons a as)
  obtain rc m1 o1 out where call: "quic_stream_on_data True m (ar_sid a) (ar_off a)
      (Some (ar_data a)) (ar_len a) (Some (ar_cap a)) = (rc, m1, o1, out)"
    by (metis prod_cases4)
  obtain ds' where rest: "feed m1 as = (m', ds')" and ds: "ds = (ar_sid a, out) # ds'"
    using Cons.prems(3) call by (auto simp: split: prod.splits)
  have a: "carries B a" and as: "\<forall>a \<in> set as. carries B a" using Cons.prems(2) by simp_all
  note step = packet_step [OF Cons.prems(1) a call]
  note IH = Cons.IH [OF step(1) as rest]
  show ?case
  proof (cases "sid = ar_sid a")
    case True
    then show ?thesis
      using IH step(2,3) map_upt_join [of "next_of m sid" "next_of m1 sid" "next_of m' sid" "B sid"]
      by (auto simp: ds delivered_def)
  next
    case False
    then show ?thesis
      using IH step(4) by (simp add: ds delivered_def next_of_def)
  qed
qed

section \<open>Completeness of a run\<close>

lemma has_room_if_few:
  assumes "mgr_ok m" and "finite S" and "card S \<le> QUIC_STREAM_MAX_STREAMS"
    and "stream_keys m \<subseteq> S" and "sid \<in> S"
  shows "mgr_has_room m sid"
proof (cases "sid \<in> stream_keys m")
  case True
  then show ?thesis by (auto simp: mgr_has_room_def slot_find_None)
next
  case False
  with assms(4,5) have "stream_keys m \<subset> S" by auto
  then have "card (stream_keys m) < card S" using assms(2) by (simp add: psubset_card_mono)
  moreover have "slots_used ss_in_use m = card (stream_keys m)"
    using assms(1) by (intro slots_used_card) (simp add: mgr_ok_def)
  ultimately show ?thesis
    using assms(3) by (simp add: mgr_has_room_def)
qed

lemma feed_received:
  assumes "mgr_ok m" and "\<forall>a \<in> set as. carries B a" and "finite S"
    and "card S \<le> QUIC_STREAM_MAX_STREAMS" and "stream_keys m \<subseteq> S" and "ar_sid ` set as \<subseteq> S"
    and "feed m as = (m', ds)"
  shows "stream_received (mgr_stream m' sid) = stream_received (mgr_stream m sid) \<union> ranges_of sid as \<and>
     mgr_ok m' \<and> stream_keys m' \<subseteq> S"
  using assms
proof (induction as arbitrary: m ds)
  case Nil
  then show ?case by (simp add: ranges_of_def)
next
  case (Cons a as)
  let ?a = "ar_sid a"
  have arr: "arrival_ok (ar_off a) (ar_data a) (ar_len a)" and cap: "0 < ar_cap a"
    using Cons.prems(2) by (simp_all add: carries_def)
  have room: "mgr_has_room m ?a"
    using Cons.prems by (intro has_room_if_few [of m S]) auto
  obtain st out where push:
    "stream_push (mgr_stream m ?a) (ar_off a) (ar_data a) (ar_len a) (ar_cap a) = (st, out)"
    by fastforce
  obtain m1 where call: "quic_stream_on_data True m ?a (ar_off a) (Some (ar_data a)) (ar_len a)
       (Some (ar_cap a)) = (0, m1, Some (ss_next_offset (mgr_stream m ?a)), out)"
    and m1: "mgr_ok m1" "mgr_stream m1 ?a = st" "stream_keys m1 = insert ?a (stream_keys m)"
      "\<And>sid'. sid' \<noteq> ?a \<Longrightarrow> mgr_stream m1 sid' = mgr_stream m sid'"
    using on_data_accepts [OF Cons.prems(1) arr cap room push] by blast
  obtain ds' where rest: "feed m1 as = (m', ds')"
    using Cons.prems(7) call by (auto split: prod.splits)
  have "stream_keys m1 \<subseteq> S" using m1(3) Cons.prems(5,6) by simp
  then have IH: "stream_received (mgr_stream m' sid)
       = stream_received (mgr_stream m1 sid) \<union> ranges_of sid as \<and> mgr_ok m' \<and> stream_keys m' \<subseteq> S"
    using Cons.prems rest m1(1) by (intro Cons.IH) auto
  have "stream_received (mgr_stream m1 sid) = stream_received (mgr_stream m sid) \<union>
     (if sid = ?a then arrival_range (ar_off a) (ar_len a) else {})"
    using stream_push_received [OF mgr_stream_ok [OF Cons.prems(1)] arr push] m1 by auto
  then show ?case using IH by (auto simp: ranges_of_Cons)
qed

lemma feed_append:
  "feed m (as @ bs) = (let (m1, ds1) = feed m as; (m2, ds2) = feed m1 bs in (m2, ds1 @ ds2))"
  by (induction as arbitrary: m) (auto simp: Let_def split: prod.splits)

text \<open>The frontier after a packet whose delivery did not fill its buffer.\<close>

lemma packet_frontier:
  assumes "mgr_ok m" and "carries B a" and "mgr_has_room m (ar_sid a)"
    and "quic_stream_on_data True m (ar_sid a) (ar_off a) (Some (ar_data a)) (ar_len a)
           (Some (ar_cap a)) = (rc, m', o', out)" and "length out < ar_cap a"
  shows "next_of m' (ar_sid a) = (LEAST i. i \<notin> stream_received (mgr_stream m' (ar_sid a)))"
proof -
  let ?a = "ar_sid a"
  have arr: "arrival_ok (ar_off a) (ar_data a) (ar_len a)" and cap: "0 < ar_cap a"
    using assms(2) by (simp_all add: carries_def)
  obtain st out' where push:
    "stream_push (mgr_stream m ?a) (ar_off a) (ar_data a) (ar_len a) (ar_cap a) = (st, out')"
    by fastforce
  have "mgr_stream m' ?a = st" and "out' = out"
    using on_data_accepts [OF assms(1) arr cap assms(3) push] assms(4) by (metis prod.inject)+
  then show ?thesis
    using stream_push_frontier [OF mgr_stream_ok [OF assms(1)] arr push] assms(5)
    by (simp add: next_of_def)
qed

lemma frontier_beyond:
  assumes "k = (LEAST i. i \<notin> (R :: nat set))" and "{..< n} \<subseteq> R" and "finite R"
  shows "n \<le> k"
proof (rule ccontr)
  assume "\<not> n \<le> k"
  then have "k \<in> R" using assms(2) by auto
  moreover have "\<exists>i. i \<notin> R" using assms(3) by (metis finite_list infinite_UNIV_nat UNIV_eq_I)
  ultimately show False using assms(1) LeastI_ex by (metis (mono_tags))
qed

lemma finite_received: "finite (stream_received st)"
  by (auto simp: stream_received_def segs_range_def seg_range_def)

section \<open>The table never gives a stream back\<close>

text \<open>Packets and resets, whatever they carry and whether memory is found or not.\<close>

datatype stream_op = Op_data bool u32 u32 "bytes option" u32 "nat option" | Op_reset u32

fun stream_ops :: "quic_stream_manager \<Rightarrow> stream_op list \<Rightarrow> quic_stream_manager" where
  "stream_ops m [] = m"
| "stream_ops m (Op_data mem sid off d len buf # ops) =
     (let (rc, m', o', out) = quic_stream_on_data mem m sid off d len buf in stream_ops m' ops)"
| "stream_ops m (Op_reset sid # ops) = (let (rc, m') = quic_stream_reset m sid in stream_ops m' ops)"

definition mgr_full :: "quic_stream_manager \<Rightarrow> bool" where
  "mgr_full m \<longleftrightarrow> length m = QUIC_STREAM_MAX_STREAMS \<and>
     slots_used ss_in_use m = QUIC_STREAM_MAX_STREAMS"

lemma full_update:
  assumes "mgr_full m" and "i < length m" and "ss_in_use st = ss_in_use (m ! i)"
    and "ss_stream_id st = ss_stream_id (m ! i)"
  shows "mgr_full (m[i := st]) \<and> stream_keys (m[i := st]) = stream_keys m"
  using assms slot_update_same [of i m ss_in_use st ss_stream_id] by (simp add: mgr_full_def)

lemma insert_segment_ids:
  "insert_segment mem st off d len = (rc, st') \<Longrightarrow>
     ss_stream_id st' = ss_stream_id st \<and> ss_in_use st' = ss_in_use st"
  by (auto simp: insert_segment_def Let_def split: if_splits)

lemma consume_segments_ids:
  "consume_segments st cap = (st', out) \<Longrightarrow>
     ss_stream_id st' = ss_stream_id st \<and> ss_in_use st' = ss_in_use st"
  by (auto simp: consume_segments_def split: prod.splits)

lemma full_on_data:
  assumes "mgr_full m" and "quic_stream_on_data mem m sid off d len buf = (rc, m', o', out)"
  shows "mgr_full m' \<and> stream_keys m' = stream_keys m"
proof -
  have free: "slot_free ss_in_use m = None"
    using assms(1) by (simp add: slot_free_None mgr_full_def)
  show ?thesis
  proof (cases "stream_find m sid")
    case None
    then have "m' = m"
      using assms(2) free
      by (auto simp: quic_stream_on_data_def find_or_create_stream_def stream_searches
          split: option.splits if_splits)
    with assms(1) show ?thesis by simp
  next
    case (Some i)
    then have foc: "find_or_create_stream m sid = Some (i, m)"
      by (simp add: find_or_create_stream_def stream_searches)
    obtain rc1 st1 where ins: "insert_segment mem (m ! i) off (the d) len = (rc1, st1)"
      by fastforce
    obtain st2 out2 where con: "consume_segments st1 (the buf) = (st2, out2)" by fastforce
    have "m' = m \<or> m' = m[i := st2]"
      using assms(2) ins con
      by (auto simp: quic_stream_on_data_def foc Let_def split: option.splits if_splits)
    moreover have "ss_in_use st2 = ss_in_use (m ! i)" "ss_stream_id st2 = ss_stream_id (m ! i)"
      using insert_segment_ids [OF ins] consume_segments_ids [OF con] by simp_all
    ultimately show ?thesis
      using full_update [OF assms(1) slot_find_SomeD(1) [OF Some]] assms(1) by auto
  qed
qed

lemma full_reset:
  assumes "mgr_full m" and "quic_stream_reset m sid = (rc, m')"
  shows "mgr_full m' \<and> stream_keys m' = stream_keys m"
proof (cases "stream_find m sid")
  case None
  with assms show ?thesis by (simp add: quic_stream_reset_def stream_searches)
next
  case (Some i)
  with assms(2) have "m' = m[i := (m ! i)\<lparr>ss_segments := [], ss_next_offset := 0\<rparr>]"
    by (simp add: quic_stream_reset_def stream_searches)
  then show ?thesis
    using full_update [OF assms(1) slot_find_SomeD(1) [OF Some]] by simp
qed

lemma full_ops:
  "mgr_full m \<Longrightarrow> mgr_full (stream_ops m ops) \<and> stream_keys (stream_ops m ops) = stream_keys m"
proof (induction m ops rule: stream_ops.induct)
  case (2 m mem sid off d len buf ops)
  then show ?case
    using full_on_data [OF "2.prems"] by (auto split: prod.splits)
next
  case (3 m sid ops)
  then show ?case
    using full_reset [OF "3.prems"] by (auto split: prod.splits)
qed simp

section \<open>The shape of the table, whatever arrives\<close>

definition mgr_table :: "quic_stream_manager \<Rightarrow> bool" where
  "mgr_table m \<longleftrightarrow> length m = QUIC_STREAM_MAX_STREAMS \<and> slots_unique ss_in_use ss_stream_id m"

lemma mgr_table_init: "mgr_table quic_stream_manager_init"
  using mgr_ok_init by (simp add: mgr_ok_def mgr_table_def)

lemma mgr_table_destroy: "mgr_table m \<Longrightarrow> mgr_table (quic_stream_manager_destroy m)"
  by (simp add: mgr_table_def quic_stream_manager_destroy_def slots_unique_def release_stream_def)

lemma find_or_create_table:
  assumes "mgr_table m" and "find_or_create_stream m sid = Some (i, m')"
  shows "mgr_table m' \<and> i < length m'"
proof (cases "stream_find m sid")
  case (Some k)
  with assms show ?thesis
    using slot_find_SomeD(1) [OF Some] by (simp add: find_or_create_stream_def stream_searches)
next
  case None
  then have new: "sid \<notin> used_keys ss_in_use ss_stream_id m" by (simp add: slot_find_None)
  with assms None show ?thesis
    using streams.claim_unique [OF _ new] slot_free_SomeD(1) [of ss_in_use m]
    by (auto simp: find_or_create_stream_def stream_searches mgr_table_def split: option.splits)
qed

lemma on_data_table:
  assumes "mgr_table m" and "quic_stream_on_data mem m sid off d len buf = (rc, m', o', out)"
  shows "mgr_table m'"
proof (cases "find_or_create_stream m sid")
  case None
  with assms show ?thesis
    by (auto simp: quic_stream_on_data_def split: option.splits if_splits)
next
  case (Some im)
  then obtain i m1 where foc: "find_or_create_stream m sid = Some (i, m1)" by fastforce
  note tab = find_or_create_table [OF assms(1) foc]
  obtain rc1 st1 where ins: "insert_segment mem (m1 ! i) off (the d) len = (rc1, st1)"
    by fastforce
  obtain st2 out2 where con: "consume_segments st1 (the buf) = (st2, out2)" by fastforce
  have "m' = m \<or> m' = m1 \<or> m' = m1[i := st2]"
    using assms(2) ins con
    by (auto simp: quic_stream_on_data_def foc Let_def split: option.splits if_splits)
  moreover have "ss_in_use st2 = ss_in_use (m1 ! i)" "ss_stream_id st2 = ss_stream_id (m1 ! i)"
    using insert_segment_ids [OF ins] consume_segments_ids [OF con] by simp_all
  ultimately show ?thesis
    using assms(1) tab slot_update_same(2) [of i m1 ss_in_use st2 ss_stream_id]
    by (auto simp: mgr_table_def)
qed

text \<open>When no memory is found a packet claims at most an empty stream.\<close>

lemma on_data_no_memory:
  assumes "mgr_ok m" and "quic_stream_on_data False m sid off d len buf = (rc, m', o', out)"
  shows "rc = -1" and "out = []" and "mgr_ok m'" and "mgr_stream m' x = mgr_stream m x"
proof -
  have "rc = -1 \<and> out = [] \<and> (m' = m \<or> (\<exists>i. find_or_create_stream m sid = Some (i, m')))"
    using assms(2)
    by (auto simp: quic_stream_on_data_def insert_segment_def split: option.splits if_splits)
  moreover have "mgr_ok m' \<and> mgr_stream m' x = mgr_stream m x"
    if "find_or_create_stream m sid = Some (i, m')" for i
    using find_or_create_Some [OF assms(1) that] by (cases "x = sid") (auto simp: mgr_stream_def)
  ultimately show "rc = -1" and "out = []" and "mgr_ok m'" and "mgr_stream m' x = mgr_stream m x"
    using assms(1) by auto
qed

section \<open>Bounds and the full buffer\<close>

text \<open>No input makes the loop write beyond the caller's buffer, well formed or not.\<close>

lemma consume_bounded:
  "length out \<le> cap \<Longrightarrow> consume_loop segs nxt cap out = (segs', nxt', out') \<Longrightarrow> length out' \<le> cap"
proof (induction segs nxt cap out rule: consume_loop.induct)
  case (2 s ss nxt cap out)
  let ?start = "if seg_offset s < nxt then nxt - seg_offset s else 0"
  let ?k = "if cap - length out < unat (seg_length s - ?start)
            then cap - length out else unat (seg_length s - ?start)"
  let ?out = "out @ take ?k (drop (unat ?start) (seg_data s))"
  have len: "length ?out \<le> cap" using "2.prems"(1) by auto
  show ?case
  proof (cases "seg_offset s \<le> nxt \<and> \<not> seg_length s \<le> ?start \<and> \<not> unat ?start + ?k < unat (seg_length s)")
    case True
    then have "consume_loop ss (nxt + word_of_nat ?k) cap ?out = (segs', nxt', out')"
      using "2.prems"(2) by (simp only: consume_loop.simps(2) Let_def if_True if_False simp_thms)
    with True len show ?thesis by (intro "2.IH"(2)) auto
  next
    case False
    show ?thesis
    proof (cases "seg_offset s \<le> nxt \<and> seg_length s \<le> ?start")
      case True
      then have "consume_loop ss nxt cap out = (segs', nxt', out')"
        using "2.prems"(2) by (simp only: consume_loop.simps(2) Let_def if_True if_False simp_thms)
      with True "2.prems"(1) show ?thesis by (intro "2.IH"(1)) auto
    next
      case False
      with \<open>\<not> (_ \<and> _ \<and> _)\<close> have "out' = out \<or> out' = ?out"
        using "2.prems"(2) by (auto simp: consume_loop.simps(2) Let_def split: if_splits)
      with len "2.prems"(1) show ?thesis by auto
    qed
  qed
qed simp

lemma on_data_bounded:
  assumes "quic_stream_on_data mem m sid off d len buf = (rc, m', o', out)"
  shows "length out \<le> (case buf of None \<Rightarrow> 0 | Some cap \<Rightarrow> cap)"
  using assms consume_bounded [of "[]"]
  by (auto simp: quic_stream_on_data_def consume_segments_def Let_def
      split: option.splits prod.splits if_splits)

text \<open>Two segments of the size of the buffer that arrive in the wrong order.\<close>

lemma consume_two:
  fixes c :: nat
  assumes "0 < c" and "2 * c < 2 ^ 32" and "length d1 = c" and "length d2 = c"
  defines "s1 \<equiv> \<lparr>seg_offset = 0, seg_length = word_of_nat c, seg_data = d1\<rparr>"
    and "s2 \<equiv> \<lparr>seg_offset = word_of_nat c, seg_length = word_of_nat c, seg_data = d2\<rparr>"
  shows "consume_loop [s2] 0 c [] = ([s2], 0, [])"
    and "consume_loop [s1, s2] 0 c [] = ([s2], word_of_nat c, d1)"
proof -
  have c: "unat (word_of_nat c :: u32) = c"
    unfolding unat_of_nat using assms(1,2) by simp
  have ok: "seg_ok s1" "seg_ok s2" and e1: "seg_end s1 = word_of_nat c"
    and e2: "unat (seg_end s2) = 2 * c"
    using assms by (simp_all add: seg_ok_def s1_def s2_def seg_end_def c unat_word_ariths)
  show one: "consume_loop [s2] 0 c [] = ([s2], 0, [])"
    using assms(1) by (intro consume_stop) (simp add: s2_def c)
  have "consume_loop [s1, s2] 0 c [] = consume_loop [s2] (word_of_nat c) c d1"
    using consume_take [of s1 0 c "[]" "[s2]"] ok(1) assms(1)
    by (simp add: e1 c live_bytes_def) (simp add: s1_def)
  also have "\<dots> = (seg_rest s2 c # [], word_of_nat c, d1)"
    using consume_part [of s2 "word_of_nat c" c d1 "[]"] ok(2) e2 c assms(1,3)
    by (simp add: s2_def)
  also have "seg_rest s2 c = s2"
    using e2 c by (simp add: seg_rest_def) (simp add: s2_def c)
  finally show "consume_loop [s1, s2] 0 c [] = ([s2], word_of_nat c, d1)" .
qed

lemma all_delivered:
  assumes "\<forall>a \<in> set (as @ [a]). carries B a" and "card (ar_sid ` set (as @ [a])) \<le> QUIC_STREAM_MAX_STREAMS"
    and "{..< n} \<subseteq> ranges_of (ar_sid a) (as @ [a])"
    and "length (snd (last (snd (feed quic_stream_manager_init (as @ [a]))))) < ar_cap a"
  shows "take n (delivered (ar_sid a) (snd (feed quic_stream_manager_init (as @ [a]))))
     = map (B (ar_sid a)) [0 ..< n]"
proof -
  let ?S = "ar_sid ` set (as @ [a])" and ?sid = "ar_sid a"
  obtain m1 ds1 where run1: "feed quic_stream_manager_init as = (m1, ds1)" by fastforce
  obtain rc m2 o2 out where call: "quic_stream_on_data True m1 ?sid (ar_off a) (Some (ar_data a))
      (ar_len a) (Some (ar_cap a)) = (rc, m2, o2, out)" by (metis prod_cases4)
  have run: "feed quic_stream_manager_init (as @ [a]) = (m2, ds1 @ [(?sid, out)])"
    by (simp add: feed_append run1 call)
  have keys0: "stream_keys quic_stream_manager_init = {}"
    by (auto simp: used_keys_def quic_stream_manager_init_def zero_stream_def)
  have m1: "mgr_ok m1" and k1: "stream_keys m1 \<subseteq> ?S"
    using feed_received [OF mgr_ok_init _ _ assms(2) _ _ run1] assms(1) keys0 by auto
  have recv: "stream_received (mgr_stream m2 ?sid) = ranges_of ?sid (as @ [a])"
    using feed_received [OF mgr_ok_init assms(1) _ assms(2) _ _ run] keys0
    by (auto simp: mgr_stream_init stream_received_def claim_stream_def segs_range_def)
  have room: "mgr_has_room m1 ?sid"
    using has_room_if_few [OF m1 _ assms(2) k1] by simp
  have "next_of m2 ?sid = (LEAST i. i \<notin> stream_received (mgr_stream m2 ?sid))"
    using packet_frontier [OF m1 _ room call, of B] assms(1,4) by (simp add: run)
  then have "n \<le> next_of m2 ?sid"
    using assms(3) recv finite_received [of "mgr_stream m2 ?sid"]
    by (intro frontier_beyond) simp_all
  moreover have "delivered ?sid (ds1 @ [(?sid, out)]) = map (B ?sid) [0 ..< next_of m2 ?sid]"
    using feed_delivers [OF mgr_holds_init assms(1) run, of ?sid]
    by (simp add: next_of_def mgr_stream_init claim_stream_def)
  ultimately show ?thesis by (simp add: run take_map)
qed

section \<open>Properties\<close>

text \<open>
  C4: In-order, exactly-once delivery. For any number of streams and any sequence of packets
  that carry pieces of them, in any order, duplicated or overlapping, with output buffers of any
  size and packets refused when the table is full, the bytes handed over for a stream are the
  stream's bytes from 0 to its next offset: no gap, no repetition, no reordering.
\<close>

theorem reassembly_in_order:
  assumes "\<forall>a \<in> set as. carries B a"
  shows "delivered sid (snd (feed quic_stream_manager_init as))
     = map (B sid) [0 ..< next_of (fst (feed quic_stream_manager_init as)) sid]"
proof -
  obtain m ds where run: "feed quic_stream_manager_init as = (m, ds)" by fastforce
  have "next_of quic_stream_manager_init sid = 0"
    by (simp add: next_of_def mgr_stream_init claim_stream_def)
  then show ?thesis
    using feed_delivers [OF mgr_holds_init assms run, of sid] by (simp add: run)
qed

definition sample_stream :: "u32 \<Rightarrow> nat \<Rightarrow> u8" where
  "sample_stream sid i = word_of_nat (10 * i + 7)"

text \<open>Bytes 2 to 4, then 1 to 3 (an overlap), then 0 to 2 of a stream.\<close>

definition sample_arrivals :: "arrival list" where
  "sample_arrivals =
     [\<lparr>ar_sid = 9, ar_off = 2, ar_data = [27, 37], ar_len = 2, ar_cap = 8\<rparr>,
      \<lparr>ar_sid = 9, ar_off = 1, ar_data = [17, 27], ar_len = 2, ar_cap = 8\<rparr>,
      \<lparr>ar_sid = 9, ar_off = 0, ar_data = [7, 17], ar_len = 2, ar_cap = 8\<rparr>]"

lemma sample_carries: "\<forall>a \<in> set sample_arrivals. carries sample_stream a"
  by (simp add: sample_arrivals_def carries_def arrival_ok_def sample_stream_def upt_conv_Cons)

lemma sample_delivered: "delivered 9 (snd (feed quic_stream_manager_init sample_arrivals)) = [7, 17, 27, 37]"
  by code_simp

theorem reassembly_in_order_witness:
  "delivered 9 (snd (feed quic_stream_manager_init sample_arrivals)) = [7, 17, 27, 37] \<and>
   [7, 17, 27, 37]
     = map (sample_stream 9) [0 ..< next_of (fst (feed quic_stream_manager_init sample_arrivals)) 9]"
  using reassembly_in_order [OF sample_carries, of 9] sample_delivered by metis

text \<open>
  C5: Completeness. If at most sixteen streams are used and all of the first \<open>n\<close> bytes of a
  stream have arrived, then once a packet of that stream has been answered with less than a full
  buffer, at least these \<open>n\<close> bytes have been handed over.
\<close>

theorem reassembly_complete:
  assumes "\<forall>a \<in> set (as @ [a]). carries B a" and "card (ar_sid ` set (as @ [a])) \<le> QUIC_STREAM_MAX_STREAMS"
    and "{..< n} \<subseteq> ranges_of (ar_sid a) (as @ [a])"
    and "length (snd (last (snd (feed quic_stream_manager_init (as @ [a]))))) < ar_cap a"
  shows "take n (delivered (ar_sid a) (snd (feed quic_stream_manager_init (as @ [a]))))
     = map (B (ar_sid a)) [0 ..< n]"
  by (rule all_delivered [OF assms])

theorem reassembly_complete_witness:
  "take 4 (delivered 9 (snd (feed quic_stream_manager_init sample_arrivals)))
     = map (sample_stream 9) [0 ..< 4]"
proof -
  let ?as = "butlast sample_arrivals" and ?a = "last sample_arrivals"
  have all: "?as @ [?a] = sample_arrivals" by (simp add: sample_arrivals_def)
  have sid: "ar_sid ?a = 9" "ar_cap ?a = 8" by (simp_all add: sample_arrivals_def)
  have "arrival_range 2 2 = {2 ..< 4}" "arrival_range 1 2 = {1 ..< 3}" "arrival_range 0 2 = {0 ..< 2}"
    by (auto simp: arrival_range_def)
  then have "ranges_of 9 sample_arrivals = {2 ..< 4} \<union> ({1 ..< 3} \<union> {0 ..< 2})"
    by (simp add: ranges_of_Cons ranges_of_Nil sample_arrivals_def)
  then have "{..< 4} \<subseteq> ranges_of 9 sample_arrivals"
    by (simp only:) (simp add: subset_iff, presburger)
  moreover have "card (ar_sid ` set sample_arrivals) \<le> QUIC_STREAM_MAX_STREAMS"
    by (simp add: sample_arrivals_def QUIC_STREAM_MAX_STREAMS_def)
  moreover have "length (snd (last (snd (feed quic_stream_manager_init sample_arrivals)))) < 8"
    by code_simp
  ultimately show ?thesis
    using reassembly_complete [of ?as ?a sample_stream 4] sample_carries unfolding all sid by blast
qed

text \<open>
  C6: Refinement. On a well-formed manager with room for the stream, one packet makes the
  abstract state of its stream (the set of positions that have arrived) grow by exactly the
  packet's positions, returns 0 with the old next offset, moves the next offset to the first
  missing position unless the output buffer was filled, keeps the manager well formed and leaves
  every other stream as it was.
\<close>

theorem on_data_refines:
  assumes "mgr_ok m" and "arrival_ok off d len" and "0 < cap" and "mgr_has_room m sid"
  shows "\<exists>m' out. quic_stream_on_data True m sid off (Some d) len (Some cap)
       = (0, m', Some (ss_next_offset (mgr_stream m sid)), out) \<and>
     mgr_ok m' \<and>
     stream_received (mgr_stream m' sid) = stream_received (mgr_stream m sid) \<union> arrival_range off len \<and>
     (length out < cap \<longrightarrow> next_of m' sid = (LEAST i. i \<notin> stream_received (mgr_stream m' sid))) \<and>
     (\<forall>sid'. sid' \<noteq> sid \<longrightarrow> mgr_stream m' sid' = mgr_stream m sid')"
proof -
  obtain st out where push: "stream_push (mgr_stream m sid) off d len cap = (st, out)" by fastforce
  note ok = mgr_stream_ok [OF assms(1), of sid]
  obtain m' where "quic_stream_on_data True m sid off (Some d) len (Some cap)
       = (0, m', Some (ss_next_offset (mgr_stream m sid)), out)"
    and "mgr_ok m'" and st: "mgr_stream m' sid = st"
    and "\<And>sid'. sid' \<noteq> sid \<Longrightarrow> mgr_stream m' sid' = mgr_stream m sid'"
    using on_data_accepts [OF assms push] by blast
  moreover have "stream_received st = stream_received (mgr_stream m sid) \<union> arrival_range off len"
    by (rule stream_push_received [OF ok assms(2) push])
  moreover have "length out < cap \<Longrightarrow> unat (ss_next_offset st) = (LEAST i. i \<notin> stream_received st)"
    by (rule stream_push_frontier [OF ok assms(2) push])
  ultimately show ?thesis unfolding next_of_def by blast
qed

theorem on_data_refines_witness:
  "\<exists>m' out. quic_stream_on_data True quic_stream_manager_init 3 2 (Some [8, 9]) 2 (Some 4)
       = (0, m', Some 0, out) \<and> mgr_ok m' \<and> stream_received (mgr_stream m' 3) = {2, 3}"
proof -
  have room: "mgr_has_room quic_stream_manager_init 3"
    by (simp add: mgr_has_room_def slots_used_def quic_stream_manager_init_def zero_stream_def
        QUIC_STREAM_MAX_STREAMS_def)
  have arr: "arrival_ok 2 [8, 9] 2" by (simp add: arrival_ok_def)
  have range: "arrival_range 2 2 = {2, 3}" by (auto simp: arrival_range_def)
  have recv: "stream_received (mgr_stream quic_stream_manager_init 3) = {}"
    and off: "ss_next_offset (mgr_stream quic_stream_manager_init 3) = 0"
    by (simp_all add: mgr_stream_init stream_received_def claim_stream_def segs_range_def zero_stream_def)
  show ?thesis
    using on_data_refines [OF mgr_ok_init arr _ room, of 4] unfolding recv off range by auto
qed

text \<open>
  Memory safety of the output. Whatever the manager holds and whatever the packet says,
  a call never writes more bytes than the caller's buffer has.
\<close>

theorem on_data_in_bounds:
  "length (snd (snd (snd (quic_stream_on_data mem m sid off d len (Some cap))))) \<le> cap"
proof -
  obtain rc m' o' out where "quic_stream_on_data mem m sid off d len (Some cap) = (rc, m', o', out)"
    by (metis prod_cases4)
  then show ?thesis using on_data_bounded by fastforce
qed

text \<open>
  A delivery that fills its buffer leaves deliverable bytes behind, and nothing but a
  further packet delivers them: when the second of two segments of the buffer's size arrives
  first, the packet that completes the stream hands over the first segment only, although all
  \<open>2 * c\<close> bytes have arrived. The engine calls with a buffer of one maximal payload.
\<close>

theorem reassembly_stall:
  fixes c :: nat and sid :: u32
  assumes "0 < c" and "2 * c < 2 ^ 32" and "length d1 = c" and "length d2 = c"
  defines "w \<equiv> word_of_nat c :: u32"
  defines "m \<equiv> fst (snd (quic_stream_on_data True quic_stream_manager_init sid w (Some d2) w (Some c)))"
  shows "\<exists>m'. quic_stream_on_data True m sid 0 (Some d1) w (Some c) = (0, m', Some 0, d1) \<and>
     next_of m' sid = c \<and> stream_received (mgr_stream m' sid) = {..< 2 * c}"
proof -
  have c: "unat w = c" unfolding w_def unat_of_nat using assms(1,2) by simp
  have a1: "arrival_ok 0 d1 w" and a2: "arrival_ok w d2 w"
    using assms(1-4) c unat_eq_0 [of w] by (auto simp: arrival_ok_def)
  let ?fresh = "claim_stream sid () zero_stream"
  let ?s1 = "\<lparr>seg_offset = 0, seg_length = w, seg_data = d1\<rparr>"
    and ?s2 = "\<lparr>seg_offset = w, seg_length = w, seg_data = d2\<rparr>"
  note two = consume_two [OF assms(1-4), folded w_def]
  have p1: "stream_push ?fresh w d2 w c = (?fresh\<lparr>ss_segments := [?s2]\<rparr>, [])"
    using two(1) assms(4) by (simp add: stream_push_def consume_segments_def claim_stream_def c)
  have pos: "0 < w" using c assms(1) by (simp add: word_less_nat_alt)
  have p2: "stream_push (?fresh\<lparr>ss_segments := [?s2]\<rparr>) 0 d1 w c
     = (?fresh\<lparr>ss_segments := [?s2], ss_next_offset := w\<rparr>, d1)"
    using two(2) assms(3) pos by (simp add: stream_push_def consume_segments_def claim_stream_def c)
  have room: "mgr_has_room quic_stream_manager_init sid"
    by (simp add: mgr_has_room_def slots_used_def quic_stream_manager_init_def zero_stream_def
        QUIC_STREAM_MAX_STREAMS_def)
  obtain m1 where "quic_stream_on_data True quic_stream_manager_init sid w (Some d2) w (Some c)
       = (0, m1, Some (ss_next_offset ?fresh), [])"
    and ok: "mgr_ok m1" and st: "mgr_stream m1 sid = ?fresh\<lparr>ss_segments := [?s2]\<rparr>"
    and keys: "stream_keys m1 = insert sid (stream_keys quic_stream_manager_init)"
    using on_data_accepts [OF mgr_ok_init a2 assms(1) room] p1 unfolding mgr_stream_init by blast
  then have m: "m = m1" by (simp add: m_def)
  have room1: "mgr_has_room m1 sid"
    using keys by (simp add: mgr_has_room_def slot_find_None)
  obtain m2 where "quic_stream_on_data True m1 sid 0 (Some d1) w (Some c)
       = (0, m2, Some (ss_next_offset (mgr_stream m1 sid)), d1)"
    and "mgr_stream m2 sid = ?fresh\<lparr>ss_segments := [?s2], ss_next_offset := w\<rparr>"
    using on_data_accepts [OF ok a1 assms(1) room1] p2 unfolding st by blast
  then show ?thesis
    using c by (auto simp: m st next_of_def stream_received_def segs_range_def seg_range_def
        claim_stream_def)
qed

theorem reassembly_stall_witness:
  "\<exists>m'. quic_stream_on_data True (fst (snd (quic_stream_on_data True quic_stream_manager_init 5 2
       (Some [3, 4]) 2 (Some 2)))) 5 0 (Some [1, 2]) 2 (Some 2) = (0, m', Some 0, [1, 2]) \<and>
     next_of m' 5 = 2 \<and> stream_received (mgr_stream m' 5) = {..< 4}"
  using reassembly_stall [of 2 "[1, 2]" "[3, 4]" 5] by simp

text \<open>
  A connection has sixteen streams for its lifetime: once the sixteen slots are used, a packet
  for any other stream is refused with \<open>-1\<close> and changes nothing, after any sequence of packets
  and resets, because neither gives a slot back.
\<close>

theorem streams_exhausted:
  assumes "mgr_full m" and "sid \<notin> stream_keys m"
  shows "quic_stream_on_data mem (stream_ops m ops) sid off d len buf
     = (-1, stream_ops m ops, None, [])"
proof -
  have "mgr_full (stream_ops m ops)" and "stream_keys (stream_ops m ops) = stream_keys m"
    using full_ops [OF assms(1), of ops] by simp_all
  then have "\<not> mgr_has_room (stream_ops m ops) sid" and "length (stream_ops m ops) = QUIC_STREAM_MAX_STREAMS"
    using assms(2) slot_find_None [of ss_in_use ss_stream_id sid "stream_ops m ops"]
    by (simp_all add: mgr_has_room_def mgr_full_def)
  then show ?thesis by (intro on_data_refuses)
qed

definition full_manager :: quic_stream_manager where
  "full_manager = map (\<lambda>k. claim_stream (word_of_nat k) () zero_stream) [0 ..< 16]"

theorem streams_exhausted_witness:
  "quic_stream_on_data True (stream_ops full_manager [Op_reset 3]) 99 0 (Some [1]) 1 (Some 4)
     = (-1, stream_ops full_manager [Op_reset 3], None, [])"
proof (rule streams_exhausted)
  show "mgr_full full_manager"
    by (simp add: mgr_full_def full_manager_def QUIC_STREAM_MAX_STREAMS_def slots_used_def
        claim_stream_def filter_map comp_def)
  show "(99 :: u32) \<notin> stream_keys full_manager"
    by (auto simp: used_keys_def full_manager_def claim_stream_def upt_conv_Cons)
qed

text \<open>
  A reset of a stream in use returns 0, puts the stream back to offset 0 with nothing
  buffered, keeps its slot and leaves the other streams alone; a reset of a stream that is not in
  use returns \<open>-1\<close> and changes nothing.
\<close>

theorem reset_restarts:
  assumes "mgr_ok m"
  shows "if sid \<in> stream_keys m
     then \<exists>m'. quic_stream_reset m sid = (0, m') \<and> mgr_ok m' \<and>
            mgr_stream m' sid = claim_stream sid () zero_stream \<and> stream_keys m' = stream_keys m \<and>
            (\<forall>sid'. sid' \<noteq> sid \<longrightarrow> mgr_stream m' sid' = mgr_stream m sid')
     else quic_stream_reset m sid = (-1, m)"
proof (cases "stream_find m sid")
  case None
  then have "sid \<notin> stream_keys m" by (simp add: slot_find_None)
  with None show ?thesis by (simp add: quic_stream_reset_def stream_searches)
next
  case (Some i)
  let ?st = "(m ! i)\<lparr>ss_segments := [], ss_next_offset := 0\<rparr>"
  note i = slot_find_SomeD [OF Some]
  have "stream_ok ?st" by (rule stream_ok_empty) simp
  then have "mgr_ok (m[i := ?st])" and "mgr_stream (m[i := ?st]) sid = ?st"
    and "stream_keys (m[i := ?st]) = stream_keys m"
    and "\<And>sid'. sid' \<noteq> sid \<Longrightarrow> mgr_stream (m[i := ?st]) sid' = mgr_stream m sid'"
    using mgr_update [OF assms Some, of ?st] i by simp_all
  moreover have "?st = claim_stream sid () zero_stream"
    using i by (cases "m ! i") (simp add: claim_stream_def zero_stream_def)
  moreover have "sid \<in> stream_keys m" using Some slot_find_None by (metis option.distinct(1))
  ultimately show ?thesis by (simp add: quic_stream_reset_def stream_searches Some)
qed

theorem reset_restarts_witness:
  "quic_stream_reset quic_stream_manager_init 4 = (-1, quic_stream_manager_init)"
proof -
  have "4 \<notin> stream_keys quic_stream_manager_init"
    by (auto simp: used_keys_def quic_stream_manager_init_def zero_stream_def)
  then show ?thesis using reset_restarts [OF mgr_ok_init, of 4] by simp
qed

end
