(* ===== verification/Quic_Engine.thy ===== *)
theory Quic_Engine
  imports Quic_Packet Quic_Stream
begin

text \<open>
  The QUIC engine of \<open>src/server/quic.c\<close>: a table of connections, a table of sent packets that
  wait for an acknowledgement, counters, and one operation per function. The engine pointer is
  the state passed and returned. What the engine does to its environment is the trace
  \<open>qe_out\<close>, in order: datagrams handed to \<open>sendto\<close> and calls of the three user callbacks.
  The environment is an argument: the result of each \<open>sendto\<close>, whether memory is found, what a
  fresh local array holds (\<open>world\<close>, indexed by the length of the trace so that no two calls are
  tied together) and the readings of \<open>time(NULL)\<close> in the order of the calls. A critical section
  of the mutex is one atomic step. Only the bytes below \<open>len\<close> of a pending buffer are kept.
\<close>

section \<open>Constants and types\<close>

definition QUIC_MAX_CONNECTIONS :: nat where "QUIC_MAX_CONNECTIONS = 32"
definition QUIC_CONNECTION_TIMEOUT :: int where "QUIC_CONNECTION_TIMEOUT = 30"
definition QUIC_MAX_PENDING :: nat where "QUIC_MAX_PENDING = 64"
definition QUIC_RETRANS_TIMEOUT :: int where "QUIC_RETRANS_TIMEOUT = 1"
definition QUIC_MAX_RETRIES :: int where "QUIC_MAX_RETRIES = 3"

datatype quic_connection_state = CONN_IDLE | CONN_CONNECTING | CONN_CONNECTED | CONN_CLOSED

text \<open>\<open>struct sockaddr_in\<close>; \<open>memcmp\<close> compares every field, the padding included.\<close>

record sockaddr_in =
  sin_family :: u16
  sin_port :: u16
  sin_addr :: u32
  sin_zero :: bytes

record quic_metrics =
  m_packets_received :: u64
  m_packets_sent :: u64
  m_connections_opened :: u64
  m_connections_closed :: u64
  m_connections_migrated :: u64

record quic_connection_entry =
  ce_connection_id :: u64
  ce_addr :: sockaddr_in
  ce_last_seen :: int
  ce_state :: quic_connection_state
  ce_in_use :: bool
  ce_stream_mgr :: quic_stream_manager

record quic_pending_entry =
  pe_in_use :: bool
  pe_connection_id :: u64
  pe_packet_number :: u32
  pe_len :: nat
  pe_buffer :: bytes
  pe_last_sent :: int
  pe_retries :: int

datatype engine_output =
    Out_send sockaddr_in bytes int
  | Out_state u64 quic_connection_state sockaddr_in
  | Out_stream u64 u32 u32 bytes
  | Out_packet quic_packet sockaddr_in

text \<open>A callback pointer is modelled by whether it is set; its user data is handed back unread.\<close>

record quic_engine =
  qe_sockfd :: int
  qe_port :: u16
  qe_running :: bool
  qe_handler :: bool
  qe_stream_handler :: bool
  qe_state_handler :: bool
  qe_recv_timeout_sec :: u32
  qe_metrics :: quic_metrics
  qe_connections :: "quic_connection_entry list"
  qe_pending :: "quic_pending_entry list"
  qe_out :: "engine_output list"

record world =
  w_sendto :: "nat \<Rightarrow> sockaddr_in \<Rightarrow> bytes \<Rightarrow> int"
  w_malloc :: "nat \<Rightarrow> bool"
  w_stack :: "nat \<Rightarrow> u8"

section \<open>Counters and output\<close>

definition emit :: "engine_output \<Rightarrow> quic_engine \<Rightarrow> quic_engine" where
  "emit out e = e\<lparr>qe_out := qe_out e @ [out]\<rparr>"

definition count_received :: "quic_engine \<Rightarrow> quic_engine" where
  "count_received e = e\<lparr>qe_metrics := (qe_metrics e)
     \<lparr>m_packets_received := m_packets_received (qe_metrics e) + 1\<rparr>\<rparr>"

definition count_sent :: "quic_engine \<Rightarrow> quic_engine" where
  "count_sent e = e\<lparr>qe_metrics := (qe_metrics e)
     \<lparr>m_packets_sent := m_packets_sent (qe_metrics e) + 1\<rparr>\<rparr>"

definition count_opened :: "quic_engine \<Rightarrow> quic_engine" where
  "count_opened e = e\<lparr>qe_metrics := (qe_metrics e)
     \<lparr>m_connections_opened := m_connections_opened (qe_metrics e) + 1\<rparr>\<rparr>"

definition count_closed :: "quic_engine \<Rightarrow> quic_engine" where
  "count_closed e = e\<lparr>qe_metrics := (qe_metrics e)
     \<lparr>m_connections_closed := m_connections_closed (qe_metrics e) + 1\<rparr>\<rparr>"

definition count_migrated :: "quic_engine \<Rightarrow> quic_engine" where
  "count_migrated e = e\<lparr>qe_metrics := (qe_metrics e)
     \<lparr>m_connections_migrated := m_connections_migrated (qe_metrics e) + 1\<rparr>\<rparr>"

lemmas counters = count_received_def count_sent_def count_opened_def count_closed_def
  count_migrated_def

text \<open>\<open>sendto\<close>: the datagram, its destination and the result go to the trace.\<close>

definition engine_sendto :: "world \<Rightarrow> quic_engine \<Rightarrow> sockaddr_in \<Rightarrow> bytes \<Rightarrow> int \<times> quic_engine" where
  "engine_sendto w e addr datagram =
     (let sent = w_sendto w (length (qe_out e)) addr datagram
      in (sent, emit (Out_send addr datagram sent) e))"

section \<open>The table of connections\<close>

definition update_entry ::
  "nat \<Rightarrow> (quic_connection_entry \<Rightarrow> quic_connection_entry) \<Rightarrow> quic_engine \<Rightarrow> quic_engine" where
  "update_entry i f e = e\<lparr>qe_connections := (qe_connections e)[i := f (qe_connections e ! i)]\<rparr>"

definition connection_is :: "u64 \<Rightarrow> quic_connection_entry \<Rightarrow> bool" where
  "connection_is cid c \<longleftrightarrow> ce_in_use c \<and> ce_connection_id c = cid"

definition quic_engine_find_entry_locked :: "quic_engine \<Rightarrow> u64 \<Rightarrow> nat option" where
  "quic_engine_find_entry_locked e cid = first_idx (connection_is cid) (qe_connections e)"

definition claim_connection ::
  "u64 \<Rightarrow> sockaddr_in \<times> int \<Rightarrow> quic_connection_entry \<Rightarrow> quic_connection_entry" where
  "claim_connection cid x c = c\<lparr>ce_in_use := True, ce_connection_id := cid, ce_addr := fst x,
     ce_last_seen := snd x, ce_state := CONN_CONNECTING, ce_stream_mgr := quic_stream_manager_init\<rparr>"

definition release_connection :: "quic_connection_entry \<Rightarrow> quic_connection_entry" where
  "release_connection c = c\<lparr>ce_state := CONN_CLOSED, ce_in_use := False,
     ce_stream_mgr := quic_stream_manager_destroy (ce_stream_mgr c)\<rparr>"

definition quic_engine_add_connection_locked ::
  "quic_engine \<Rightarrow> u64 \<Rightarrow> sockaddr_in \<Rightarrow> int \<Rightarrow> int \<times> quic_engine" where
  "quic_engine_add_connection_locked e cid addr now =
     (case first_idx (\<lambda>c. \<not> ce_in_use c) (qe_connections e) of
        Some i \<Rightarrow> (0, update_entry i (claim_connection cid (addr, now)) e)
      | None \<Rightarrow> (-1, e))"

section \<open>The table of pending packets\<close>

definition quic_engine_clear_pending_for_connection :: "quic_engine \<Rightarrow> u64 \<Rightarrow> quic_engine" where
  "quic_engine_clear_pending_for_connection e cid =
     e\<lparr>qe_pending := map (\<lambda>p. if pe_in_use p \<and> pe_connection_id p = cid
                              then p\<lparr>pe_in_use := False\<rparr> else p) (qe_pending e)\<rparr>"

definition claim_pending ::
  "u64 \<times> u32 \<Rightarrow> nat \<times> bytes \<times> int \<Rightarrow> quic_pending_entry \<Rightarrow> quic_pending_entry" where
  "claim_pending key x p =
     (let (len, buffer, now) = x;
          len' = (if QUIC_MAX_PACKET_SIZE < len then QUIC_MAX_PACKET_SIZE else len)
      in p\<lparr>pe_in_use := True, pe_connection_id := fst key, pe_packet_number := snd key,
           pe_len := len', pe_buffer := take len' buffer, pe_last_sent := now, pe_retries := 0\<rparr>)"

definition release_pending :: "quic_pending_entry \<Rightarrow> quic_pending_entry" where
  "release_pending p = p\<lparr>pe_in_use := False\<rparr>"

definition quic_engine_track_pending ::
  "quic_engine \<Rightarrow> quic_packet \<Rightarrow> bytes \<Rightarrow> nat \<Rightarrow> int \<Rightarrow> quic_engine" where
  "quic_engine_track_pending e packet buffer len now =
     (if len = 0 then e
      else if \<not> has_flag (pk_flags packet) QUIC_FLAG_DATA then e
      else
        (case first_idx (\<lambda>p. \<not> pe_in_use p) (qe_pending e) of
           Some i \<Rightarrow> e\<lparr>qe_pending := (qe_pending e)[i := claim_pending
                 (pk_connection_id packet, pk_packet_number packet) (len, buffer, now)
                 (qe_pending e ! i)]\<rparr>
         | None \<Rightarrow> e))"

definition quic_engine_ack_pending :: "quic_engine \<Rightarrow> u64 \<Rightarrow> u32 \<Rightarrow> quic_engine" where
  "quic_engine_ack_pending e cid pn =
     (case first_idx (\<lambda>p. pe_in_use p \<and> pe_connection_id p = cid \<and> pe_packet_number p = pn)
             (qe_pending e) of
        Some i \<Rightarrow> e\<lparr>qe_pending := (qe_pending e)[i := release_pending (qe_pending e ! i)]\<rparr>
      | None \<Rightarrow> e)"

text \<open>One iteration of the retransmission loop, at index \<open>i\<close>.\<close>

definition retransmit_one :: "world \<Rightarrow> int \<Rightarrow> nat \<Rightarrow> quic_engine \<Rightarrow> quic_engine" where
  "retransmit_one w now i e =
     (let p = qe_pending e ! i;
          store = (\<lambda>p e. e\<lparr>qe_pending := (qe_pending e)[i := p]\<rparr>)
      in if \<not> pe_in_use p then e
         else if now - pe_last_sent p < QUIC_RETRANS_TIMEOUT then e
         else
           (case first_idx (connection_is (pe_connection_id p)) (qe_connections e) of
              None \<Rightarrow> store (release_pending p) e
            | Some j \<Rightarrow>
                let (sent, e) = engine_sendto w e (ce_addr (qe_connections e ! j))
                                  (take (pe_len p) (pe_buffer p))
                in if sent = int (pe_len p) then
                     let p = p\<lparr>pe_last_sent := now, pe_retries := pe_retries p + 1\<rparr>;
                         e = count_sent e
                     in if QUIC_MAX_RETRIES \<le> pe_retries p then store (release_pending p) e
                        else store p e
                   else store (release_pending p) e))"

definition quic_engine_retransmit_pending :: "world \<Rightarrow> int \<Rightarrow> quic_engine \<Rightarrow> quic_engine" where
  "quic_engine_retransmit_pending w now e =
     fold (retransmit_one w now) [0 ..< QUIC_MAX_PENDING] e"

section \<open>Idle connections\<close>

definition cleanup_one :: "int \<Rightarrow> nat \<Rightarrow> quic_engine \<Rightarrow> quic_engine" where
  "cleanup_one now i e =
     (let c = qe_connections e ! i
      in if ce_in_use c \<and> QUIC_CONNECTION_TIMEOUT < now - ce_last_seen c then
           quic_engine_clear_pending_for_connection
             (count_closed (update_entry i release_connection e)) (ce_connection_id c)
         else e)"

definition quic_engine_cleanup_connections_locked :: "quic_engine \<Rightarrow> int \<Rightarrow> quic_engine" where
  "quic_engine_cleanup_connections_locked e now = fold (cleanup_one now) [0 ..< QUIC_MAX_CONNECTIONS] e"

section \<open>Sending\<close>

text \<open>The local array \<open>buffer\<close> of \<open>quic_engine_send\<close> before it is written.\<close>

definition stack_buffer :: "world \<Rightarrow> bytes" where
  "stack_buffer w = map (w_stack w) [0 ..< QUIC_MAX_PACKET_SIZE]"

definition quic_engine_send ::
  "world \<Rightarrow> int \<Rightarrow> quic_engine \<Rightarrow> quic_packet \<Rightarrow> sockaddr_in \<Rightarrow> int \<times> quic_engine" where
  "quic_engine_send w now e packet addr =
     (case quic_packet_serialize (Some packet) (Some (stack_buffer w)) of
        None \<Rightarrow> (-1, e)
      | Some (buffer, len) \<Rightarrow>
          let (sent, e) = engine_sendto w e addr (take len buffer)
          in if sent < 0 \<or> nat sent \<noteq> len then (-1, e)
             else (0, quic_engine_track_pending (count_sent e) packet buffer len now))"

definition handshake_packet :: "u64 \<Rightarrow> quic_packet" where
  "handshake_packet cid = \<lparr>pk_flags = QUIC_FLAG_HANDSHAKE OR QUIC_FLAG_ACK, pk_connection_id = cid,
     pk_packet_number = 1, pk_stream_id = 0, pk_offset = 0, pk_length = 0, pk_payload = None\<rparr>"

definition quic_engine_send_handshake ::
  "world \<Rightarrow> int \<Rightarrow> quic_engine \<Rightarrow> sockaddr_in \<Rightarrow> u64 \<Rightarrow> quic_engine" where
  "quic_engine_send_handshake w now e addr cid =
     snd (quic_engine_send w now e (handshake_packet cid) addr)"

definition close_packet :: "u64 \<Rightarrow> quic_packet" where
  "close_packet cid = \<lparr>pk_flags = QUIC_FLAG_CLOSE, pk_connection_id = cid,
     pk_packet_number = 0, pk_stream_id = 0, pk_offset = 0, pk_length = 0, pk_payload = None\<rparr>"

definition quic_engine_send_close ::
  "world \<Rightarrow> int \<Rightarrow> quic_engine \<Rightarrow> sockaddr_in \<Rightarrow> u64 \<Rightarrow> quic_engine" where
  "quic_engine_send_close w now e addr cid =
     snd (quic_engine_send w now e (close_packet cid) addr)"

definition quic_engine_emit_state ::
  "quic_engine \<Rightarrow> u64 \<Rightarrow> quic_connection_state \<Rightarrow> sockaddr_in \<Rightarrow> quic_engine" where
  "quic_engine_emit_state e cid st addr =
     (if qe_state_handler e then emit (Out_state cid st addr) e else e)"

definition quic_engine_emit_stream_data ::
  "quic_engine \<Rightarrow> u64 \<Rightarrow> u32 \<Rightarrow> u32 \<Rightarrow> bytes \<Rightarrow> quic_engine" where
  "quic_engine_emit_stream_data e cid sid off data =
     (if qe_stream_handler e then emit (Out_stream cid sid off data) e else e)"

section \<open>Processing a packet\<close>

text \<open>
  The part of \<open>quic_engine_process_packet\<close> after the entry has been found or created. The
  result is the return value, the engine and the state change to report with its address
  (\<open>*state_changed\<close> and \<open>*state_addr\<close> are always written together).
\<close>

definition process_entry ::
  "quic_engine \<Rightarrow> nat \<Rightarrow> quic_packet \<Rightarrow> sockaddr_in \<Rightarrow> bool
     \<Rightarrow> (quic_connection_state \<times> sockaddr_in) option
     \<Rightarrow> int \<times> quic_engine \<times> (quic_connection_state \<times> sockaddr_in) option" where
  "process_entry e i packet addr created notify =
     (let fl = pk_flags packet
      in if has_flag fl QUIC_FLAG_CLOSE then
           (0, count_closed (quic_engine_clear_pending_for_connection
                  (update_entry i release_connection e) (pk_connection_id packet)),
            Some (CONN_CLOSED, addr))
         else
           let promote = ce_state (qe_connections e ! i) = CONN_CONNECTING \<and>
                         has_flag fl QUIC_FLAG_HANDSHAKE;
               e = (if promote then update_entry i (\<lambda>c. c\<lparr>ce_state := CONN_CONNECTED\<rparr>) e else e);
               notify = (if promote then Some (CONN_CONNECTED, addr) else notify);
               should_deliver = (ce_state (qe_connections e ! i) = CONN_CONNECTED \<or>
                         has_flag fl (QUIC_FLAG_INITIAL OR QUIC_FLAG_HANDSHAKE));
               e = (if created then count_opened e else e)
           in (if should_deliver then 0 else -1, e, notify))"

text \<open>
  \<open>now\<close> is the reading of the clock on entry, \<open>t_add\<close> the one inside
  \<open>quic_engine_add_connection_locked\<close>. The third component is \<open>*handshake_needed\<close>.
\<close>

definition quic_engine_process_packet ::
  "quic_engine \<Rightarrow> quic_packet \<Rightarrow> sockaddr_in \<Rightarrow> int \<Rightarrow> int
     \<Rightarrow> int \<times> quic_engine \<times> bool \<times> (quic_connection_state \<times> sockaddr_in) option" where
  "quic_engine_process_packet e packet addr now t_add =
     (let e = quic_engine_cleanup_connections_locked e now;
          cid = pk_connection_id packet
      in case quic_engine_find_entry_locked e cid of
           None \<Rightarrow>
             if \<not> has_flag (pk_flags packet) QUIC_FLAG_INITIAL then (-1, e, False, None)
             else
               let (rc, e) = quic_engine_add_connection_locked e cid addr t_add
               in if rc \<noteq> 0 then (-1, e, False, None)
                  else
                    let (rc, e, notify) = process_entry e (the (quic_engine_find_entry_locked e cid))
                                            packet addr True (Some (CONN_CONNECTING, addr))
                    in (rc, e, True, notify)
         | Some i \<Rightarrow>
             let entry = qe_connections e ! i;
                 migrated = (ce_addr entry \<noteq> addr);
                 e = (if migrated
                      then count_migrated (update_entry i (\<lambda>c. c\<lparr>ce_addr := addr\<rparr>) e) else e);
                 notify = (if migrated then Some (ce_state entry, addr) else None);
                 e = update_entry i (\<lambda>c. c\<lparr>ce_last_seen := now\<rparr>) e;
                 (rc, e, notify) = process_entry e i packet addr False notify
             in (rc, e, False, notify))"

section \<open>The receive loop\<close>

datatype errno = EINTR | EAGAIN | E_OTHER

datatype recv_result = Recv_error errno | Recv_data bytes sockaddr_in

definition ack_packet :: "quic_packet \<Rightarrow> quic_packet" where
  "ack_packet packet = \<lparr>pk_flags = QUIC_FLAG_ACK, pk_connection_id = pk_connection_id packet,
     pk_packet_number = pk_packet_number packet, pk_stream_id = pk_stream_id packet,
     pk_offset = pk_offset packet, pk_length = 0, pk_payload = None\<rparr>"

text \<open>Reassembly and acknowledgement of a data packet.\<close>

definition handle_data ::
  "world \<Rightarrow> int \<Rightarrow> quic_engine \<Rightarrow> quic_packet \<Rightarrow> sockaddr_in \<Rightarrow> quic_engine" where
  "handle_data w now e packet addr =
     (let cid = pk_connection_id packet;
          e = (case quic_engine_find_entry_locked e cid of
                 None \<Rightarrow> e
               | Some i \<Rightarrow>
                   let (rc, mgr, out_offset, assembled) =
                         quic_stream_on_data (w_malloc w (length (qe_out e)))
                           (ce_stream_mgr (qe_connections e ! i)) (pk_stream_id packet)
                           (pk_offset packet) (pk_payload packet) (pk_length packet)
                           (Some QUIC_MAX_PAYLOAD);
                       e = update_entry i (\<lambda>c. c\<lparr>ce_stream_mgr := mgr\<rparr>) e
                   in if rc = 0 \<and> 0 < length assembled
                      then quic_engine_emit_stream_data e cid (pk_stream_id packet)
                             (case out_offset of None \<Rightarrow> 0 | Some off \<Rightarrow> off) assembled
                      else e)
      in snd (quic_engine_send w now e (ack_packet packet) addr))"

text \<open>
  One iteration of \<open>quic_engine_loop\<close> on the result of \<open>recvfrom\<close> (the kernel cuts a datagram to
  the size of the buffer). \<open>clk\<close> gives the readings of the clock in order. The first component
  says whether the loop goes on.
\<close>

definition handle_packet ::
  "world \<Rightarrow> (nat \<Rightarrow> int) \<Rightarrow> quic_engine \<Rightarrow> quic_packet \<Rightarrow> sockaddr_in \<Rightarrow> quic_engine" where
  "handle_packet w clk e packet addr =
     (let fl = pk_flags packet; cid = pk_connection_id packet;
          e = (if has_flag fl QUIC_FLAG_ACK
               then quic_engine_ack_pending e cid (pk_packet_number packet) else e);
          (rc, e, handshake_needed, notify) = quic_engine_process_packet e packet addr (clk 0) (clk 1)
      in if rc \<noteq> 0 then e
         else
           let e = (case notify of
                      Some (st, a) \<Rightarrow> if st \<noteq> CONN_IDLE then quic_engine_emit_state e cid st a else e
                    | None \<Rightarrow> e);
               e = (if handshake_needed then quic_engine_send_handshake w (clk 2) e addr cid else e);
               e = (if has_flag fl QUIC_FLAG_DATA \<and> qe_stream_handler e
                    then handle_data w (clk 3) e packet addr else e)
           in if qe_handler e then emit (Out_packet packet addr) e else e)"

definition quic_engine_loop_step ::
  "world \<Rightarrow> (nat \<Rightarrow> int) \<Rightarrow> quic_engine \<Rightarrow> recv_result \<Rightarrow> bool \<times> quic_engine" where
  "quic_engine_loop_step w clk e received =
     (case received of
        Recv_error err \<Rightarrow>
          if \<not> qe_running e then (False, e)
          else
            (case err of
               EINTR \<Rightarrow> (True, e)
             | EAGAIN \<Rightarrow> (True, quic_engine_retransmit_pending w (clk 1)
                                 (quic_engine_cleanup_connections_locked e (clk 0)))
             | E_OTHER \<Rightarrow> (True, e))
      | Recv_data datagram addr \<Rightarrow>
          let e = count_received e
          in (case quic_packet_deserialize (Some (take QUIC_MAX_PACKET_SIZE datagram)) of
                None \<Rightarrow> (True, e)
              | Some packet \<Rightarrow> (True, handle_packet w clk e packet addr)))"

section \<open>The interface of the engine\<close>

definition quic_engine_get_connection ::
  "quic_engine \<Rightarrow> u64 \<Rightarrow> int \<Rightarrow> sockaddr_in option \<times> quic_engine" where
  "quic_engine_get_connection e cid now =
     (let e = quic_engine_cleanup_connections_locked e now
      in case quic_engine_find_entry_locked e cid of
           Some i \<Rightarrow>
             if ce_state (qe_connections e ! i) = CONN_CONNECTED
             then (Some (ce_addr (qe_connections e ! i)),
                   update_entry i (\<lambda>c. c\<lparr>ce_last_seen := now\<rparr>) e)
             else (None, e)
         | None \<Rightarrow> (None, e))"

definition quic_engine_send_to_connection ::
  "world \<Rightarrow> (nat \<Rightarrow> int) \<Rightarrow> quic_engine \<Rightarrow> quic_packet \<Rightarrow> int \<times> quic_engine" where
  "quic_engine_send_to_connection w clk e packet =
     (let (found, e) = quic_engine_get_connection e (pk_connection_id packet) (clk 0)
      in case found of
           None \<Rightarrow> (-1, e)
         | Some addr \<Rightarrow> quic_engine_send w (clk 1) e packet addr)"

definition quic_engine_close_connection ::
  "world \<Rightarrow> int \<Rightarrow> quic_engine \<Rightarrow> u64 \<Rightarrow> int \<times> quic_engine" where
  "quic_engine_close_connection w now e cid =
     (case quic_engine_find_entry_locked e cid of
        Some i \<Rightarrow>
          let entry = qe_connections e ! i
          in if ce_state entry \<noteq> CONN_CLOSED then
               let addr = ce_addr entry;
                   e = quic_engine_clear_pending_for_connection
                         (count_closed (update_entry i release_connection e)) cid;
                   e = quic_engine_send_close w now e addr cid
               in (0, quic_engine_emit_state e cid CONN_CLOSED addr)
             else (-1, e)
      | None \<Rightarrow> (-1, e))"

definition quic_engine_get_connection_state ::
  "quic_engine \<Rightarrow> u64 \<Rightarrow> quic_connection_state option" where
  "quic_engine_get_connection_state e cid =
     (case quic_engine_find_entry_locked e cid of
        Some i \<Rightarrow> Some (ce_state (qe_connections e ! i))
      | None \<Rightarrow> None)"

definition quic_engine_set_state_handler :: "quic_engine \<Rightarrow> bool \<Rightarrow> quic_engine" where
  "quic_engine_set_state_handler e handler = e\<lparr>qe_state_handler := handler\<rparr>"

definition quic_engine_set_stream_data_handler :: "quic_engine \<Rightarrow> bool \<Rightarrow> quic_engine" where
  "quic_engine_set_stream_data_handler e handler = e\<lparr>qe_stream_handler := handler\<rparr>"

definition quic_engine_get_metrics :: "quic_engine \<Rightarrow> quic_metrics" where
  "quic_engine_get_metrics e = qe_metrics e"

definition quic_engine_set_recv_timeout :: "quic_engine \<Rightarrow> u32 \<Rightarrow> quic_engine" where
  "quic_engine_set_recv_timeout e seconds = e\<lparr>qe_recv_timeout_sec := seconds\<rparr>"

definition quic_engine_stop :: "quic_engine \<Rightarrow> quic_engine" where
  "quic_engine_stop e =
     (let e = e\<lparr>qe_running := False\<rparr>
      in if 0 \<le> qe_sockfd e then e\<lparr>qe_sockfd := -1\<rparr> else e)"

section \<open>Start and end of life\<close>

definition zero_connection :: quic_connection_entry where
  "zero_connection = \<lparr>ce_connection_id = 0,
     ce_addr = \<lparr>sin_family = 0, sin_port = 0, sin_addr = 0, sin_zero = replicate 8 0\<rparr>,
     ce_last_seen = 0, ce_state = CONN_IDLE, ce_in_use = False,
     ce_stream_mgr = quic_stream_manager_init\<rparr>"

definition zero_pending :: quic_pending_entry where
  "zero_pending = \<lparr>pe_in_use = False, pe_connection_id = 0, pe_packet_number = 0, pe_len = 0,
     pe_buffer = [], pe_last_sent = 0, pe_retries = 0\<rparr>"

definition zero_metrics :: quic_metrics where
  "zero_metrics = \<lparr>m_packets_received = 0, m_packets_sent = 0, m_connections_opened = 0,
     m_connections_closed = 0, m_connections_migrated = 0\<rparr>"

text \<open>\<open>sock\<close> and \<open>bound\<close> are what \<open>socket\<close> and \<open>bind\<close> return.\<close>

definition quic_engine_init :: "int \<Rightarrow> int \<Rightarrow> u16 \<Rightarrow> bool \<Rightarrow> int \<times> quic_engine" where
  "quic_engine_init sock bound port handler =
     (let e = \<lparr>qe_sockfd = -1, qe_port = port, qe_running = False, qe_handler = handler,
               qe_stream_handler = False, qe_state_handler = False, qe_recv_timeout_sec = 1,
               qe_metrics = zero_metrics,
               qe_connections = replicate QUIC_MAX_CONNECTIONS zero_connection,
               qe_pending = replicate QUIC_MAX_PENDING zero_pending, qe_out = []\<rparr>;
          e = e\<lparr>qe_sockfd := sock\<rparr>
      in if qe_sockfd e < 0 then (-1, e)
         else if bound < 0 then (-1, e\<lparr>qe_sockfd := -1\<rparr>)
         else (0, e\<lparr>qe_running := True\<rparr>))"

definition quic_engine_start :: "int \<Rightarrow> quic_engine \<Rightarrow> int" where
  "quic_engine_start pthread_rc e =
     (if qe_sockfd e < 0 then -1 else if pthread_rc \<noteq> 0 then -1 else 0)"

definition quic_engine_destroy :: "quic_engine \<Rightarrow> quic_engine" where
  "quic_engine_destroy e =
     (let e = (if 0 \<le> qe_sockfd e then e\<lparr>qe_sockfd := -1\<rparr> else e)
      in e\<lparr>qe_connections := replicate QUIC_MAX_CONNECTIONS zero_connection\<rparr>)"

section \<open>The two tables are slot tables\<close>

interpretation connections: slot_table ce_in_use ce_connection_id claim_connection release_connection
  by unfold_locales (simp_all add: claim_connection_def release_connection_def)

interpretation pendings: slot_table pe_in_use "\<lambda>p. (pe_connection_id p, pe_packet_number p)"
  claim_pending release_pending
  by unfold_locales (simp_all add: claim_pending_def release_pending_def Let_def split: prod.splits)

abbreviation conn_find :: "quic_connection_entry list \<Rightarrow> u64 \<Rightarrow> nat option" where
  "conn_find t cid \<equiv> slot_find ce_in_use ce_connection_id cid t"

lemma first_idx_connection: "first_idx (connection_is cid) t = conn_find t cid"
  by (simp add: slot_find_def connection_is_def [abs_def])

lemma find_entry_eq: "quic_engine_find_entry_locked e cid = conn_find (qe_connections e) cid"
  by (simp add: quic_engine_find_entry_locked_def first_idx_connection)

lemma first_idx_free: "first_idx (\<lambda>c. \<not> used c) t = slot_free used t"
  by (simp add: slot_free_def)

lemma first_idx_pending:
  "first_idx (\<lambda>p. pe_in_use p \<and> pe_connection_id p = cid \<and> pe_packet_number p = pn) t =
     slot_find pe_in_use (\<lambda>p. (pe_connection_id p, pe_packet_number p)) (cid, pn) t"
  by (simp add: slot_find_def)

lemmas engine_searches = find_entry_eq first_idx_connection first_idx_free first_idx_pending

section \<open>What each helper leaves alone\<close>

lemma counter_fields [simp]:
  "qe_connections (count_received e) = qe_connections e" "qe_pending (count_received e) = qe_pending e"
  "qe_out (count_received e) = qe_out e" "qe_running (count_received e) = qe_running e"
  "qe_handler (count_received e) = qe_handler e" "qe_stream_handler (count_received e) = qe_stream_handler e"
  "qe_state_handler (count_received e) = qe_state_handler e"
  "qe_connections (count_sent e) = qe_connections e" "qe_pending (count_sent e) = qe_pending e"
  "qe_out (count_sent e) = qe_out e" "qe_running (count_sent e) = qe_running e"
  "qe_handler (count_sent e) = qe_handler e" "qe_stream_handler (count_sent e) = qe_stream_handler e"
  "qe_state_handler (count_sent e) = qe_state_handler e"
  "qe_connections (count_opened e) = qe_connections e" "qe_pending (count_opened e) = qe_pending e"
  "qe_out (count_opened e) = qe_out e" "qe_running (count_opened e) = qe_running e"
  "qe_handler (count_opened e) = qe_handler e" "qe_stream_handler (count_opened e) = qe_stream_handler e"
  "qe_state_handler (count_opened e) = qe_state_handler e"
  "qe_connections (count_closed e) = qe_connections e" "qe_pending (count_closed e) = qe_pending e"
  "qe_out (count_closed e) = qe_out e" "qe_running (count_closed e) = qe_running e"
  "qe_handler (count_closed e) = qe_handler e" "qe_stream_handler (count_closed e) = qe_stream_handler e"
  "qe_state_handler (count_closed e) = qe_state_handler e"
  "qe_connections (count_migrated e) = qe_connections e" "qe_pending (count_migrated e) = qe_pending e"
  "qe_out (count_migrated e) = qe_out e" "qe_running (count_migrated e) = qe_running e"
  "qe_handler (count_migrated e) = qe_handler e" "qe_stream_handler (count_migrated e) = qe_stream_handler e"
  "qe_state_handler (count_migrated e) = qe_state_handler e"
  by (simp_all add: counters)

lemma emit_fields [simp]:
  "qe_connections (emit out e) = qe_connections e" "qe_pending (emit out e) = qe_pending e"
  "qe_metrics (emit out e) = qe_metrics e" "qe_running (emit out e) = qe_running e"
  "qe_handler (emit out e) = qe_handler e" "qe_stream_handler (emit out e) = qe_stream_handler e"
  "qe_state_handler (emit out e) = qe_state_handler e" "qe_out (emit out e) = qe_out e @ [out]"
  by (simp_all add: emit_def)

lemma update_entry_fields [simp]:
  "qe_connections (update_entry i f e) = (qe_connections e)[i := f (qe_connections e ! i)]"
  "qe_pending (update_entry i f e) = qe_pending e" "qe_metrics (update_entry i f e) = qe_metrics e"
  "qe_running (update_entry i f e) = qe_running e" "qe_handler (update_entry i f e) = qe_handler e"
  "qe_stream_handler (update_entry i f e) = qe_stream_handler e"
  "qe_state_handler (update_entry i f e) = qe_state_handler e" "qe_out (update_entry i f e) = qe_out e"
  by (simp_all add: update_entry_def)

lemma clear_pending_fields [simp]:
  "qe_connections (quic_engine_clear_pending_for_connection e cid) = qe_connections e"
  "qe_metrics (quic_engine_clear_pending_for_connection e cid) = qe_metrics e"
  "qe_running (quic_engine_clear_pending_for_connection e cid) = qe_running e"
  "qe_handler (quic_engine_clear_pending_for_connection e cid) = qe_handler e"
  "qe_stream_handler (quic_engine_clear_pending_for_connection e cid) = qe_stream_handler e"
  "qe_state_handler (quic_engine_clear_pending_for_connection e cid) = qe_state_handler e"
  "qe_out (quic_engine_clear_pending_for_connection e cid) = qe_out e"
  by (simp_all add: quic_engine_clear_pending_for_connection_def)

lemma track_pending_fields [simp]:
  "qe_connections (quic_engine_track_pending e pk b n now) = qe_connections e"
  "qe_metrics (quic_engine_track_pending e pk b n now) = qe_metrics e"
  "qe_running (quic_engine_track_pending e pk b n now) = qe_running e"
  "qe_handler (quic_engine_track_pending e pk b n now) = qe_handler e"
  "qe_stream_handler (quic_engine_track_pending e pk b n now) = qe_stream_handler e"
  "qe_state_handler (quic_engine_track_pending e pk b n now) = qe_state_handler e"
  "qe_out (quic_engine_track_pending e pk b n now) = qe_out e"
  by (simp_all add: quic_engine_track_pending_def split: option.splits)

lemma ack_pending_fields [simp]:
  "qe_connections (quic_engine_ack_pending e cid pn) = qe_connections e"
  "qe_metrics (quic_engine_ack_pending e cid pn) = qe_metrics e"
  "qe_running (quic_engine_ack_pending e cid pn) = qe_running e"
  "qe_handler (quic_engine_ack_pending e cid pn) = qe_handler e"
  "qe_stream_handler (quic_engine_ack_pending e cid pn) = qe_stream_handler e"
  "qe_state_handler (quic_engine_ack_pending e cid pn) = qe_state_handler e"
  "qe_out (quic_engine_ack_pending e cid pn) = qe_out e"
  by (simp_all add: quic_engine_ack_pending_def split: option.splits)

end
