(* ===== verification/Engine_Invariant.thy ===== *)
theory Engine_Invariant
  imports Quic_Engine
begin

text \<open>
  What the operations of the engine do to its tables, the well-formedness invariant of the
  engine, the transition relation of everything the program can do with a started engine, and
  the proof that every reachable engine is well formed.
\<close>

section \<open>Sending leaves the connections alone\<close>

lemma send_fields [simp]:
  "qe_connections (snd (quic_engine_send w now e pk addr)) = qe_connections e"
  "qe_running (snd (quic_engine_send w now e pk addr)) = qe_running e"
  "qe_handler (snd (quic_engine_send w now e pk addr)) = qe_handler e"
  "qe_stream_handler (snd (quic_engine_send w now e pk addr)) = qe_stream_handler e"
  "qe_state_handler (snd (quic_engine_send w now e pk addr)) = qe_state_handler e"
  by (simp_all add: quic_engine_send_def engine_sendto_def Let_def split: option.splits prod.splits)

lemma send_handshake_fields [simp]:
  "qe_connections (quic_engine_send_handshake w now e addr cid) = qe_connections e"
  "qe_running (quic_engine_send_handshake w now e addr cid) = qe_running e"
  "qe_handler (quic_engine_send_handshake w now e addr cid) = qe_handler e"
  "qe_stream_handler (quic_engine_send_handshake w now e addr cid) = qe_stream_handler e"
  "qe_state_handler (quic_engine_send_handshake w now e addr cid) = qe_state_handler e"
  by (simp_all add: quic_engine_send_handshake_def)

lemma emit_state_fields [simp]:
  "qe_connections (quic_engine_emit_state e cid st addr) = qe_connections e"
  "qe_pending (quic_engine_emit_state e cid st addr) = qe_pending e"
  "qe_handler (quic_engine_emit_state e cid st addr) = qe_handler e"
  "qe_stream_handler (quic_engine_emit_state e cid st addr) = qe_stream_handler e"
  "qe_state_handler (quic_engine_emit_state e cid st addr) = qe_state_handler e"
  by (simp_all add: quic_engine_emit_state_def)

lemma emit_stream_fields [simp]:
  "qe_connections (quic_engine_emit_stream_data e cid sid off d) = qe_connections e"
  "qe_pending (quic_engine_emit_stream_data e cid sid off d) = qe_pending e"
  "qe_handler (quic_engine_emit_stream_data e cid sid off d) = qe_handler e"
  "qe_stream_handler (quic_engine_emit_stream_data e cid sid off d) = qe_stream_handler e"
  by (simp_all add: quic_engine_emit_stream_data_def)

section \<open>Cleaning up idle connections, in closed form\<close>

definition expired :: "int \<Rightarrow> quic_connection_entry \<Rightarrow> bool" where
  "expired now c \<longleftrightarrow> ce_in_use c \<and> QUIC_CONNECTION_TIMEOUT < now - ce_last_seen c"

definition expire :: "int \<Rightarrow> quic_connection_entry \<Rightarrow> quic_connection_entry" where
  "expire now c = (if expired now c then release_connection c else c)"

definition drop_pending_of :: "u64 set \<Rightarrow> quic_pending_entry \<Rightarrow> quic_pending_entry" where
  "drop_pending_of ids p = (if pe_in_use p \<and> pe_connection_id p \<in> ids then release_pending p else p)"

definition expired_ids :: "int \<Rightarrow> quic_connection_entry list \<Rightarrow> u64 set" where
  "expired_ids now t = ce_connection_id ` {c \<in> set t. expired now c}"

lemma clear_pending_eq:
  "qe_pending (quic_engine_clear_pending_for_connection e cid) = map (drop_pending_of {cid}) (qe_pending e)"
  by (simp add: quic_engine_clear_pending_for_connection_def drop_pending_of_def release_pending_def)

lemma drop_pending_twice: "drop_pending_of A (drop_pending_of B p) = drop_pending_of (A \<union> B) p"
  by (auto simp: drop_pending_of_def release_pending_def)

lemma drop_pending_none: "drop_pending_of {} = id"
  by (rule ext) (simp add: drop_pending_of_def)

lemma cleanup_one_keep: "\<not> expired now (qe_connections e ! i) \<Longrightarrow> cleanup_one now i e = e"
  by (auto simp: cleanup_one_def expired_def Let_def)

lemma cleanup_one_expire:
  "expired now (qe_connections e ! i) \<Longrightarrow> cleanup_one now i e =
     quic_engine_clear_pending_for_connection (count_closed (update_entry i release_connection e))
       (ce_connection_id (qe_connections e ! i))"
  by (simp add: cleanup_one_def expired_def Let_def)

lemma cleanup_one_step:
  assumes "i < length (qe_connections e)"
  shows "qe_connections (cleanup_one now i e) =
      (qe_connections e)[i := expire now (qe_connections e ! i)]"
    and "qe_pending (cleanup_one now i e) = map (drop_pending_of
      (expired_ids now [qe_connections e ! i])) (qe_pending e)"
    and "qe_metrics (cleanup_one now i e) = (qe_metrics e)\<lparr>m_connections_closed :=
      m_connections_closed (qe_metrics e) + of_nat (length (filter (expired now) [qe_connections e ! i]))\<rparr>"
    and "qe_out (cleanup_one now i e) = qe_out e"
    and "qe_running (cleanup_one now i e) = qe_running e"
    and "qe_handler (cleanup_one now i e) = qe_handler e"
    and "qe_stream_handler (cleanup_one now i e) = qe_stream_handler e"
    and "qe_state_handler (cleanup_one now i e) = qe_state_handler e"
proof -
  show "qe_connections (cleanup_one now i e) =
      (qe_connections e)[i := expire now (qe_connections e ! i)]"
    by (cases "expired now (qe_connections e ! i)")
      (simp_all add: cleanup_one_keep cleanup_one_expire expire_def)
  show "qe_pending (cleanup_one now i e) = map (drop_pending_of
      (expired_ids now [qe_connections e ! i])) (qe_pending e)"
    by (cases "expired now (qe_connections e ! i)")
      (simp_all add: cleanup_one_keep cleanup_one_expire clear_pending_eq expired_ids_def
        Collect_conv_if drop_pending_none)
  show "qe_metrics (cleanup_one now i e) = (qe_metrics e)\<lparr>m_connections_closed :=
      m_connections_closed (qe_metrics e) + of_nat (length (filter (expired now) [qe_connections e ! i]))\<rparr>"
    by (cases "expired now (qe_connections e ! i)")
      (simp_all add: cleanup_one_keep cleanup_one_expire count_closed_def)
  show "qe_out (cleanup_one now i e) = qe_out e" "qe_running (cleanup_one now i e) = qe_running e"
    "qe_handler (cleanup_one now i e) = qe_handler e"
    "qe_stream_handler (cleanup_one now i e) = qe_stream_handler e"
    "qe_state_handler (cleanup_one now i e) = qe_state_handler e"
    by (cases "expired now (qe_connections e ! i)";
        simp add: cleanup_one_keep cleanup_one_expire)+
qed

lemma cleanup_prefix:
  fixes now :: int
  assumes "n \<le> length (qe_connections e)"
  defines "e' \<equiv> fold (cleanup_one now) [0 ..< n] e"
  shows "qe_connections e' = map (expire now) (take n (qe_connections e)) @ drop n (qe_connections e)
      \<and> qe_pending e' = map (drop_pending_of (expired_ids now (take n (qe_connections e)))) (qe_pending e)
      \<and> qe_metrics e' = (qe_metrics e)\<lparr>m_connections_closed := m_connections_closed (qe_metrics e)
          + of_nat (length (filter (expired now) (take n (qe_connections e))))\<rparr>
      \<and> qe_out e' = qe_out e \<and> qe_running e' = qe_running e \<and> qe_handler e' = qe_handler e
      \<and> qe_stream_handler e' = qe_stream_handler e \<and> qe_state_handler e' = qe_state_handler e"
  using assms(1) unfolding e'_def
proof (induction n)
  case 0
  then show ?case by (simp add: expired_ids_def drop_pending_none)
next
  case (Suc n)
  let ?t = "qe_connections e" and ?m = "fold (cleanup_one now) [0 ..< n] e"
  from Suc.prems have n: "n < length ?t" by simp
  with Suc.IH have IH: "qe_connections ?m = map (expire now) (take n ?t) @ drop n ?t" by simp
  have len: "n < length (qe_connections ?m)" using n IH by simp
  have nth: "qe_connections ?m ! n = ?t ! n" using n IH by (simp add: nth_append)
  have upd: "(map (expire now) (take n ?t) @ drop n ?t)[n := expire now (?t ! n)] =
      map (expire now) (take (Suc n) ?t) @ drop (Suc n) ?t"
    using n by (simp add: take_Suc_conv_app_nth Cons_nth_drop_Suc [symmetric] list_update_append)
  have ids: "expired_ids now [?t ! n] \<union> expired_ids now (take n ?t) = expired_ids now (take (Suc n) ?t)"
    using n by (auto simp: expired_ids_def take_Suc_conv_app_nth)
  show ?case
    using Suc.IH n upd ids
    by (simp add: cleanup_one_step [OF len, unfolded nth] comp_def drop_pending_twice
        take_Suc_conv_app_nth [of n ?t])
qed

text \<open>The whole pass: it releases exactly the connections idle for more than the timeout.\<close>

lemma cleanup_fields:
  fixes now :: int
  assumes "length (qe_connections e) = QUIC_MAX_CONNECTIONS"
  defines "e' \<equiv> quic_engine_cleanup_connections_locked e now"
  shows cleanup_connections: "qe_connections e' = map (expire now) (qe_connections e)"
    and cleanup_pending: "qe_pending e' =
      map (drop_pending_of (expired_ids now (qe_connections e))) (qe_pending e)"
    and cleanup_metrics: "qe_metrics e' = (qe_metrics e)\<lparr>m_connections_closed :=
      m_connections_closed (qe_metrics e) + of_nat (length (filter (expired now) (qe_connections e)))\<rparr>"
    and cleanup_out: "qe_out e' = qe_out e"
    and cleanup_running: "qe_running e' = qe_running e"
    and cleanup_handler: "qe_handler e' = qe_handler e"
    and cleanup_stream_handler: "qe_stream_handler e' = qe_stream_handler e"
    and cleanup_state_handler: "qe_state_handler e' = qe_state_handler e"
  using cleanup_prefix [of QUIC_MAX_CONNECTIONS e now] assms(1)
  unfolding e'_def quic_engine_cleanup_connections_locked_def by simp_all

section \<open>The invariant\<close>

text \<open>
  A slot is in use exactly when its connection is being set up or established; its stream
  table keeps its shape. A pending packet holds its whole datagram and has retries left.
\<close>

definition conn_ok :: "quic_connection_entry \<Rightarrow> bool" where
  "conn_ok c \<longleftrightarrow> mgr_table (ce_stream_mgr c) \<and>
     (ce_in_use c \<longleftrightarrow> ce_state c = CONN_CONNECTING \<or> ce_state c = CONN_CONNECTED)"

definition conns_ok :: "quic_connection_entry list \<Rightarrow> bool" where
  "conns_ok t \<longleftrightarrow> length t = QUIC_MAX_CONNECTIONS \<and> slots_unique ce_in_use ce_connection_id t \<and>
     (\<forall>c \<in> set t. conn_ok c)"

definition pend_ok :: "quic_pending_entry \<Rightarrow> bool" where
  "pend_ok p \<longleftrightarrow> (pe_in_use p \<longrightarrow> 0 \<le> pe_retries p \<and> pe_retries p < QUIC_MAX_RETRIES \<and>
     pe_len p = length (pe_buffer p) \<and> 0 < pe_len p \<and> pe_len p \<le> QUIC_MAX_PACKET_SIZE)"

definition pends_ok :: "quic_pending_entry list \<Rightarrow> bool" where
  "pends_ok t \<longleftrightarrow> length t = QUIC_MAX_PENDING \<and> (\<forall>p \<in> set t. pend_ok p)"

definition engine_ok :: "quic_engine \<Rightarrow> bool" where
  "engine_ok e \<longleftrightarrow> conns_ok (qe_connections e) \<and> pends_ok (qe_pending e)"

lemma conn_ok_claim: "conn_ok (claim_connection cid x c)"
  by (simp add: conn_ok_def claim_connection_def mgr_table_init)

lemma conn_ok_release: "conn_ok c \<Longrightarrow> conn_ok (release_connection c)"
  by (simp add: conn_ok_def release_connection_def mgr_table_destroy)

lemma pend_ok_free: "\<not> pe_in_use p \<Longrightarrow> pend_ok p"
  by (simp add: pend_ok_def)

lemma pend_ok_release: "pend_ok (release_pending p)"
  by (simp add: pend_ok_def release_pending_def)

lemma pend_ok_claim:
  assumes "0 < n" and "n \<le> length buffer" and "length buffer \<le> QUIC_MAX_PACKET_SIZE"
  shows "pend_ok (claim_pending key (n, buffer, now) p)"
  using assms by (simp add: pend_ok_def claim_pending_def Let_def QUIC_MAX_RETRIES_def)

lemma conns_ok_D:
  assumes "conns_ok t"
  shows "length t = QUIC_MAX_CONNECTIONS" and "slots_unique ce_in_use ce_connection_id t"
    and "i < length t \<Longrightarrow> conn_ok (t ! i)"
  using assms by (auto simp: conns_ok_def)

lemma conns_ok_update:
  assumes "conns_ok t" and "i < length t" and "ce_in_use c = ce_in_use (t ! i)"
    and "ce_connection_id c = ce_connection_id (t ! i)" and "conn_ok c"
  shows "conns_ok (t[i := c])"
  using assms slot_update_same(2) [of i t ce_in_use c ce_connection_id] list_all_update [of t conn_ok c i]
  by (auto simp: conns_ok_def)

lemma conns_ok_release:
  assumes "conns_ok t" and "i < length t"
  shows "conns_ok (t[i := release_connection (t ! i)])"
  using assms connections.release_unique [of i t]
    list_all_update [of t conn_ok "release_connection (t ! i)" i]
  by (simp add: conns_ok_def conn_ok_release)

lemma conns_ok_claim:
  assumes "conns_ok t" and "slot_free ce_in_use t = Some i" and "conn_find t cid = None"
  shows "conns_ok (t[i := claim_connection cid x (t ! i)])"
  using assms connections.claim_unique [of t i cid x]
    list_all_update [of t conn_ok "claim_connection cid x (t ! i)" i]
  by (simp add: conns_ok_def conn_ok_claim slot_find_None)

lemma expire_cases:
  "ce_in_use (expire now c) \<longleftrightarrow> ce_in_use c \<and> \<not> expired now c"
  "ce_connection_id (expire now c) = ce_connection_id c"
  "conn_ok c \<Longrightarrow> conn_ok (expire now c)"
  using conn_ok_release [of c] by (auto simp: expire_def release_connection_def)

lemma conns_ok_expire: "conns_ok t \<Longrightarrow> conns_ok (map (expire now) t)"
  by (auto simp: conns_ok_def expire_cases intro: slots_unique_map)

lemma pends_ok_map: "pends_ok t \<Longrightarrow> pends_ok (map (drop_pending_of ids) t)"
  by (auto simp: pends_ok_def drop_pending_of_def pend_ok_release)

lemma pends_ok_update: "pends_ok t \<Longrightarrow> pend_ok p \<Longrightarrow> pends_ok (t[i := p])"
  using list_all_update [of t pend_ok p i] by (auto simp: pends_ok_def)

section \<open>Every operation keeps the invariant\<close>

lemma engine_ok_init:
  "engine_ok (snd (quic_engine_init sock bound port h))"
  by (simp add: quic_engine_init_def Let_def engine_ok_def conns_ok_def pends_ok_def zero_connection_def
      zero_pending_def conn_ok_def pend_ok_def mgr_table_init slots_unique_def)

lemma engine_ok_emit [simp]: "engine_ok (emit out e) = engine_ok e"
  by (simp add: engine_ok_def)

lemma engine_ok_count [simp]:
  "engine_ok (count_received e) = engine_ok e" "engine_ok (count_sent e) = engine_ok e"
  "engine_ok (count_opened e) = engine_ok e" "engine_ok (count_closed e) = engine_ok e"
  "engine_ok (count_migrated e) = engine_ok e"
  by (simp_all add: engine_ok_def)

lemma engine_ok_cleanup: "engine_ok e \<Longrightarrow> engine_ok (quic_engine_cleanup_connections_locked e now)"
  by (simp add: engine_ok_def cleanup_connections cleanup_pending conns_ok_D(1) conns_ok_expire
      pends_ok_map)

lemma engine_ok_clear_pending:
  "engine_ok e \<Longrightarrow> engine_ok (quic_engine_clear_pending_for_connection e cid)"
  by (simp add: engine_ok_def clear_pending_eq pends_ok_map)

lemma engine_ok_update_entry:
  assumes "engine_ok e" and "i < length (qe_connections e)"
    and "\<And>c. conn_ok c \<Longrightarrow> ce_in_use (f c) = ce_in_use c \<and> ce_connection_id (f c) = ce_connection_id c \<and>
           conn_ok (f c) \<or> f c = release_connection c"
  shows "engine_ok (update_entry i f e)"
proof -
  let ?c = "qe_connections e ! i"
  have ok: "conns_ok (qe_connections e)" using assms(1) by (simp add: engine_ok_def)
  have "conns_ok ((qe_connections e)[i := f ?c])"
    using assms(3) [OF conns_ok_D(3) [OF ok assms(2)]]
      conns_ok_update [OF ok assms(2), of "f ?c"] conns_ok_release [OF ok assms(2)] by auto
  with assms(1) show ?thesis by (simp add: engine_ok_def)
qed

lemma engine_ok_ack: "engine_ok e \<Longrightarrow> engine_ok (quic_engine_ack_pending e cid pn)"
  by (auto simp: engine_ok_def quic_engine_ack_pending_def pends_ok_update pend_ok_release
      split: option.splits)

lemma engine_ok_track:
  assumes "engine_ok e" and "n \<le> length buffer" and "length buffer \<le> QUIC_MAX_PACKET_SIZE"
  shows "engine_ok (quic_engine_track_pending e pk buffer n now)"
  using assms
  by (auto simp: engine_ok_def quic_engine_track_pending_def pends_ok_update pend_ok_claim
      split: option.splits)

lemma engine_ok_send: "engine_ok e \<Longrightarrow> engine_ok (snd (quic_engine_send w now e pk addr))"
proof -
  assume ok: "engine_ok e"
  have len: "length (stack_buffer w) = QUIC_MAX_PACKET_SIZE" by (simp add: stack_buffer_def)
  show ?thesis
  proof (cases "quic_packet_serialize (Some pk) (Some (stack_buffer w))")
    case None
    with ok show ?thesis by (simp add: quic_engine_send_def)
  next
    case (Some bn)
    obtain b n where bn: "bn = (b, n)" by fastforce
    from serialize_length [OF Some [unfolded bn]] len ok show ?thesis
      by (simp add: quic_engine_send_def Some bn engine_sendto_def Let_def engine_ok_track)
  qed
qed

lemma engine_ok_entry [simp]:
  "engine_ok (quic_engine_emit_state e cid st addr) = engine_ok e"
  "engine_ok (quic_engine_emit_stream_data e cid sid off d) = engine_ok e"
  by (simp_all add: quic_engine_emit_state_def quic_engine_emit_stream_data_def)

lemma engine_ok_add:
  assumes "engine_ok e" and "quic_engine_find_entry_locked e cid = None"
  shows "engine_ok (snd (quic_engine_add_connection_locked e cid addr now))"
  using assms conns_ok_claim [of "qe_connections e" _ cid "(addr, now)"]
  by (auto simp: quic_engine_add_connection_locked_def engine_ok_def engine_searches
      split: option.splits)

lemma engine_ok_touch:
  assumes "engine_ok e" and "i < length (qe_connections e)"
  shows "engine_ok (update_entry i (\<lambda>c. c\<lparr>ce_last_seen := t\<rparr>) e)"
    and "engine_ok (update_entry i (\<lambda>c. c\<lparr>ce_addr := a\<rparr>) e)"
    and "engine_ok (update_entry i release_connection e)"
    and "mgr_table m \<Longrightarrow> engine_ok (update_entry i (\<lambda>c. c\<lparr>ce_stream_mgr := m\<rparr>) e)"
    and "ce_in_use (qe_connections e ! i) \<Longrightarrow>
      engine_ok (update_entry i (\<lambda>c. c\<lparr>ce_state := CONN_CONNECTED\<rparr>) e)"
proof -
  show "engine_ok (update_entry i (\<lambda>c. c\<lparr>ce_last_seen := t\<rparr>) e)"
    "engine_ok (update_entry i (\<lambda>c. c\<lparr>ce_addr := a\<rparr>) e)"
    "engine_ok (update_entry i release_connection e)"
    by (rule engine_ok_update_entry [OF assms]; simp add: conn_ok_def)+
  show "engine_ok (update_entry i (\<lambda>c. c\<lparr>ce_stream_mgr := m\<rparr>) e)" if "mgr_table m"
    using that by (intro engine_ok_update_entry [OF assms]) (simp add: conn_ok_def)
  assume use: "ce_in_use (qe_connections e ! i)"
  have ok: "conns_ok (qe_connections e)" using assms(1) by (simp add: engine_ok_def)
  have "conns_ok ((qe_connections e)[i := (qe_connections e ! i)\<lparr>ce_state := CONN_CONNECTED\<rparr>])"
    using use conns_ok_D(3) [OF ok assms(2)]
    by (intro conns_ok_update [OF ok assms(2)]) (simp_all add: conn_ok_def)
  with assms(1) show "engine_ok (update_entry i (\<lambda>c. c\<lparr>ce_state := CONN_CONNECTED\<rparr>) e)"
    by (simp add: engine_ok_def)
qed

lemma engine_ok_process_entry:
  assumes "engine_ok e" and "i < length (qe_connections e)" and "ce_in_use (qe_connections e ! i)"
  shows "engine_ok (fst (snd (process_entry e i pk addr created notify)))"
  using assms
  by (auto simp: process_entry_def Let_def engine_ok_touch engine_ok_clear_pending)

lemma find_entry_D:
  assumes "quic_engine_find_entry_locked e cid = Some i"
  shows "i < length (qe_connections e)" and "ce_in_use (qe_connections e ! i)"
    and "ce_connection_id (qe_connections e ! i) = cid"
  using slot_find_SomeD [OF assms [unfolded find_entry_eq]] by simp_all

text \<open>After a successful claim the new connection is found.\<close>

lemma add_connection_found:
  assumes "quic_engine_find_entry_locked e cid = None"
    and "quic_engine_add_connection_locked e cid addr now = (0, e')"
  obtains i where "quic_engine_find_entry_locked e' cid = Some i"
    and "slot_free ce_in_use (qe_connections e) = Some i"
    and "e' = update_entry i (claim_connection cid (addr, now)) e"
proof -
  obtain i where free: "slot_free ce_in_use (qe_connections e) = Some i"
    and e': "e' = update_entry i (claim_connection cid (addr, now)) e"
    using assms(2)
    by (auto simp: quic_engine_add_connection_locked_def engine_searches split: option.splits)
  have "conn_find (qe_connections e') cid = Some i"
    using connections.claim_find [OF free, of cid "(addr, now)"] assms(1)
    by (simp add: e' find_entry_eq slot_find_None)
  with free e' show ?thesis using that by (simp add: find_entry_eq)
qed

text \<open>The cases of \<open>quic_engine_process_packet\<close> after the clean-up.\<close>

definition seen_entry :: "nat \<Rightarrow> sockaddr_in \<Rightarrow> int \<Rightarrow> quic_engine \<Rightarrow> quic_engine" where
  "seen_entry i addr now e =
     update_entry i (\<lambda>c. c\<lparr>ce_last_seen := now\<rparr>)
       (if ce_addr (qe_connections e ! i) \<noteq> addr
        then count_migrated (update_entry i (\<lambda>c. c\<lparr>ce_addr := addr\<rparr>) e) else e)"

definition migration_notice ::
  "quic_engine \<Rightarrow> nat \<Rightarrow> sockaddr_in \<Rightarrow> (quic_connection_state \<times> sockaddr_in) option" where
  "migration_notice e i addr =
     (if ce_addr (qe_connections e ! i) \<noteq> addr
      then Some (ce_state (qe_connections e ! i), addr) else None)"

lemma process_known:
  assumes "e1 = quic_engine_cleanup_connections_locked e now"
    and "quic_engine_find_entry_locked e1 (pk_connection_id pk) = Some i"
  shows "quic_engine_process_packet e pk addr now t =
     (let (rc, e2, notify) = process_entry (seen_entry i addr now e1) i pk addr False
                               (migration_notice e1 i addr)
      in (rc, e2, False, notify))"
  using assms(2)
  by (simp add: quic_engine_process_packet_def assms(1) Let_def seen_entry_def migration_notice_def)

lemma process_unknown:
  assumes "e1 = quic_engine_cleanup_connections_locked e now"
    and "quic_engine_find_entry_locked e1 (pk_connection_id pk) = None"
    and "\<not> has_flag (pk_flags pk) QUIC_FLAG_INITIAL"
  shows "quic_engine_process_packet e pk addr now t = (-1, e1, False, None)"
  using assms(2,3) by (simp add: quic_engine_process_packet_def assms(1) Let_def)

lemma process_full:
  assumes "e1 = quic_engine_cleanup_connections_locked e now"
    and "quic_engine_find_entry_locked e1 (pk_connection_id pk) = None"
    and "slot_free ce_in_use (qe_connections e1) = None"
  shows "quic_engine_process_packet e pk addr now t = (-1, e1, False, None)"
  using assms(2,3)
  by (simp add: quic_engine_process_packet_def assms(1) Let_def quic_engine_add_connection_locked_def
      first_idx_free)

lemma process_created:
  assumes "e1 = quic_engine_cleanup_connections_locked e now"
    and "quic_engine_find_entry_locked e1 (pk_connection_id pk) = None"
    and "has_flag (pk_flags pk) QUIC_FLAG_INITIAL"
    and "slot_free ce_in_use (qe_connections e1) = Some i"
  shows "quic_engine_process_packet e pk addr now t =
     (let (rc, e2, notify) = process_entry
            (update_entry i (claim_connection (pk_connection_id pk) (addr, t)) e1) i pk addr True
            (Some (CONN_CONNECTING, addr))
      in (rc, e2, True, notify))"
proof -
  have add: "quic_engine_add_connection_locked e1 (pk_connection_id pk) addr t =
      (0, update_entry i (claim_connection (pk_connection_id pk) (addr, t)) e1)"
    using assms(4) by (simp add: quic_engine_add_connection_locked_def first_idx_free)
  from add_connection_found [OF assms(2) add] assms(4)
  have "quic_engine_find_entry_locked
      (update_entry i (claim_connection (pk_connection_id pk) (addr, t)) e1) (pk_connection_id pk) = Some i"
    by auto
  with assms(2,3) add show ?thesis
    by (simp add: quic_engine_process_packet_def assms(1) [symmetric] Let_def)
qed

lemma process_cases:
  assumes "e1 = quic_engine_cleanup_connections_locked e now"
  obtains (known) i where "quic_engine_find_entry_locked e1 (pk_connection_id pk) = Some i"
  | (refused) "quic_engine_find_entry_locked e1 (pk_connection_id pk) = None"
      and "quic_engine_process_packet e pk addr now t = (-1, e1, False, None)"
  | (created) i where "quic_engine_find_entry_locked e1 (pk_connection_id pk) = None"
      and "has_flag (pk_flags pk) QUIC_FLAG_INITIAL"
      and "slot_free ce_in_use (qe_connections e1) = Some i"
  using process_unknown [OF assms] process_full [OF assms] by (metis option.exhaust)

lemma seen_entry_fields [simp]:
  "length (qe_connections (seen_entry i addr now e)) = length (qe_connections e)"
  "qe_pending (seen_entry i addr now e) = qe_pending e"
  "qe_out (seen_entry i addr now e) = qe_out e"
  "qe_handler (seen_entry i addr now e) = qe_handler e"
  "qe_stream_handler (seen_entry i addr now e) = qe_stream_handler e"
  "qe_state_handler (seen_entry i addr now e) = qe_state_handler e"
  by (simp_all add: seen_entry_def)

lemma seen_entry_connections:
  "i < length (qe_connections e) \<Longrightarrow> qe_connections (seen_entry i addr now e) =
     (qe_connections e)[i := (qe_connections e ! i)\<lparr>ce_addr := addr, ce_last_seen := now\<rparr>]"
  by (cases "qe_connections e ! i") (auto simp: seen_entry_def)

lemma engine_ok_seen:
  "engine_ok e \<Longrightarrow> i < length (qe_connections e) \<Longrightarrow> engine_ok (seen_entry i addr now e)"
  by (simp add: seen_entry_def engine_ok_touch)

lemma engine_ok_process:
  assumes "engine_ok e"
  shows "engine_ok (fst (snd (quic_engine_process_packet e pk addr now t)))"
proof -
  define e1 where e1: "e1 = quic_engine_cleanup_connections_locked e now"
  have ok: "engine_ok e1" unfolding e1 by (rule engine_ok_cleanup [OF assms])
  show ?thesis
  proof (cases rule: process_cases [OF e1, where pk = pk and addr = addr and t = t,
        case_names known refused created])
    case (known i)
    note d = find_entry_D [OF known]
    obtain rc e2 n where pe: "process_entry (seen_entry i addr now e1) i pk addr False
        (migration_notice e1 i addr) = (rc, e2, n)" by (metis prod_cases3)
    have "engine_ok (fst (snd (process_entry (seen_entry i addr now e1) i pk addr False
        (migration_notice e1 i addr))))"
      using d by (intro engine_ok_process_entry engine_ok_seen ok) (simp_all add: seen_entry_connections)
    then show ?thesis by (simp add: process_known [OF e1 known] pe)
  next
    case refused
    with ok show ?thesis by simp
  next
    case (created i)
    let ?e = "update_entry i (claim_connection (pk_connection_id pk) (addr, t)) e1"
    have "engine_ok ?e"
      using engine_ok_add [OF ok created(1), of addr t] created(3)
      by (simp add: quic_engine_add_connection_locked_def first_idx_free)
    moreover obtain rc e2 n where pe: "process_entry ?e i pk addr True (Some (CONN_CONNECTING, addr))
        = (rc, e2, n)" by (metis prod_cases3)
    ultimately have "engine_ok (fst (snd (process_entry ?e i pk addr True (Some (CONN_CONNECTING, addr)))))"
      using slot_free_SomeD(1) [OF created(3)]
      by (intro engine_ok_process_entry) (simp_all add: connections.claim_used)
    then show ?thesis by (simp add: process_created [OF e1 created] pe)
  qed
qed

lemma engine_ok_handle_data:
  assumes "engine_ok e"
  shows "engine_ok (handle_data w now e pk addr)"
proof (cases "quic_engine_find_entry_locked e (pk_connection_id pk)")
  case None
  with assms show ?thesis by (simp add: handle_data_def engine_ok_send)
next
  case (Some i)
  note d = find_entry_D [OF Some]
  obtain rc m o' out where call: "quic_stream_on_data (w_malloc w (length (qe_out e)))
      (ce_stream_mgr (qe_connections e ! i)) (pk_stream_id pk) (pk_offset pk) (pk_payload pk)
      (pk_length pk) (Some QUIC_MAX_PAYLOAD) = (rc, m, o', out)"
    by (metis prod_cases4)
  have "mgr_table m"
    using on_data_table [OF _ call] conns_ok_D(3) [of "qe_connections e" i] assms d(1)
    by (simp add: engine_ok_def conn_ok_def)
  then show ?thesis
    using assms d(1)
    by (simp add: handle_data_def Some call Let_def engine_ok_send engine_ok_touch split: if_splits)
qed

lemma engine_ok_handle_packet:
  assumes "engine_ok e"
  shows "engine_ok (handle_packet w clk e pk addr)"
proof -
  define e0 where "e0 = (if has_flag (pk_flags pk) QUIC_FLAG_ACK
      then quic_engine_ack_pending e (pk_connection_id pk) (pk_packet_number pk) else e)"
  obtain rc e1 hs n where pr: "quic_engine_process_packet e0 pk addr (clk 0) (clk 1) = (rc, e1, hs, n)"
    by (metis prod_cases4)
  have "engine_ok e0" using assms by (simp add: e0_def engine_ok_ack)
  then have "engine_ok e1" using engine_ok_process [of e0 pk addr "clk 0" "clk 1"] pr by simp
  then show ?thesis
    by (simp add: handle_packet_def Let_def e0_def [symmetric] pr [unfolded One_nat_def] quic_engine_send_handshake_def
        engine_ok_send engine_ok_handle_data split: option.split)
qed

section \<open>Retransmission\<close>

lemma retransmit_one_fields [simp]:
  "qe_connections (retransmit_one w now i e) = qe_connections e"
  "qe_running (retransmit_one w now i e) = qe_running e"
  "qe_handler (retransmit_one w now i e) = qe_handler e"
  "qe_stream_handler (retransmit_one w now i e) = qe_stream_handler e"
  "qe_state_handler (retransmit_one w now i e) = qe_state_handler e"
  by (simp_all add: retransmit_one_def engine_sendto_def count_sent_def Let_def split: option.splits)

lemma engine_ok_retransmit_one:
  assumes "engine_ok e" and "i < QUIC_MAX_PENDING"
  shows "engine_ok (retransmit_one w now i e)"
proof -
  have p: "pend_ok (qe_pending e ! i)" and "pends_ok (qe_pending e)"
    using assms by (simp_all add: engine_ok_def pends_ok_def)
  moreover have "pend_ok ((qe_pending e ! i)\<lparr>pe_last_sent := now, pe_retries := pe_retries (qe_pending e ! i) + 1\<rparr>)"
    if "\<not> QUIC_MAX_RETRIES \<le> pe_retries (qe_pending e ! i) + 1"
    using p that by (auto simp: pend_ok_def)
  ultimately show ?thesis
    using assms(1)
    by (simp add: retransmit_one_def engine_sendto_def engine_ok_def Let_def pends_ok_update
        pend_ok_release split: option.splits)
qed

lemma engine_ok_retransmit:
  assumes "engine_ok e"
  shows "engine_ok (quic_engine_retransmit_pending w now e)"
proof -
  have "engine_ok (fold (retransmit_one w now) is e)" if "\<forall>i \<in> set is. i < QUIC_MAX_PENDING" for "is"
    using that assms by (induction "is" arbitrary: e) (simp_all add: engine_ok_retransmit_one)
  then show ?thesis by (simp add: quic_engine_retransmit_pending_def)
qed

lemma retransmit_connections [simp]:
  "qe_connections (quic_engine_retransmit_pending w now e) = qe_connections e"
proof -
  have "qe_connections (fold (retransmit_one w now) is e) = qe_connections e" for "is"
    by (induction "is" arbitrary: e) simp_all
  then show ?thesis by (simp add: quic_engine_retransmit_pending_def)
qed

section \<open>Everything that can happen to a started engine\<close>

text \<open>
  One event is one call of the interface by the program, or one iteration of the receive loop on
  whatever \<open>recvfrom\<close> returns. Each brings its own clock readings.
\<close>

datatype engine_event =
    Ev_recv "nat \<Rightarrow> int" recv_result
  | Ev_send int quic_packet sockaddr_in
  | Ev_send_to_connection "nat \<Rightarrow> int" quic_packet
  | Ev_get_connection int u64
  | Ev_close int u64
  | Ev_set_state_handler bool
  | Ev_set_stream_data_handler bool
  | Ev_set_recv_timeout u32
  | Ev_stop

fun engine_exec :: "world \<Rightarrow> engine_event \<Rightarrow> quic_engine \<Rightarrow> quic_engine" where
  "engine_exec w (Ev_recv clk r) e = snd (quic_engine_loop_step w clk e r)"
| "engine_exec w (Ev_send now pk addr) e = snd (quic_engine_send w now e pk addr)"
| "engine_exec w (Ev_send_to_connection clk pk) e = snd (quic_engine_send_to_connection w clk e pk)"
| "engine_exec w (Ev_get_connection now cid) e = snd (quic_engine_get_connection e cid now)"
| "engine_exec w (Ev_close now cid) e = snd (quic_engine_close_connection w now e cid)"
| "engine_exec w (Ev_set_state_handler h) e = quic_engine_set_state_handler e h"
| "engine_exec w (Ev_set_stream_data_handler h) e = quic_engine_set_stream_data_handler e h"
| "engine_exec w (Ev_set_recv_timeout s) e = quic_engine_set_recv_timeout e s"
| "engine_exec w Ev_stop e = quic_engine_stop e"

inductive engine_step :: "world \<Rightarrow> quic_engine \<Rightarrow> quic_engine \<Rightarrow> bool" where
  event: "e' = engine_exec w ev e \<Longrightarrow> engine_step w e e'"

inductive engine_reachable :: "world \<Rightarrow> quic_engine \<Rightarrow> bool" where
  started: "quic_engine_init sock bound port h = (0, e) \<Longrightarrow> engine_reachable w e"
| step: "engine_reachable w e \<Longrightarrow> engine_step w e e' \<Longrightarrow> engine_reachable w e'"

inductive_cases engine_stepE: "engine_step w e e'"
inductive_simps engine_step_simps: "engine_step w e e'"

lemma engine_ok_get_connection:
  assumes "engine_ok e"
  shows "engine_ok (snd (quic_engine_get_connection e cid now))"
proof -
  let ?e = "quic_engine_cleanup_connections_locked e now"
  have ok: "engine_ok ?e" by (rule engine_ok_cleanup [OF assms])
  then show ?thesis
    using find_entry_D(1) [of ?e cid]
    by (simp add: quic_engine_get_connection_def Let_def engine_ok_touch split: option.splits)
qed

lemma engine_ok_exec: "engine_ok e \<Longrightarrow> engine_ok (engine_exec w ev e)"
proof (induction w ev e rule: engine_exec.induct)
  case (1 w clk r e)
  then show ?case
    by (auto simp: quic_engine_loop_step_def Let_def engine_ok_retransmit engine_ok_cleanup
        engine_ok_handle_packet split: recv_result.splits option.splits errno.splits)
next
  case (2 w now pk addr e)
  then show ?case by (simp add: engine_ok_send)
next
  case (3 w clk pk e)
  then show ?case
    using engine_ok_get_connection [OF 3, of "pk_connection_id pk" "clk 0"]
    by (auto simp: quic_engine_send_to_connection_def engine_ok_send split: prod.splits option.splits)
next
  case (4 w now cid e)
  then show ?case by (simp add: engine_ok_get_connection)
next
  case (5 w now cid e)
  then show ?case
    using find_entry_D(1) [of e cid]
    by (simp add: quic_engine_close_connection_def quic_engine_send_close_def Let_def
        engine_ok_send engine_ok_clear_pending engine_ok_touch split: option.splits)
qed (simp_all add: engine_ok_def quic_engine_set_state_handler_def quic_engine_stop_def Let_def
    quic_engine_set_stream_data_handler_def quic_engine_set_recv_timeout_def)

lemma reachable_ok: "engine_reachable w e \<Longrightarrow> engine_ok e"
proof (induction rule: engine_reachable.induct)
  case (started sock bound port h e w)
  then show ?case using engine_ok_init [of sock bound port h] by simp
next
  case (step w e e')
  then show ?case by (auto elim!: engine_stepE intro: engine_ok_exec)
qed

end
