(* ===== verification/Engine_Delivery.thy ===== *)
theory Engine_Delivery
  imports Engine_Invariant
begin

text \<open>
  Delivery through the engine: while a connection stays open, the bytes the stream callback is
  given for each of its streams are a prefix of what the peer wrote on that stream, whatever
  else the engine does in between. The proof follows one connection through every event and
  shows that only a data packet of that connection touches its streams.
\<close>

section \<open>What the stream callback has been given\<close>

fun stream_bytes :: "u64 \<Rightarrow> u32 \<Rightarrow> engine_output \<Rightarrow> bytes" where
  "stream_bytes cid sid (Out_stream c s off d) = (if c = cid \<and> s = sid then d else [])"
| "stream_bytes cid sid (Out_send addr d r) = []"
| "stream_bytes cid sid (Out_state c st addr) = []"
| "stream_bytes cid sid (Out_packet pk addr) = []"

definition stream_out :: "u64 \<Rightarrow> u32 \<Rightarrow> engine_output list \<Rightarrow> bytes" where
  "stream_out cid sid outs = concat (map (stream_bytes cid sid) outs)"

lemma stream_out_append [simp]: "stream_out cid sid (a @ b) = stream_out cid sid a @ stream_out cid sid b"
  by (simp add: stream_out_def)

lemma stream_out_single [simp]: "stream_out cid sid [x] = stream_bytes cid sid x"
  by (simp add: stream_out_def)

section \<open>Steps that leave a connection's streams alone\<close>

definition quiet :: "u64 \<Rightarrow> quic_engine \<Rightarrow> quic_engine \<Rightarrow> bool" where
  "quiet cid e e' \<longleftrightarrow>
     (\<forall>i. quic_engine_find_entry_locked e cid = Some i \<longrightarrow>
        quic_engine_find_entry_locked e' cid = Some i \<and>
        ce_stream_mgr (qe_connections e' ! i) = ce_stream_mgr (qe_connections e ! i)) \<and>
     (\<forall>sid. stream_out cid sid (qe_out e') = stream_out cid sid (qe_out e))"

lemma quiet_refl [simp]: "quiet cid e e"
  by (simp add: quiet_def)

lemma quiet_trans [trans]: "quiet cid a b \<Longrightarrow> quiet cid b c \<Longrightarrow> quiet cid a c"
  by (auto simp: quiet_def)

lemma quiet_same:
  "qe_connections e' = qe_connections e \<Longrightarrow> \<forall>sid. stream_out cid sid (qe_out e') = stream_out cid sid (qe_out e)
     \<Longrightarrow> quiet cid e e'"
  by (simp add: quiet_def find_entry_eq)

lemma quiet_send: "quiet cid e (snd (quic_engine_send w now e pk addr))"
  by (rule quiet_same)
    (auto simp: quic_engine_send_def engine_sendto_def Let_def split: option.splits prod.splits)

lemma quiet_emit:
  "quiet cid e (quic_engine_emit_state e c st addr)"
  "quiet cid e (emit (Out_packet pk addr) e)"
  "c \<noteq> cid \<Longrightarrow> quiet cid e (quic_engine_emit_stream_data e c s off d)"
  by (rule quiet_same; simp add: quic_engine_emit_state_def quic_engine_emit_stream_data_def)+

lemma quiet_tables:
  "quiet cid e (quic_engine_ack_pending e c pn)"
  "quiet cid e (quic_engine_clear_pending_for_connection e c)"
  "quiet cid e (count_received e)" "quiet cid e (count_opened e)" "quiet cid e (count_closed e)"
  by (rule quiet_same; simp)+

lemma quiet_update_at:
  assumes "qe_connections e' = (qe_connections e)[i := c]" and "i < length (qe_connections e)"
    and "ce_in_use c = ce_in_use (qe_connections e ! i)"
    and "ce_connection_id c = ce_connection_id (qe_connections e ! i)"
    and "ce_connection_id c = cid \<Longrightarrow> ce_stream_mgr c = ce_stream_mgr (qe_connections e ! i)"
    and "\<forall>sid. stream_out cid sid (qe_out e') = stream_out cid sid (qe_out e)"
  shows "quiet cid e e'"
proof -
  let ?t = "qe_connections e"
  have "conn_find (?t[i := c]) cid = conn_find ?t cid"
    using slot_update_same(1) [of i ?t ce_in_use c ce_connection_id cid] assms(2-4) by simp
  then show ?thesis
    using assms by (auto simp: quiet_def find_entry_eq nth_list_update dest: slot_find_SomeD(3))
qed

lemma quiet_release:
  assumes "i < length (qe_connections e)" and "ce_connection_id (qe_connections e ! i) \<noteq> cid"
  shows "quiet cid e (update_entry i release_connection e)"
proof -
  let ?t = "qe_connections e"
  have "conn_find (?t[i := release_connection (?t ! i)]) cid = conn_find ?t cid"
    using assms by (intro slot_find_update_other) (simp_all add: release_connection_def)
  then show ?thesis
    using assms by (auto simp: quiet_def find_entry_eq nth_list_update dest: slot_find_SomeD(3))
qed

lemma quiet_claim:
  assumes "slot_free ce_in_use (qe_connections e) = Some i" and "c \<noteq> cid"
  shows "quiet cid e (update_entry i (claim_connection c x) e)"
  using connections.claim_find_other [OF assms(1), of cid c x] assms(2) slot_free_SomeD [OF assms(1)]
  by (auto simp: quiet_def find_entry_eq nth_list_update dest: slot_find_SomeD)

definition stays_fresh :: "quic_engine \<Rightarrow> u64 \<Rightarrow> int \<Rightarrow> bool" where
  "stays_fresh e cid now \<longleftrightarrow>
     (case quic_engine_find_entry_locked e cid of
        None \<Rightarrow> False
      | Some i \<Rightarrow> \<not> expired now (qe_connections e ! i))"

lemma stays_fresh_same:
  "qe_connections e' = qe_connections e \<Longrightarrow> stays_fresh e' cid now = stays_fresh e cid now"
  by (simp add: stays_fresh_def find_entry_eq split: option.split)

lemma cleanup_find:
  assumes "engine_ok e" and "quic_engine_find_entry_locked e cid = Some i"
    and "\<not> expired now (qe_connections e ! i)"
  shows "quic_engine_find_entry_locked (quic_engine_cleanup_connections_locked e now) cid = Some i"
    and "qe_connections (quic_engine_cleanup_connections_locked e now) ! i = qe_connections e ! i"
proof -
  have len: "length (qe_connections e) = QUIC_MAX_CONNECTIONS"
    using assms(1) by (simp add: engine_ok_def conns_ok_def)
  note d = find_entry_D [OF assms(2)]
  have least: "\<not> (ce_in_use (qe_connections e ! j) \<and> ce_connection_id (qe_connections e ! j) = cid)"
    if "j < i" for j
    using assms(2) that by (simp add: find_entry_eq slot_find_def first_idx_Some)
  show nth: "qe_connections (quic_engine_cleanup_connections_locked e now) ! i = qe_connections e ! i"
    using d assms(3) by (simp add: cleanup_connections [OF len] expire_def)
  have "\<not> (ce_in_use (qe_connections (quic_engine_cleanup_connections_locked e now) ! j) \<and>
      ce_connection_id (qe_connections (quic_engine_cleanup_connections_locked e now) ! j) = cid)"
    if "j < i" for j
    using least [OF that] that d(1) by (simp add: cleanup_connections [OF len] expire_cases)
  then show "quic_engine_find_entry_locked (quic_engine_cleanup_connections_locked e now) cid = Some i"
    using d nth by (simp add: find_entry_eq slot_find_def first_idx_Some) (simp add: cleanup_connections [OF len])
qed

lemma quiet_cleanup:
  assumes "engine_ok e" and "stays_fresh e cid now"
  shows "quiet cid e (quic_engine_cleanup_connections_locked e now)"
proof -
  have "length (qe_connections e) = QUIC_MAX_CONNECTIONS"
    using assms(1) by (simp add: engine_ok_def conns_ok_def)
  then show ?thesis
    using assms(2) cleanup_find [OF assms(1), of cid _ now]
    by (auto simp: quiet_def stays_fresh_def cleanup_out split: option.splits)
qed

lemma quiet_seen: "i < length (qe_connections e) \<Longrightarrow> quiet cid e (seen_entry i addr now e)"
  by (rule quiet_update_at [OF seen_entry_connections]) simp_all

lemma quiet_process_entry:
  assumes "i < length (qe_connections e)"
    and "has_flag (pk_flags pk) QUIC_FLAG_CLOSE \<Longrightarrow> ce_connection_id (qe_connections e ! i) \<noteq> cid"
  shows "quiet cid e (fst (snd (process_entry e i pk addr created notify)))"
proof (cases "has_flag (pk_flags pk) QUIC_FLAG_CLOSE")
  case True
  then show ?thesis
    using quiet_release [OF assms(1)] assms(2)
    by (auto simp: process_entry_def Let_def intro!: quiet_trans [OF _ quiet_tables(2)]
        quiet_trans [OF _ quiet_tables(5)])
next
  case False
  have q: "quiet cid e (update_entry i (\<lambda>c. c\<lparr>ce_state := CONN_CONNECTED\<rparr>) e)"
    by (rule quiet_update_at [OF _ assms(1), of _ "(qe_connections e ! i)\<lparr>ce_state := CONN_CONNECTED\<rparr>"])
      simp_all
  with False show ?thesis
    by (auto simp: process_entry_def Let_def quiet_tables intro: quiet_trans [OF q quiet_tables(4)])
qed

lemma quiet_process:
  assumes "engine_ok e" and "stays_fresh e cid now"
    and "pk_connection_id pk = cid \<Longrightarrow> \<not> has_flag (pk_flags pk) QUIC_FLAG_CLOSE"
  shows "quiet cid e (fst (snd (quic_engine_process_packet e pk addr now t)))"
proof -
  define e1 where e1: "e1 = quic_engine_cleanup_connections_locked e now"
  have q1: "quiet cid e e1" unfolding e1 by (rule quiet_cleanup [OF assms(1,2)])
  obtain k where k: "quic_engine_find_entry_locked e1 cid = Some k"
    using assms(2) q1 by (auto simp: stays_fresh_def quiet_def split: option.splits)
  show ?thesis
  proof (cases rule: process_cases [OF e1, where pk = pk and addr = addr and t = t,
        case_names known refused created])
    case (known i)
    note d = find_entry_D [OF known]
    obtain rc e2 n where pe: "process_entry (seen_entry i addr now e1) i pk addr False
        (migration_notice e1 i addr) = (rc, e2, n)" by (metis prod_cases3)
    have "quiet cid (seen_entry i addr now e1) (fst (snd (process_entry (seen_entry i addr now e1) i pk
        addr False (migration_notice e1 i addr))))"
      using d assms(3) by (intro quiet_process_entry) (auto simp: seen_entry_connections)
    then show ?thesis
      using quiet_trans [OF q1 quiet_trans [OF quiet_seen [OF d(1)]]]
      by (simp add: process_known [OF e1 known] pe)
  next
    case refused
    with q1 show ?thesis by simp
  next
    case (created i)
    let ?e = "update_entry i (claim_connection (pk_connection_id pk) (addr, t)) e1"
    have other: "pk_connection_id pk \<noteq> cid" using k created(1) by auto
    obtain rc e2 n where pe: "process_entry ?e i pk addr True (Some (CONN_CONNECTING, addr))
        = (rc, e2, n)" by (metis prod_cases3)
    have "quiet cid ?e (fst (snd (process_entry ?e i pk addr True (Some (CONN_CONNECTING, addr)))))"
      using slot_free_SomeD(1) [OF created(3)] other
      by (intro quiet_process_entry) (simp_all add: connections.claim_key)
    then show ?thesis
      using quiet_trans [OF q1 quiet_trans [OF quiet_claim [OF created(3) other]]]
      by (simp add: process_created [OF e1 created] pe)
  qed
qed

lemma quiet_retransmit: "quiet cid e (quic_engine_retransmit_pending w now e)"
proof -
  have one: "quiet cid e (retransmit_one w now i e)" for i e
    by (rule quiet_same)
      (simp_all add: retransmit_one_def engine_sendto_def Let_def count_sent_def split: option.splits)
  have "quiet cid e (fold (retransmit_one w now) is e)" for "is"
  proof (induction "is" arbitrary: e)
    case (Cons i "is")
    then show ?case using quiet_trans [OF one Cons.IH] by simp
  qed simp
  then show ?thesis by (simp add: quic_engine_retransmit_pending_def)
qed

lemma quiet_handle_data_other:
  assumes "pk_connection_id pk \<noteq> cid"
  shows "quiet cid e (handle_data w now e pk addr)"
proof (cases "quic_engine_find_entry_locked e (pk_connection_id pk)")
  case None
  then show ?thesis by (simp add: handle_data_def quiet_send)
next
  case (Some i)
  note d = find_entry_D [OF Some]
  obtain rc m o' out where call: "quic_stream_on_data (w_malloc w (length (qe_out e)))
      (ce_stream_mgr (qe_connections e ! i)) (pk_stream_id pk) (pk_offset pk) (pk_payload pk)
      (pk_length pk) (Some QUIC_MAX_PAYLOAD) = (rc, m, o', out)"
    by (metis prod_cases4)
  have upd: "quiet cid e (update_entry i (\<lambda>c. c\<lparr>ce_stream_mgr := m\<rparr>) e)"
    using d assms
    by (intro quiet_update_at [where c = "(qe_connections e ! i)\<lparr>ce_stream_mgr := m\<rparr>"]) auto
  show ?thesis
    using quiet_trans [OF quiet_trans [OF upd quiet_emit(3)] quiet_send] quiet_trans [OF upd quiet_send]
      assms
    by (simp add: handle_data_def Some call Let_def)
qed

section \<open>Data packets of the connection\<close>

definition arrival_of :: "quic_packet \<Rightarrow> arrival" where
  "arrival_of pk = \<lparr>ar_sid = pk_stream_id pk, ar_off = pk_offset pk,
     ar_data = (case pk_payload pk of None \<Rightarrow> [] | Some d \<Rightarrow> d), ar_len = pk_length pk,
     ar_cap = QUIC_MAX_PAYLOAD\<rparr>"

text \<open>The peer's streams are \<open>B\<close>: the packet is empty or carries bytes of one of them.\<close>

definition packet_of :: "(u32 \<Rightarrow> nat \<Rightarrow> u8) \<Rightarrow> quic_packet \<Rightarrow> bool" where
  "packet_of B pk \<longleftrightarrow> pk_length pk = 0 \<or> carries B (arrival_of pk)"

definition progress :: "(u32 \<Rightarrow> nat \<Rightarrow> u8) \<Rightarrow> u64 \<Rightarrow> (u32 \<Rightarrow> bytes) \<Rightarrow> quic_engine \<Rightarrow> bool" where
  "progress B cid base e \<longleftrightarrow>
     (case quic_engine_find_entry_locked e cid of
        None \<Rightarrow> False
      | Some i \<Rightarrow> mgr_holds B (ce_stream_mgr (qe_connections e ! i)) \<and>
          (\<forall>sid. stream_out cid sid (qe_out e) =
             base sid @ map (B sid) [0 ..< next_of (ce_stream_mgr (qe_connections e ! i)) sid]))"

lemma progress_quiet: "quiet cid e e' \<Longrightarrow> progress B cid base e \<Longrightarrow> progress B cid base e'"
  by (auto simp: quiet_def progress_def split: option.splits)

lemma on_data_holds:
  assumes "mgr_holds B m" and "packet_of B pk"
    and "quic_stream_on_data mem m (pk_stream_id pk) (pk_offset pk) (pk_payload pk) (pk_length pk)
           (Some QUIC_MAX_PAYLOAD) = (rc, m', o', out)"
  shows "mgr_holds B m'" and "rc = 0 \<or> out = []"
    and "out = map (B (pk_stream_id pk)) [next_of m (pk_stream_id pk) ..< next_of m' (pk_stream_id pk)]"
    and "next_of m (pk_stream_id pk) \<le> next_of m' (pk_stream_id pk)"
    and "sid \<noteq> pk_stream_id pk \<Longrightarrow> next_of m' sid = next_of m sid"
proof -
  let ?sid = "pk_stream_id pk"
  have all: "mgr_holds B m' \<and> (rc = 0 \<or> out = []) \<and> out = map (B ?sid) [next_of m ?sid ..< next_of m' ?sid]
    \<and> next_of m ?sid \<le> next_of m' ?sid \<and> (sid \<noteq> ?sid \<longrightarrow> next_of m' sid = next_of m sid)"
  proof (cases "pk_payload pk = None \<or> pk_length pk = 0")
    case True
    then show ?thesis using assms(1,3) by (auto simp: quic_stream_on_data_def split: option.splits)
  next
    case False
    then obtain d where d: "pk_payload pk = Some d" and c: "carries B (arrival_of pk)"
      using assms(2) by (auto simp: packet_of_def)
    have rc: "rc = 0 \<or> out = []"
      using assms(3) by (auto simp: quic_stream_on_data_def Let_def split: option.splits if_splits prod.splits)
    show ?thesis
    proof (cases mem)
      case True
      then have call: "quic_stream_on_data True m (ar_sid (arrival_of pk)) (ar_off (arrival_of pk))
          (Some (ar_data (arrival_of pk))) (ar_len (arrival_of pk)) (Some (ar_cap (arrival_of pk)))
          = (rc, m', o', out)"
        using assms(3) d by (simp add: arrival_of_def)
      have "ar_sid (arrival_of pk) = ?sid" by (simp add: arrival_of_def)
      with packet_step [OF assms(1) c call] rc show ?thesis by (auto simp: next_of_def)
    next
      case False
      then have call: "quic_stream_on_data False m ?sid (pk_offset pk) (pk_payload pk) (pk_length pk)
          (Some QUIC_MAX_PAYLOAD) = (rc, m', o', out)" using assms(3) by simp
      have ok: "mgr_ok m" using assms(1) by (simp add: mgr_holds_def)
      show ?thesis
        using on_data_no_memory [OF ok call] assms(1) by (simp add: mgr_holds_def next_of_def)
    qed
  qed
  then show "mgr_holds B m'" and "rc = 0 \<or> out = []"
    and "out = map (B ?sid) [next_of m ?sid ..< next_of m' ?sid]"
    and "next_of m ?sid \<le> next_of m' ?sid" and "sid \<noteq> ?sid \<Longrightarrow> next_of m' sid = next_of m sid"
    by blast+
qed

lemma progress_handle_data:
  assumes "progress B cid base e" and "pk_connection_id pk = cid" and "packet_of B pk"
    and "qe_stream_handler e"
  shows "progress B cid base (handle_data w now e pk addr)"
proof -
  obtain i where i: "quic_engine_find_entry_locked e cid = Some i"
    and holds: "mgr_holds B (ce_stream_mgr (qe_connections e ! i))"
    and outs: "stream_out cid sid (qe_out e) =
             base sid @ map (B sid) [0 ..< next_of (ce_stream_mgr (qe_connections e ! i)) sid]" for sid
    using assms(1) by (auto simp: progress_def split: option.splits)
  note d = find_entry_D [OF i]
  let ?m = "ce_stream_mgr (qe_connections e ! i)"
  obtain rc m o' out where call: "quic_stream_on_data (w_malloc w (length (qe_out e))) ?m
      (pk_stream_id pk) (pk_offset pk) (pk_payload pk) (pk_length pk) (Some QUIC_MAX_PAYLOAD)
      = (rc, m, o', out)"
    by (metis prod_cases4)
  note on = on_data_holds [OF holds assms(3) call]
  define e1 where "e1 = update_entry i (\<lambda>c. c\<lparr>ce_stream_mgr := m\<rparr>) e"
  define e2 where "e2 = (if rc = 0 \<and> 0 < length out then quic_engine_emit_stream_data e1 cid
      (pk_stream_id pk) (case o' of None \<Rightarrow> 0 | Some off \<Rightarrow> off) out else e1)"
  have eq: "handle_data w now e pk addr = snd (quic_engine_send w now e2 (ack_packet pk) addr)"
    by (simp add: handle_data_def assms(2) i call Let_def e1_def e2_def)
  have conns: "qe_connections e2 = (qe_connections e)[i := (qe_connections e ! i)\<lparr>ce_stream_mgr := m\<rparr>]"
    by (simp add: e2_def e1_def)
  have find: "quic_engine_find_entry_locked e2 cid = Some i"
    using i d(1) slot_update_same(1) [of i "qe_connections e" ce_in_use
        "(qe_connections e ! i)\<lparr>ce_stream_mgr := m\<rparr>" ce_connection_id cid]
    by (simp add: find_entry_eq conns)
  have "stream_out cid sid (qe_out e2) = stream_out cid sid (qe_out e) @
      (if sid = pk_stream_id pk then out else [])" for sid
    using on(2) assms(4) by (auto simp: e2_def e1_def quic_engine_emit_stream_data_def)
  moreover have "stream_out cid sid (qe_out e) @ (if sid = pk_stream_id pk then out else []) =
      base sid @ map (B sid) [0 ..< next_of m sid]" for sid
    using on(3) map_upt_join [OF _ on(4), of 0 "B (pk_stream_id pk)"] on(5) [of sid]
    by (auto simp: outs)
  ultimately have "progress B cid base e2"
    using find on(1) d(1) by (simp add: progress_def conns)
  then show ?thesis unfolding eq by (rule progress_quiet [OF quiet_send])
qed

section \<open>One connection through every event\<close>

text \<open>
  What an event must not do: end the connection (a close packet for it, a call of close, idling
  beyond the timeout) or bring a data packet for it that is not the peer's.
\<close>

fun keeps_open :: "(u32 \<Rightarrow> nat \<Rightarrow> u8) \<Rightarrow> u64 \<Rightarrow> engine_event \<Rightarrow> quic_engine \<Rightarrow> bool" where
  "keeps_open B cid (Ev_recv clk (Recv_error err)) e = stays_fresh e cid (clk 0)"
| "keeps_open B cid (Ev_recv clk (Recv_data datagram addr)) e =
     (case quic_packet_deserialize (Some (take QUIC_MAX_PACKET_SIZE datagram)) of
        None \<Rightarrow> True
      | Some pk \<Rightarrow> stays_fresh e cid (clk 0) \<and>
          (pk_connection_id pk = cid \<longrightarrow> \<not> has_flag (pk_flags pk) QUIC_FLAG_CLOSE \<and>
             (has_flag (pk_flags pk) QUIC_FLAG_DATA \<longrightarrow> packet_of B pk)))"
| "keeps_open B cid (Ev_send_to_connection clk pk) e = stays_fresh e cid (clk 0)"
| "keeps_open B cid (Ev_get_connection now c) e = stays_fresh e cid now"
| "keeps_open B cid (Ev_close now c) e = (c \<noteq> cid)"
| "keeps_open B cid _ e = True"

fun engine_run :: "world \<Rightarrow> engine_event list \<Rightarrow> quic_engine \<Rightarrow> quic_engine" where
  "engine_run w [] e = e"
| "engine_run w (ev # evs) e = engine_run w evs (engine_exec w ev e)"

fun run_keeps_open :: "(u32 \<Rightarrow> nat \<Rightarrow> u8) \<Rightarrow> u64 \<Rightarrow> world \<Rightarrow> engine_event list \<Rightarrow> quic_engine \<Rightarrow> bool" where
  "run_keeps_open B cid w [] e = True"
| "run_keeps_open B cid w (ev # evs) e =
     (keeps_open B cid ev e \<and> run_keeps_open B cid w evs (engine_exec w ev e))"

lemma progress_handle_packet:
  assumes "engine_ok e" and "progress B cid base e" and "stays_fresh e cid (clk 0)"
    and "pk_connection_id pk = cid \<Longrightarrow> \<not> has_flag (pk_flags pk) QUIC_FLAG_CLOSE"
    and "pk_connection_id pk = cid \<Longrightarrow> has_flag (pk_flags pk) QUIC_FLAG_DATA \<Longrightarrow> packet_of B pk"
  shows "progress B cid base (handle_packet w clk e pk addr)"
proof -
  let ?c = "pk_connection_id pk"
  define e0 where "e0 = (if has_flag (pk_flags pk) QUIC_FLAG_ACK
      then quic_engine_ack_pending e ?c (pk_packet_number pk) else e)"
  obtain rc e1 hs n where pr: "quic_engine_process_packet e0 pk addr (clk 0) (clk 1) = (rc, e1, hs, n)"
    by (metis prod_cases4)
  have "engine_ok e0" and "quiet cid e e0" and "stays_fresh e0 cid (clk 0)"
    using assms(1,3) stays_fresh_same [of e0 e] by (simp_all add: e0_def engine_ok_ack quiet_tables)
  then have p1: "progress B cid base e1"
    using quiet_process [of e0 cid "clk 0" pk addr "clk 1"] assms(2,4) pr
    by (metis fst_conv progress_quiet quiet_trans snd_conv)
  define e2 where "e2 = (case n of
      Some (st, a) \<Rightarrow> if st \<noteq> CONN_IDLE then quic_engine_emit_state e1 ?c st a else e1 | None \<Rightarrow> e1)"
  define e3 where "e3 = (if hs then quic_engine_send_handshake w (clk 2) e2 addr ?c else e2)"
  define e4 where "e4 = (if has_flag (pk_flags pk) QUIC_FLAG_DATA \<and> qe_stream_handler e3
      then handle_data w (clk 3) e3 pk addr else e3)"
  have "progress B cid base e2"
    using p1 by (auto simp: e2_def intro: progress_quiet [OF quiet_emit(1)] split: option.splits)
  then have p3: "progress B cid base e3"
    by (auto simp: e3_def quic_engine_send_handshake_def intro: progress_quiet [OF quiet_send])
  have p4: "progress B cid base e4"
    using p3 assms(5) progress_handle_data [OF p3]
    by (cases "?c = cid") (auto simp: e4_def intro: progress_quiet [OF quiet_handle_data_other])
  have "handle_packet w clk e pk addr =
      (if rc \<noteq> 0 then e1 else if qe_handler e4 then emit (Out_packet pk addr) e4 else e4)"
    by (simp add: handle_packet_def Let_def e0_def [symmetric] pr [unfolded One_nat_def] e2_def e3_def e4_def)
  then show ?thesis using p1 p4 by (auto intro: progress_quiet [OF quiet_emit(2)])
qed

lemma quiet_get_connection:
  assumes "engine_ok e" and "stays_fresh e cid now"
  shows "quiet cid e (snd (quic_engine_get_connection e c now))"
proof -
  let ?e = "quic_engine_cleanup_connections_locked e now"
  note q = quiet_cleanup [OF assms]
  have "quiet cid ?e (update_entry i (\<lambda>c. c\<lparr>ce_last_seen := now\<rparr>) ?e)"
    if "quic_engine_find_entry_locked ?e c = Some i" for i
    by (rule quiet_update_at [where c = "(qe_connections ?e ! i)\<lparr>ce_last_seen := now\<rparr>" and i = i])
      (use find_entry_D(1) [OF that] in simp_all)
  with q show ?thesis
    by (auto simp: quic_engine_get_connection_def Let_def intro: quiet_trans split: option.splits)
qed

lemma progress_exec:
  assumes "engine_ok e" and "progress B cid base e" and "keeps_open B cid ev e"
  shows "progress B cid base (engine_exec w ev e)"
proof (cases ev)
  case (Ev_recv clk r)
  show ?thesis
  proof (cases r)
    case (Recv_error err)
    have "quiet cid e (quic_engine_cleanup_connections_locked e (clk 0))"
      using assms(1,3) by (intro quiet_cleanup) (simp_all add: Ev_recv Recv_error)
    from progress_quiet [OF quiet_trans [OF this quiet_retransmit] assms(2)] assms(2) show ?thesis
      by (simp add: Ev_recv Recv_error quic_engine_loop_step_def split: errno.splits)
  next
    case (Recv_data dg addr)
    have rec: "progress B cid base (count_received e)"
      by (rule progress_quiet [OF quiet_tables(3) assms(2)])
    show ?thesis
    proof (cases "quic_packet_deserialize (Some (take QUIC_MAX_PACKET_SIZE dg))")
      case None
      with rec show ?thesis by (simp add: Ev_recv Recv_data quic_engine_loop_step_def Let_def)
    next
      case (Some pk)
      have "progress B cid base (handle_packet w clk (count_received e) pk addr)"
        using assms(1,3) rec
        by (intro progress_handle_packet)
          (simp_all add: Ev_recv Recv_data Some stays_fresh_same [of "count_received e" e])
      then show ?thesis by (simp add: Ev_recv Recv_data quic_engine_loop_step_def Some Let_def)
    qed
  qed
next
  case (Ev_send_to_connection clk pk)
  obtain r e1 where get: "quic_engine_get_connection e (pk_connection_id pk) (clk 0) = (r, e1)" by fastforce
  have "quiet cid e e1"
    using quiet_get_connection [of e cid "clk 0" "pk_connection_id pk"] assms(1,3) get
    by (simp add: Ev_send_to_connection)
  then have "progress B cid base e1" by (rule progress_quiet [OF _ assms(2)])
  then show ?thesis
    by (auto simp: Ev_send_to_connection quic_engine_send_to_connection_def get
        intro: progress_quiet [OF quiet_send] split: option.splits)
next
  case (Ev_close now c)
  have c: "c \<noteq> cid" using assms(3) by (simp add: Ev_close)
  have "quiet cid e (snd (quic_engine_close_connection w now e c))"
  proof (cases "quic_engine_find_entry_locked e c")
    case None
    then show ?thesis by (simp add: quic_engine_close_connection_def)
  next
    case (Some i)
    note d = find_entry_D [OF Some]
    have "quiet cid e (update_entry i release_connection e)" using d c by (intro quiet_release) simp_all
    note q = quiet_trans [OF quiet_trans [OF quiet_trans [OF quiet_trans [OF this quiet_tables(5)]
        quiet_tables(2)] quiet_send] quiet_emit(1)]
    then show ?thesis
      by (simp add: quic_engine_close_connection_def Some Let_def quic_engine_send_close_def)
  qed
  then show ?thesis using progress_quiet [OF _ assms(2)] by (simp add: Ev_close)
next
  case (Ev_get_connection now c)
  then show ?thesis
    using assms progress_quiet [OF quiet_get_connection] by simp
next
  case (Ev_send now pk addr)
  then show ?thesis using assms(2) progress_quiet [OF quiet_send] by simp
qed (use assms(2) in \<open>auto simp: quic_engine_set_state_handler_def quic_engine_stop_def Let_def
    quic_engine_set_stream_data_handler_def quic_engine_set_recv_timeout_def
    intro: progress_quiet [OF quiet_same]\<close>)

lemma progress_run:
  "engine_ok e \<Longrightarrow> progress B cid base e \<Longrightarrow> run_keeps_open B cid w evs e \<Longrightarrow>
     progress B cid base (engine_run w evs e)"
  by (induction w evs e rule: engine_run.induct) (simp_all add: progress_exec engine_ok_exec)

end
