(* ===== verification/Engine_Control.thy ===== *)
theory Engine_Control
  imports Engine_Delivery
begin

text \<open>
  The control side of the QUIC engine: what one send does, which packets are let through, the
  two packets of the handshake, and the retransmission pass slot by slot with the number of
  sends a pending packet has left.
\<close>

section \<open>One packet sent\<close>

lemma length_stack_buffer [simp]: "length (stack_buffer w) = QUIC_MAX_PACKET_SIZE"
  by (simp add: stack_buffer_def)

text \<open>What the next \<open>sendto\<close> returns.\<close>

definition sendto_result :: "world \<Rightarrow> quic_engine \<Rightarrow> sockaddr_in \<Rightarrow> bytes \<Rightarrow> int" where
  "sendto_result w e addr d = w_sendto w (length (qe_out e)) addr d"

lemma send_wire:
  assumes "packet_ok pk"
  shows "quic_engine_send w now e pk addr =
     (let r = sendto_result w e addr (wire pk);
          e' = emit (Out_send addr (wire pk) r) e
      in if r = int (length (wire pk))
         then (0, quic_engine_track_pending (count_sent e') pk
                (wire pk @ drop (length (wire pk)) (stack_buffer w)) (length (wire pk)) now)
         else (-1, e'))"
proof -
  have "length (wire pk) \<le> length (stack_buffer w)"
    using assms(1) by (simp add: length_wire packet_ok_def QUIC_MAX_PACKET_SIZE_def)
  then have ser: "quic_packet_serialize (Some pk) (Some (stack_buffer w)) =
      Some (wire pk @ drop (length (wire pk)) (stack_buffer w), length (wire pk))"
    by (rule serialize_ok [OF assms(1)])
  have "r < 0 \<or> nat r \<noteq> length (wire pk) \<longleftrightarrow> r \<noteq> int (length (wire pk))" for r by auto
  then show ?thesis
    by (simp add: quic_engine_send_def ser engine_sendto_def Let_def sendto_result_def)
qed

lemma packet_ok_empty: "pk_length pk = 0 \<Longrightarrow> packet_ok pk"
  by (simp add: packet_ok_def packet_body_def split: option.split)

text \<open>A packet without data is never tracked.\<close>

lemma send_control:
  assumes "packet_ok pk" and "\<not> has_flag (pk_flags pk) QUIC_FLAG_DATA"
  shows "snd (quic_engine_send w now e pk addr) =
     (let r = sendto_result w e addr (wire pk) in if r = int (length (wire pk)) then count_sent (emit (Out_send addr (wire pk) r) e)
      else emit (Out_send addr (wire pk) r) e)"
  using assms by (simp add: send_wire quic_engine_track_pending_def Let_def)

lemma flag_values:
  "\<not> has_flag QUIC_FLAG_ACK QUIC_FLAG_DATA" "\<not> has_flag QUIC_FLAG_CLOSE QUIC_FLAG_DATA"
  "\<not> has_flag (QUIC_FLAG_HANDSHAKE OR QUIC_FLAG_ACK) QUIC_FLAG_DATA"
  "has_flag QUIC_FLAG_INITIAL QUIC_FLAG_INITIAL" "\<not> has_flag QUIC_FLAG_INITIAL QUIC_FLAG_CLOSE"
  "\<not> has_flag QUIC_FLAG_INITIAL QUIC_FLAG_DATA" "\<not> has_flag QUIC_FLAG_INITIAL QUIC_FLAG_ACK"
  "\<not> has_flag QUIC_FLAG_INITIAL QUIC_FLAG_HANDSHAKE"
  "has_flag QUIC_FLAG_INITIAL (QUIC_FLAG_INITIAL OR QUIC_FLAG_HANDSHAKE)"
  "has_flag QUIC_FLAG_HANDSHAKE QUIC_FLAG_HANDSHAKE" "\<not> has_flag QUIC_FLAG_HANDSHAKE QUIC_FLAG_CLOSE"
  "\<not> has_flag QUIC_FLAG_HANDSHAKE QUIC_FLAG_DATA" "\<not> has_flag QUIC_FLAG_HANDSHAKE QUIC_FLAG_ACK"
  "has_flag QUIC_FLAG_HANDSHAKE (QUIC_FLAG_INITIAL OR QUIC_FLAG_HANDSHAKE)"
  by (simp_all add: has_flag_def QUIC_FLAG_INITIAL_def QUIC_FLAG_HANDSHAKE_def QUIC_FLAG_DATA_def
      QUIC_FLAG_ACK_def QUIC_FLAG_CLOSE_def)

section \<open>A packet that is not let through\<close>

lemma handle_refused:
  assumes "quic_engine_process_packet (if has_flag (pk_flags pk) QUIC_FLAG_ACK
      then quic_engine_ack_pending e (pk_connection_id pk) (pk_packet_number pk) else e)
      pk addr (clk 0) (clk 1) = (rc, e1, hs, n)" and "rc \<noteq> 0"
  shows "handle_packet w clk e pk addr = e1"
  using assms(1) [unfolded One_nat_def] assms(2) by (simp add: handle_packet_def Let_def)

lemma process_entry_out:
  "qe_out (fst (snd (process_entry e i pk addr created n))) = qe_out e"
  by (simp add: process_entry_def Let_def)

lemma cleanup_ack:
  fixes pk :: quic_packet and now :: int
  assumes "engine_ok e"
  defines "e0 \<equiv> (if has_flag (pk_flags pk) QUIC_FLAG_ACK
      then quic_engine_ack_pending e (pk_connection_id pk) (pk_packet_number pk) else e)"
  shows "engine_ok e0"
    and "qe_connections (quic_engine_cleanup_connections_locked e0 now) =
      qe_connections (quic_engine_cleanup_connections_locked e now)"
    and "qe_out (quic_engine_cleanup_connections_locked e0 now) = qe_out e"
proof -
  have len: "length (qe_connections e) = QUIC_MAX_CONNECTIONS" "length (qe_connections e0) = QUIC_MAX_CONNECTIONS"
    using assms(1) by (simp_all add: e0_def engine_ok_def conns_ok_def)
  show "engine_ok e0" using assms(1) by (simp add: e0_def engine_ok_ack)
  show "qe_connections (quic_engine_cleanup_connections_locked e0 now) =
      qe_connections (quic_engine_cleanup_connections_locked e now)"
    by (simp add: cleanup_connections len) (simp add: e0_def)
  show "qe_out (quic_engine_cleanup_connections_locked e0 now) = qe_out e"
    by (simp add: cleanup_out len) (simp add: e0_def)
qed

section \<open>Retransmission\<close>

fun is_send :: "engine_output \<Rightarrow> bool" where
  "is_send (Out_send addr d r) = True"
| "is_send _ = False"

definition sends :: "quic_engine \<Rightarrow> nat" where
  "sends e = length (filter is_send (qe_out e))"

text \<open>How often a pending packet may still be sent.\<close>

definition budget :: "quic_pending_entry \<Rightarrow> nat" where
  "budget p = (if pe_in_use p then nat (QUIC_MAX_RETRIES - pe_retries p) else 0)"

definition total_budget :: "quic_engine \<Rightarrow> nat" where
  "total_budget e = sum_list (map budget (qe_pending e))"

lemma sum_list_map_update:
  fixes f :: "'a \<Rightarrow> nat"
  assumes "i < length xs"
  shows "sum_list (map f (xs[i := y])) + f (xs ! i) = sum_list (map f xs) + f y"
  using assms
proof (induction xs arbitrary: i)
  case (Cons x xs)
  show ?case
  proof (cases i)
    case (Suc k)
    with Cons.IH [of k] Cons.prems show ?thesis by simp
  qed simp
qed simp

definition store_pending :: "nat \<Rightarrow> quic_pending_entry \<Rightarrow> quic_engine \<Rightarrow> quic_engine" where
  "store_pending i p e = e\<lparr>qe_pending := (qe_pending e)[i := p]\<rparr>"

lemma store_pending_fields [simp]:
  "qe_pending (store_pending i p e) = (qe_pending e)[i := p]"
  "qe_connections (store_pending i p e) = qe_connections e" "qe_out (store_pending i p e) = qe_out e"
  by (simp_all add: store_pending_def)

text \<open>The four outcomes of one slot: nothing to do, orphaned or not sent, last try, sent again.\<close>

lemma retransmit_one_cases:
  fixes e :: quic_engine and i :: nat and now :: int and w :: world
  defines "p \<equiv> qe_pending e ! i" and "e' \<equiv> retransmit_one w now i e"
  obtains (idle) "e' = e" and "\<not> pe_in_use p \<or> now - pe_last_sent p < QUIC_RETRANS_TIMEOUT"
  | (orphan) "pe_in_use p" and "e' = store_pending i (release_pending p) e"
  | (failed) addr r where "pe_in_use p"
      and "e' = store_pending i (release_pending p) (emit (Out_send addr (take (pe_len p) (pe_buffer p)) r) e)"
  | (sent) addr where "pe_in_use p"
      and "e' = store_pending i
             (if QUIC_MAX_RETRIES \<le> pe_retries p + 1
              then release_pending (p\<lparr>pe_last_sent := now, pe_retries := pe_retries p + 1\<rparr>)
              else p\<lparr>pe_last_sent := now, pe_retries := pe_retries p + 1\<rparr>)
             (count_sent (emit (Out_send addr (take (pe_len p) (pe_buffer p)) (int (pe_len p))) e))"
proof (cases "pe_in_use p \<and> \<not> now - pe_last_sent p < QUIC_RETRANS_TIMEOUT")
  case False
  then show ?thesis using idle by (auto simp: e'_def p_def retransmit_one_def Let_def)
next
  case True
  show ?thesis
  proof (cases "first_idx (connection_is (pe_connection_id p)) (qe_connections e)")
    case None
    with True show ?thesis
      using orphan by (simp add: e'_def p_def retransmit_one_def Let_def store_pending_def)
  next
    case (Some j)
    let ?addr = "ce_addr (qe_connections e ! j)" and ?d = "take (pe_len p) (pe_buffer p)"
    let ?r = "w_sendto w (length (qe_out e)) ?addr ?d"
    show ?thesis
    proof (cases "?r = int (pe_len p)")
      case r: True
      show ?thesis
        by (rule sent [of ?addr])
          (use True Some r in \<open>simp_all add: e'_def p_def retransmit_one_def Let_def store_pending_def
            engine_sendto_def count_sent_def emit_def\<close>)
    next
      case r: False
      show ?thesis
        by (rule failed [of ?addr ?r])
          (use True Some r in \<open>simp_all add: e'_def p_def retransmit_one_def Let_def store_pending_def
            engine_sendto_def count_sent_def emit_def\<close>)
    qed
  qed
qed

lemma retransmit_one_budget:
  assumes "i < length (qe_pending e)" and "pend_ok (qe_pending e ! i)"
  shows "sends (retransmit_one w now i e) + total_budget (retransmit_one w now i e)
     \<le> sends e + total_budget e"
proof -
  let ?p = "qe_pending e ! i"
  have upd: "total_budget (store_pending i q e1) + budget ?p = total_budget e + budget q"
    if "qe_pending e1 = qe_pending e" for q e1
    using sum_list_map_update [OF assms(1), of budget q] that by (simp add: total_budget_def)
  have pos: "0 < budget ?p" if "pe_in_use ?p"
    using assms(2) that by (simp add: budget_def pend_ok_def)
  have rel: "budget (release_pending q) = 0" for q by (simp add: budget_def release_pending_def)
  show ?thesis
  proof (cases rule: retransmit_one_cases [of w now i e, case_names idle orphan failed sent])
    case idle
    then show ?thesis by simp
  next
    case orphan
    then show ?thesis using upd [of e "release_pending ?p"] rel by (simp add: sends_def)
  next
    case (failed addr r)
    then show ?thesis
      using upd [of "emit (Out_send addr (take (pe_len ?p) (pe_buffer ?p)) r) e" "release_pending ?p"]
        rel [of ?p] pos by (simp add: sends_def)
  next
    case (sent addr)
    let ?q = "?p\<lparr>pe_last_sent := now, pe_retries := pe_retries ?p + 1\<rparr>"
    let ?e = "count_sent (emit (Out_send addr (take (pe_len ?p) (pe_buffer ?p)) (int (pe_len ?p))) e)"
    have "Suc (budget ?q) = budget ?p"
      using assms(2) sent(1) by (simp add: budget_def pend_ok_def) linarith
    then show ?thesis
      using sent upd [of ?e ?q] upd [of ?e "release_pending ?q"] rel [of ?q] pos
      by (auto simp: sends_def)
  qed
qed

lemma retransmit_budget:
  assumes "engine_ok e"
  shows "sends (quic_engine_retransmit_pending w now e) + total_budget (quic_engine_retransmit_pending w now e)
     \<le> sends e + total_budget e"
proof -
  have "sends (fold (retransmit_one w now) is e) + total_budget (fold (retransmit_one w now) is e)
      \<le> sends e + total_budget e" if "\<forall>i \<in> set is. i < QUIC_MAX_PENDING" for "is"
    using that assms
  proof (induction "is" arbitrary: e)
    case (Cons i "is")
    have "pend_ok (qe_pending e ! i)" and "i < length (qe_pending e)"
      using Cons.prems by (simp_all add: engine_ok_def pends_ok_def)
    then show ?case
      using Cons.IH [of "retransmit_one w now i e"] Cons.prems retransmit_one_budget [of i e w now]
      by (simp add: engine_ok_retransmit_one)
  qed simp
  then show ?thesis by (simp add: quic_engine_retransmit_pending_def)
qed

lemma total_budget_bound:
  assumes "engine_ok e"
  shows "total_budget e \<le> 192"
proof -
  have "budget p \<le> 3" if "p \<in> set (qe_pending e)" for p
    using assms that by (auto simp: engine_ok_def pends_ok_def pend_ok_def budget_def QUIC_MAX_RETRIES_def)
  then have "total_budget e \<le> 3 * length (qe_pending e)"
    unfolding total_budget_def using sum_list_mono [of "qe_pending e" budget "\<lambda>_. 3"]
    by (simp add: sum_list_triv mult.commute)
  then show ?thesis using assms by (simp add: engine_ok_def pends_ok_def QUIC_MAX_PENDING_def)
qed

text \<open>What one pass does to a slot.\<close>

definition ticked :: "int \<Rightarrow> quic_pending_entry \<Rightarrow> quic_pending_entry \<Rightarrow> bool" where
  "ticked now p p' \<longleftrightarrow>
     (if pe_in_use p \<and> \<not> now - pe_last_sent p < QUIC_RETRANS_TIMEOUT
      then \<not> pe_in_use p' \<or> (pe_retries p' = pe_retries p + 1 \<and> pe_last_sent p' = now)
      else p' = p)"

lemma retransmit_one_slot:
  assumes "i < length (qe_pending e)"
  shows "ticked now (qe_pending e ! i) (qe_pending (retransmit_one w now i e) ! i)"
    and "j \<noteq> i \<Longrightarrow> qe_pending (retransmit_one w now i e) ! j = qe_pending e ! j"
    and "length (qe_pending (retransmit_one w now i e)) = length (qe_pending e)"
  using assms
  by (auto simp: retransmit_one_def Let_def ticked_def engine_sendto_def release_pending_def
      split: option.splits)

lemma retransmit_slots:
  assumes "n \<le> length (qe_pending e)" and "j < length (qe_pending e)"
  shows "length (qe_pending (fold (retransmit_one w now) [0 ..< n] e)) = length (qe_pending e) \<and>
     (if j < n then ticked now (qe_pending e ! j) (qe_pending (fold (retransmit_one w now) [0 ..< n] e) ! j)
      else qe_pending (fold (retransmit_one w now) [0 ..< n] e) ! j = qe_pending e ! j)"
  using assms(1)
proof (induction n)
  case (Suc n)
  let ?m = "fold (retransmit_one w now) [0 ..< n] e"
  have "n < length (qe_pending ?m)" using Suc by simp
  from retransmit_one_slot [OF this, where now = now and w = w] Suc show ?case
    by (cases "j = n") (auto split: if_splits)
qed simp

lemma retransmit_ticked:
  assumes "engine_ok e"
  shows "length (qe_pending (quic_engine_retransmit_pending w now e)) = length (qe_pending e)"
    and "j < length (qe_pending e) \<Longrightarrow>
      ticked now (qe_pending e ! j) (qe_pending (quic_engine_retransmit_pending w now e) ! j)"
proof -
  have len: "length (qe_pending e) = QUIC_MAX_PENDING"
    using assms by (simp add: engine_ok_def pends_ok_def)
  show "length (qe_pending (quic_engine_retransmit_pending w now e)) = length (qe_pending e)"
    using retransmit_slots [of QUIC_MAX_PENDING e 0 w now] len
    by (simp add: quic_engine_retransmit_pending_def QUIC_MAX_PENDING_def)
  show "ticked now (qe_pending e ! j) (qe_pending (quic_engine_retransmit_pending w now e) ! j)"
    if "j < length (qe_pending e)"
    using retransmit_slots [of QUIC_MAX_PENDING e j w now] len that
    by (simp add: quic_engine_retransmit_pending_def)
qed

text \<open>Every pending packet waited since \<open>now\<close> at least \<open>d\<close> and was retried \<open>k\<close> times.\<close>

definition all_waited :: "int \<Rightarrow> int \<Rightarrow> quic_engine \<Rightarrow> bool" where
  "all_waited k now e \<longleftrightarrow> (\<forall>p \<in> set (qe_pending e). pe_in_use p \<longrightarrow>
     k \<le> pe_retries p \<and> pe_last_sent p + QUIC_RETRANS_TIMEOUT \<le> now)"

lemma retransmit_waited:
  assumes "engine_ok e" and "all_waited k now e" and "now + QUIC_RETRANS_TIMEOUT \<le> now'"
  shows "all_waited (k + 1) now' (quic_engine_retransmit_pending w now e)"
proof -
  let ?e = "quic_engine_retransmit_pending w now e"
  have "k + 1 \<le> pe_retries p' \<and> pe_last_sent p' + QUIC_RETRANS_TIMEOUT \<le> now'"
    if mem: "p' \<in> set (qe_pending ?e)" and used: "pe_in_use p'" for p'
  proof -
    obtain j where j: "j < length (qe_pending e)" "p' = qe_pending ?e ! j"
      using mem retransmit_ticked(1) [OF assms(1), of w now] by (auto simp: in_set_conv_nth)
    have w: "pe_in_use (qe_pending e ! j) \<Longrightarrow> k \<le> pe_retries (qe_pending e ! j) \<and>
        pe_last_sent (qe_pending e ! j) + QUIC_RETRANS_TIMEOUT \<le> now"
      using assms(2) j(1) by (auto simp: all_waited_def)
    show ?thesis
      using retransmit_ticked(2) [OF assms(1) j(1), of now w] used w assms(3)
      by (auto simp: ticked_def j(2) split: if_splits)
  qed
  then show ?thesis by (simp add: all_waited_def)
qed

lemma waited_none:
  assumes "engine_ok e" and "all_waited QUIC_MAX_RETRIES now e"
  shows "\<forall>p \<in> set (qe_pending e). \<not> pe_in_use p"
  using assms by (fastforce simp: engine_ok_def pends_ok_def pend_ok_def all_waited_def)

section \<open>The handshake\<close>

definition state_out :: "quic_engine \<Rightarrow> u64 \<Rightarrow> quic_connection_state \<Rightarrow> sockaddr_in \<Rightarrow> engine_output list" where
  "state_out e cid st addr = (if qe_state_handler e then [Out_state cid st addr] else [])"

definition packet_out :: "quic_engine \<Rightarrow> quic_packet \<Rightarrow> sockaddr_in \<Rightarrow> engine_output list" where
  "packet_out e pk addr = (if qe_handler e then [Out_packet pk addr] else [])"

lemma send_control_fields:
  assumes "packet_ok pk" and "\<not> has_flag (pk_flags pk) QUIC_FLAG_DATA"
  shows "qe_out (snd (quic_engine_send w now e pk addr)) =
      qe_out e @ [Out_send addr (wire pk) (sendto_result w e addr (wire pk))]"
    and "qe_pending (snd (quic_engine_send w now e pk addr)) = qe_pending e"
  by (simp_all add: send_control [OF assms] Let_def)

lemma handle_initial:
  assumes "engine_ok e" and "pk_flags pk = QUIC_FLAG_INITIAL"
    and "e1 = quic_engine_cleanup_connections_locked e (clk 0)"
    and "quic_engine_find_entry_locked e1 (pk_connection_id pk) = None"
    and "slot_free ce_in_use (qe_connections e1) = Some i"
  shows "qe_connections (handle_packet w clk e pk addr) = (qe_connections e1)
      [i := claim_connection (pk_connection_id pk) (addr, clk 1) (qe_connections e1 ! i)]"
    and "\<exists>r. qe_out (handle_packet w clk e pk addr) =
      qe_out e @ state_out e (pk_connection_id pk) CONN_CONNECTING addr
        @ [Out_send addr (wire (handshake_packet (pk_connection_id pk))) r] @ packet_out e pk addr"
    and "qe_state_handler (handle_packet w clk e pk addr) = qe_state_handler e"
    and "qe_handler (handle_packet w clk e pk addr) = qe_handler e"
proof -
  let ?c = "pk_connection_id pk"
  have len: "length (qe_connections e) = QUIC_MAX_CONNECTIONS"
    using assms(1) by (simp add: engine_ok_def conns_ok_def)
  have init: "has_flag (pk_flags pk) QUIC_FLAG_INITIAL" by (simp add: assms(2) flag_values)
  define e2 where "e2 = count_opened (update_entry i (claim_connection ?c (addr, clk 1)) e1)"
  have proc: "quic_engine_process_packet e pk addr (clk 0) (clk 1) =
      (0, e2, True, Some (CONN_CONNECTING, addr))"
    by (simp add: process_created [OF assms(3,4) init assms(5)] process_entry_def Let_def assms(2)
        flag_values e2_def claim_connection_def)
  have e2: "qe_out e2 = qe_out e" "qe_state_handler e2 = qe_state_handler e" "qe_handler e2 = qe_handler e"
    by (simp_all add: e2_def assms(3) cleanup_out [OF len] cleanup_state_handler [OF len] cleanup_handler [OF len])
  define e3 where "e3 = quic_engine_send_handshake w (clk 2)
      (quic_engine_emit_state e2 ?c CONN_CONNECTING addr) addr ?c"
  have ctl: "packet_ok (handshake_packet ?c)" "\<not> has_flag (pk_flags (handshake_packet ?c)) QUIC_FLAG_DATA"
    by (simp_all add: handshake_packet_def packet_ok_empty flag_values)
  have h: "handle_packet w clk e pk addr = (if qe_handler e3 then emit (Out_packet pk addr) e3 else e3)"
    by (simp add: handle_packet_def proc [unfolded One_nat_def] Let_def assms(2) flag_values e3_def)
  have conns: "qe_connections e3 = qe_connections e2" "qe_handler e3 = qe_handler e"
    "qe_state_handler e3 = qe_state_handler e"
    by (simp_all add: e3_def e2)
  show "qe_connections (handle_packet w clk e pk addr) = (qe_connections e1)
      [i := claim_connection ?c (addr, clk 1) (qe_connections e1 ! i)]"
    and "qe_state_handler (handle_packet w clk e pk addr) = qe_state_handler e"
    and "qe_handler (handle_packet w clk e pk addr) = qe_handler e"
    using h conns by (simp_all add: e2_def)
  show "\<exists>r. qe_out (handle_packet w clk e pk addr) = qe_out e @ state_out e ?c CONN_CONNECTING addr
        @ [Out_send addr (wire (handshake_packet ?c)) r] @ packet_out e pk addr"
    using h conns
    by (auto simp: e3_def quic_engine_send_handshake_def send_control_fields [OF ctl]
        quic_engine_emit_state_def e2 state_out_def packet_out_def)
qed

lemma handle_handshake:
  assumes "engine_ok e" and "pk_flags pk = QUIC_FLAG_HANDSHAKE"
    and "e1 = quic_engine_cleanup_connections_locked e (clk 0)"
    and "quic_engine_find_entry_locked e1 (pk_connection_id pk) = Some i"
    and "ce_state (qe_connections e1 ! i) = CONN_CONNECTING" and "ce_addr (qe_connections e1 ! i) = addr"
  shows "qe_connections (handle_packet w clk e pk addr) = (qe_connections e1)
      [i := (qe_connections e1 ! i)\<lparr>ce_last_seen := clk 0, ce_state := CONN_CONNECTED\<rparr>]"
    and "qe_out (handle_packet w clk e pk addr) =
      qe_out e @ state_out e (pk_connection_id pk) CONN_CONNECTED addr @ packet_out e pk addr"
proof -
  let ?c = "pk_connection_id pk"
  have len: "length (qe_connections e) = QUIC_MAX_CONNECTIONS"
    using assms(1) by (simp add: engine_ok_def conns_ok_def)
  note d = find_entry_D [OF assms(4)]
  define e2 where "e2 = update_entry i (\<lambda>c. c\<lparr>ce_state := CONN_CONNECTED\<rparr>) (seen_entry i addr (clk 0) e1)"
  have state: "ce_state (qe_connections (seen_entry i addr (clk 0) e1) ! i) = CONN_CONNECTING"
    using d(1) assms(5) by (simp add: seen_entry_connections)
  have proc: "quic_engine_process_packet e pk addr (clk 0) (clk 1) =
      (0, e2, False, Some (CONN_CONNECTED, addr))"
    using d(1) state
    by (simp add: process_known [OF assms(3,4)] process_entry_def Let_def assms(2) flag_values e2_def)
  have e2: "qe_out e2 = qe_out e" "qe_state_handler e2 = qe_state_handler e" "qe_handler e2 = qe_handler e"
    by (simp_all add: e2_def assms(3) cleanup_out [OF len] cleanup_state_handler [OF len] cleanup_handler [OF len])
  define e3 where "e3 = quic_engine_emit_state e2 ?c CONN_CONNECTED addr"
  have h: "handle_packet w clk e pk addr = (if qe_handler e3 then emit (Out_packet pk addr) e3 else e3)"
    by (simp add: handle_packet_def proc [unfolded One_nat_def] Let_def assms(2) flag_values e3_def)
  show "qe_connections (handle_packet w clk e pk addr) = (qe_connections e1)
      [i := (qe_connections e1 ! i)\<lparr>ce_last_seen := clk 0, ce_state := CONN_CONNECTED\<rparr>]"
    using h d(1) assms(6)
    by (cases "qe_connections e1 ! i") (simp add: e3_def e2_def seen_entry_connections)
  show "qe_out (handle_packet w clk e pk addr) = qe_out e @ state_out e ?c CONN_CONNECTED addr
        @ packet_out e pk addr"
    using h by (auto simp: e3_def quic_engine_emit_state_def e2 state_out_def packet_out_def)
qed

text \<open>
  Both packets one after the other. \<open>e1\<close> and \<open>e2\<close> are the engines after the clean-up of
  each step; the connection keeps its slot \<open>i\<close>.
\<close>

lemma handshake_run:
  assumes "engine_reachable w e" and "p1 = \<lparr>pk_flags = QUIC_FLAG_INITIAL, pk_connection_id = cid,
      pk_packet_number = n1, pk_stream_id = 0, pk_offset = 0, pk_length = 0, pk_payload = Some []\<rparr>"
    and "p2 = \<lparr>pk_flags = QUIC_FLAG_HANDSHAKE, pk_connection_id = cid,
      pk_packet_number = n2, pk_stream_id = 0, pk_offset = 0, pk_length = 0, pk_payload = Some []\<rparr>"
    and "cid \<notin> used_keys ce_in_use ce_connection_id (qe_connections e)"
    and "slots_used ce_in_use (qe_connections e) < QUIC_MAX_CONNECTIONS"
    and "clk2 0 - clk1 1 \<le> QUIC_CONNECTION_TIMEOUT" and "now - clk2 0 \<le> QUIC_CONNECTION_TIMEOUT"
    and "e' = engine_run w [Ev_recv clk1 (Recv_data (wire p1) addr), Ev_recv clk2 (Recv_data (wire p2) addr)] e"
  shows "quic_engine_get_connection_state e' cid = Some CONN_CONNECTED \<and>
     fst (quic_engine_get_connection e' cid now) = Some addr \<and>
     (\<exists>r. qe_out e' = qe_out e @ state_out e cid CONN_CONNECTING addr
        @ [Out_send addr (wire (handshake_packet cid)) r] @ packet_out e p1 addr
        @ state_out e cid CONN_CONNECTED addr @ packet_out e p2 addr) \<and>
     (\<exists>i. quic_engine_find_entry_locked e' cid = Some i \<and>
        ce_addr (qe_connections e' ! i) = addr \<and> ce_last_seen (qe_connections e' ! i) = clk2 0 \<and>
        ce_stream_mgr (qe_connections e' ! i) = quic_stream_manager_init)"
proof -
  have ok: "engine_ok e" by (rule reachable_ok [OF assms(1)])
  have ids: "pk_connection_id p1 = cid" "pk_connection_id p2 = cid"
    and fl: "pk_flags p1 = QUIC_FLAG_INITIAL" "pk_flags p2 = QUIC_FLAG_HANDSHAKE"
    and pok: "packet_ok p1" "packet_ok p2"
    by (simp_all add: assms(2,3) packet_ok_empty)
  have dec: "quic_packet_deserialize (Some (take QUIC_MAX_PACKET_SIZE (wire p1))) = Some p1"
    "quic_packet_deserialize (Some (take QUIC_MAX_PACKET_SIZE (wire p2))) = Some p2"
    using roundtrip [OF pok(1)] roundtrip [OF pok(2)] length_wire [OF pok(1)] length_wire [OF pok(2)]
    by (simp_all add: packet_body_def assms(2,3) quic_sizes)
  define ea where "ea = count_received e"
  define e1 where "e1 = quic_engine_cleanup_connections_locked ea (clk1 0)"
  define eb where "eb = handle_packet w clk1 ea p1 addr"
  have oka: "engine_ok ea" using ok by (simp add: ea_def)
  have lena: "length (qe_connections ea) = QUIC_MAX_CONNECTIONS"
    using oka by (simp add: engine_ok_def conns_ok_def)
  have conns1: "qe_connections e1 = map (expire (clk1 0)) (qe_connections e)"
    using cleanup_connections [OF lena] by (simp add: e1_def ea_def)
  have none1: "quic_engine_find_entry_locked e1 cid = None"
    using assms(4) unfolding find_entry_eq slot_find_None conns1
    by (auto simp: used_keys_def expire_cases)
  have "\<exists>c \<in> set (qe_connections e1). \<not> ce_in_use c"
    using assms(5) slots_used_all [of ce_in_use "qe_connections e"] lena
    by (auto simp: conns1 ea_def expire_cases)
  then obtain i where free: "slot_free ce_in_use (qe_connections e1) = Some i"
    using slot_free_None [of ce_in_use "qe_connections e1"] slots_used_all [of ce_in_use "qe_connections e1"]
    by (cases "slot_free ce_in_use (qe_connections e1)") auto
  note i = slot_free_SomeD [OF free]
  have lookup1: "quic_engine_find_entry_locked e1 (pk_connection_id p1) = None" by (simp add: ids none1)
  note H1 = handle_initial [where clk = clk1 and w = w and addr = addr, OF oka fl(1) e1_def lookup1 free, folded eb_def, unfolded ids]
  obtain r where outb: "qe_out eb = qe_out e @ state_out e cid CONN_CONNECTING addr
      @ [Out_send addr (wire (handshake_packet cid)) r] @ packet_out e p1 addr"
    using H1(2) by (auto simp: ea_def state_out_def packet_out_def)
  have okb: "engine_ok eb" using engine_ok_handle_packet [OF oka] by (simp add: eb_def)
  define ec where "ec = count_received eb"
  define e2 where "e2 = quic_engine_cleanup_connections_locked ec (clk2 0)"
  have okc: "engine_ok ec" using okb by (simp add: ec_def)
  let ?entry = "claim_connection cid (addr, clk1 1) (qe_connections e1 ! i)"
  have findc: "quic_engine_find_entry_locked ec cid = Some i"
    using connections.claim_find [OF free, of cid "(addr, clk1 1)"] none1
    by (simp add: ec_def find_entry_eq H1(1) slot_find_None)
  have entc: "qe_connections ec ! i = ?entry" using i(1) by (simp add: ec_def H1(1))
  have "\<not> expired (clk2 0) (qe_connections ec ! i)"
    using assms(6) by (simp add: entc expired_def claim_connection_def)
  note C2 = cleanup_find [OF okc findc this, folded e2_def, unfolded entc]
  have st2: "ce_state (qe_connections e2 ! i) = CONN_CONNECTING" "ce_addr (qe_connections e2 ! i) = addr"
    by (simp_all add: C2(2) claim_connection_def)
  have lookup2: "quic_engine_find_entry_locked e2 (pk_connection_id p2) = Some i" by (simp add: ids C2(1))
  have e': "e' = handle_packet w clk2 ec p2 addr"
    by (simp add: assms(8) quic_engine_loop_step_def dec Let_def ea_def [symmetric] eb_def [symmetric] ec_def)
  note H2 = handle_handshake [where clk = clk2 and w = w, OF okc fl(2) e2_def lookup2 st2,
      folded e', unfolded ids]
  have i2: "i < length (qe_connections e2)" using find_entry_D(1) [OF C2(1)] .
  have find': "quic_engine_find_entry_locked e' cid = Some i"
    using C2(1) slot_update_same(1) [OF i2, of ce_in_use _ ce_connection_id]
    by (simp add: find_entry_eq H2(1))
  have ent': "qe_connections e' ! i = ?entry\<lparr>ce_last_seen := clk2 0, ce_state := CONN_CONNECTED\<rparr>"
    using i2 by (simp add: H2(1) C2(2))
  have ok': "engine_ok e'" unfolding e' by (rule engine_ok_handle_packet [OF okc])
  have fresh: "\<not> expired now (qe_connections e' ! i)"
    using assms(7) by (simp add: ent' expired_def)
  have "qe_out e' = qe_out eb @ state_out e cid CONN_CONNECTED addr @ packet_out e p2 addr"
    using H2(2) H1(3,4) by (simp add: ec_def ea_def state_out_def packet_out_def)
  then show ?thesis
    using find' ent' outb cleanup_find [OF ok' find' fresh]
    by (auto simp: quic_engine_get_connection_state_def quic_engine_get_connection_def Let_def
        claim_connection_def)
qed

section \<open>A data packet of an established connection\<close>

lemma handle_data_packet:
  assumes "engine_ok e" and "pk_flags pk = QUIC_FLAG_DATA" and "qe_stream_handler e"
    and "e1 = quic_engine_cleanup_connections_locked e (clk 0)"
    and "quic_engine_find_entry_locked e1 (pk_connection_id pk) = Some i"
    and "ce_state (qe_connections e1 ! i) = CONN_CONNECTED" and "ce_addr (qe_connections e1 ! i) = addr"
    and "quic_stream_on_data (w_malloc w (length (qe_out e))) (ce_stream_mgr (qe_connections e1 ! i))
      (pk_stream_id pk) (pk_offset pk) (pk_payload pk) (pk_length pk) (Some QUIC_MAX_PAYLOAD)
      = (rc, m, off, out)"
  shows "qe_connections (handle_packet w clk e pk addr) = (qe_connections e1)
      [i := (qe_connections e1 ! i)\<lparr>ce_last_seen := clk 0, ce_stream_mgr := m\<rparr>]"
    and "\<exists>r. qe_out (handle_packet w clk e pk addr) = qe_out e
      @ (if rc = 0 \<and> 0 < length out
         then [Out_stream (pk_connection_id pk) (pk_stream_id pk) (case off of None \<Rightarrow> 0 | Some n \<Rightarrow> n) out]
         else [])
      @ [Out_send addr (wire (ack_packet pk)) r] @ packet_out e pk addr"
proof -
  let ?c = "pk_connection_id pk"
  have len: "length (qe_connections e) = QUIC_MAX_CONNECTIONS"
    using assms(1) by (simp add: engine_ok_def conns_ok_def)
  note d = find_entry_D [OF assms(5)]
  define e2 where "e2 = seen_entry i addr (clk 0) e1"
  have conns2: "qe_connections e2 = (qe_connections e1)
      [i := (qe_connections e1 ! i)\<lparr>ce_last_seen := clk 0\<rparr>]"
    using d(1) assms(7) by (cases "qe_connections e1 ! i") (simp add: e2_def seen_entry_connections)
  have fl: "\<not> has_flag QUIC_FLAG_DATA QUIC_FLAG_CLOSE" "\<not> has_flag QUIC_FLAG_DATA QUIC_FLAG_ACK"
    "has_flag QUIC_FLAG_DATA QUIC_FLAG_DATA"
    by (simp_all add: has_flag_def QUIC_FLAG_DATA_def QUIC_FLAG_CLOSE_def QUIC_FLAG_ACK_def)
  have proc: "quic_engine_process_packet e pk addr (clk 0) (clk 1) = (0, e2, False, None)"
    using d(1) assms(6,7)
    by (simp add: process_known [OF assms(4,5)] process_entry_def Let_def assms(2) fl e2_def
        seen_entry_connections migration_notice_def)
  have e2: "qe_out e2 = qe_out e" "qe_stream_handler e2 = qe_stream_handler e" "qe_handler e2 = qe_handler e"
    by (simp_all add: e2_def assms(4) cleanup_out [OF len] cleanup_stream_handler [OF len] cleanup_handler [OF len])
  have find2: "quic_engine_find_entry_locked e2 ?c = Some i"
    using assms(5) slot_update_same(1) [OF d(1), of ce_in_use _ ce_connection_id ?c]
    by (simp add: find_entry_eq conns2)
  have ent2: "qe_connections e2 ! i = (qe_connections e1 ! i)\<lparr>ce_last_seen := clk 0\<rparr>"
    using d(1) by (simp add: conns2)
  define e3 where "e3 = update_entry i (\<lambda>c. c\<lparr>ce_stream_mgr := m\<rparr>) e2"
  define e4 where "e4 = (if rc = 0 \<and> 0 < length out
      then quic_engine_emit_stream_data e3 ?c (pk_stream_id pk) (case off of None \<Rightarrow> 0 | Some n \<Rightarrow> n) out
      else e3)"
  have data: "handle_data w (clk 3) e2 pk addr = snd (quic_engine_send w (clk 3) e4 (ack_packet pk) addr)"
    using assms(8) by (simp add: handle_data_def find2 ent2 e2 Let_def e3_def e4_def)
  have ctl: "packet_ok (ack_packet pk)" "\<not> has_flag (pk_flags (ack_packet pk)) QUIC_FLAG_DATA"
    by (simp_all add: ack_packet_def packet_ok_empty flag_values)
  have e4: "qe_connections e4 = qe_connections e3" "qe_handler e4 = qe_handler e"
    "qe_out e4 = qe_out e @ (if rc = 0 \<and> 0 < length out
         then [Out_stream ?c (pk_stream_id pk) (case off of None \<Rightarrow> 0 | Some n \<Rightarrow> n) out] else [])"
    by (simp_all add: e4_def e3_def e2 quic_engine_emit_stream_data_def assms(3))
  define e5 where "e5 = handle_data w (clk 3) e2 pk addr"
  have e5: "qe_connections e5 = qe_connections e3" "qe_handler e5 = qe_handler e"
    and out5: "qe_out e5 = qe_out e4 @ [Out_send addr (wire (ack_packet pk))
        (sendto_result w e4 addr (wire (ack_packet pk)))]"
    by (simp_all add: e5_def data e4 send_control_fields [OF ctl])
  have h: "handle_packet w clk e pk addr = (if qe_handler e5 then emit (Out_packet pk addr) e5 else e5)"
    by (simp add: handle_packet_def proc [unfolded One_nat_def] Let_def assms(2,3) fl e2 e5_def)
  show "qe_connections (handle_packet w clk e pk addr) = (qe_connections e1)
      [i := (qe_connections e1 ! i)\<lparr>ce_last_seen := clk 0, ce_stream_mgr := m\<rparr>]"
    using d(1) by (simp add: h e5 e3_def conns2)
  show "\<exists>r. qe_out (handle_packet w clk e pk addr) = qe_out e
      @ (if rc = 0 \<and> 0 < length out
         then [Out_stream ?c (pk_stream_id pk) (case off of None \<Rightarrow> 0 | Some n \<Rightarrow> n) out] else [])
      @ [Out_send addr (wire (ack_packet pk)) r] @ packet_out e pk addr"
    by (rule exI [of _ "sendto_result w e4 addr (wire (ack_packet pk))"])
      (simp add: h e5 out5 e4 packet_out_def)
qed

end
