(* ===== verification/Engine_Properties.thy ===== *)
theory Engine_Properties
  imports Engine_Control
begin

text \<open>
  The properties of the QUIC engine: well-formedness of every reachable engine, delivery in
  order, the handshake, which packets are let through, acknowledgement and retransmission, the
  end of a connection and the counters.
\<close>

section \<open>Properties: the invariant\<close>

text \<open>
  C2: Whatever datagrams arrive, whatever the clock and the network answer and whatever the
  program calls, in any order: the tables keep their sizes, no two connections in use have the
  same identifier, a slot is in use exactly when its connection is connecting or connected, its
  stream table keeps its shape, and a pending packet has retries left and holds its datagram.
\<close>

theorem engine_invariant:
  assumes "engine_reachable w e"
  shows "length (qe_connections e) = QUIC_MAX_CONNECTIONS \<and> length (qe_pending e) = QUIC_MAX_PENDING \<and>
     slots_unique ce_in_use ce_connection_id (qe_connections e) \<and>
     (\<forall>c \<in> set (qe_connections e). mgr_table (ce_stream_mgr c) \<and>
        (ce_in_use c \<longleftrightarrow> ce_state c = CONN_CONNECTING \<or> ce_state c = CONN_CONNECTED)) \<and>
     (\<forall>p \<in> set (qe_pending e). pe_in_use p \<longrightarrow> 0 \<le> pe_retries p \<and> pe_retries p < QUIC_MAX_RETRIES \<and>
        pe_len p = length (pe_buffer p) \<and> pe_len p \<le> QUIC_MAX_PACKET_SIZE)"
  using reachable_ok [OF assms]
  by (auto simp: engine_ok_def conns_ok_def pends_ok_def conn_ok_def pend_ok_def)

definition sample_world :: world where
  "sample_world = \<lparr>w_sendto = \<lambda>n addr d. int (length d), w_malloc = \<lambda>n. True, w_stack = \<lambda>i. 0\<rparr>"

definition sample_engine :: quic_engine where
  "sample_engine = snd (quic_engine_init 3 0 9443 True)"

lemma sample_reachable: "engine_reachable w sample_engine"
  by (rule engine_reachable.started [of 3 0 9443 True]) (simp add: sample_engine_def quic_engine_init_def Let_def)

theorem engine_invariant_witness:
  "length (qe_connections sample_engine) = QUIC_MAX_CONNECTIONS"
  using engine_invariant [OF sample_reachable [of sample_world]] by simp

text \<open>
  A lookup of the state of a connection never returns \<open>IDLE\<close> or \<open>CLOSED\<close>: a connection
  that is found is connecting or connected, and a call that closes it succeeds.
\<close>

theorem connection_states:
  assumes "engine_reachable w e"
  shows "quic_engine_get_connection_state e cid \<in> {None, Some CONN_CONNECTING, Some CONN_CONNECTED} \<and>
     (fst (quic_engine_close_connection w now e cid) = 0 \<longleftrightarrow>
        quic_engine_get_connection_state e cid \<noteq> None)"
proof -
  have ok: "conns_ok (qe_connections e)" using reachable_ok [OF assms] by (simp add: engine_ok_def)
  show ?thesis
  proof (cases "quic_engine_find_entry_locked e cid")
    case None
    then show ?thesis by (simp add: quic_engine_get_connection_state_def quic_engine_close_connection_def)
  next
    case (Some i)
    note d = find_entry_D [OF Some]
    have "ce_state (qe_connections e ! i) \<in> {CONN_CONNECTING, CONN_CONNECTED}"
      using conns_ok_D(3) [OF ok d(1)] d(2) by (auto simp: conn_ok_def)
    then show ?thesis
      by (auto simp: quic_engine_get_connection_state_def quic_engine_close_connection_def Some Let_def)
  qed
qed

theorem connection_states_witness:
  "fst (quic_engine_close_connection sample_world 0 sample_engine 7) \<noteq> 0"
  using connection_states [OF sample_reachable, of 7 sample_world 0]
  by (simp add: quic_engine_get_connection_state_def find_entry_eq sample_engine_def quic_engine_init_def
      Let_def zero_connection_def slot_find_def table_simps split: option.split)

section \<open>Properties: setting up a connection\<close>

text \<open>
  C3: The handshake: for a connection identifier that is not in the table, with a free slot,
  the peer's \<open>INITIAL\<close> packet is answered by exactly one datagram, the handshake packet, and the
  state callback sees \<open>CONNECTING\<close>; the peer's \<open>HANDSHAKE\<close> packet from the same address within
  the timeout makes it \<open>CONNECTED\<close> without another datagram. Afterwards the connection can be
  sent to at that address, and its streams are empty.
\<close>

theorem handshake_connects:
  assumes "engine_reachable w e" and "p1 = \<lparr>pk_flags = QUIC_FLAG_INITIAL, pk_connection_id = cid,
      pk_packet_number = n1, pk_stream_id = 0, pk_offset = 0, pk_length = 0, pk_payload = Some []\<rparr>"
    and "p2 = \<lparr>pk_flags = QUIC_FLAG_HANDSHAKE, pk_connection_id = cid,
      pk_packet_number = n2, pk_stream_id = 0, pk_offset = 0, pk_length = 0, pk_payload = Some []\<rparr>"
    and "cid \<notin> used_keys ce_in_use ce_connection_id (qe_connections e)"
    and "slots_used ce_in_use (qe_connections e) < QUIC_MAX_CONNECTIONS"
    and "clk2 0 - clk1 1 \<le> QUIC_CONNECTION_TIMEOUT" and "now - clk2 0 \<le> QUIC_CONNECTION_TIMEOUT"
    and "e' = engine_run w [Ev_recv clk1 (Recv_data (wire p1) addr), Ev_recv clk2 (Recv_data (wire p2) addr)] e"
  shows "quic_engine_get_connection_state e' cid = Some CONN_CONNECTED \<and>
     fst (quic_engine_get_connection e' cid now) = Some addr \<and>
     (\<exists>r. qe_out e' = qe_out e @ state_out e cid CONN_CONNECTING addr
        @ [Out_send addr (wire (handshake_packet cid)) r] @ packet_out e p1 addr
        @ state_out e cid CONN_CONNECTED addr @ packet_out e p2 addr) \<and>
     (\<exists>i. quic_engine_find_entry_locked e' cid = Some i \<and>
        ce_addr (qe_connections e' ! i) = addr \<and> ce_last_seen (qe_connections e' ! i) = clk2 0 \<and>
        ce_stream_mgr (qe_connections e' ! i) = quic_stream_manager_init)"
  by (rule handshake_run [OF assms])

definition sample_peer :: sockaddr_in where
  "sample_peer = \<lparr>sin_family = 2, sin_port = 5000, sin_addr = 1, sin_zero = []\<rparr>"

definition sample_packet_with :: "u8 \<Rightarrow> bytes \<Rightarrow> quic_packet" where
  "sample_packet_with fl d = \<lparr>pk_flags = fl, pk_connection_id = 7, pk_packet_number = 0,
     pk_stream_id = 0, pk_offset = 0, pk_length = word_of_nat (length d), pk_payload = Some d\<rparr>"

definition receive_at_0 :: "quic_packet \<Rightarrow> engine_event" where
  "receive_at_0 pk = Ev_recv (\<lambda>n. 0) (Recv_data (wire pk) sample_peer)"

definition connected_engine :: quic_engine where
  "connected_engine = engine_run sample_world [receive_at_0 (sample_packet_with QUIC_FLAG_INITIAL []),
     receive_at_0 (sample_packet_with QUIC_FLAG_HANDSHAKE [])] sample_engine"

lemma sample_engine_connections: "qe_connections sample_engine = replicate QUIC_MAX_CONNECTIONS zero_connection"
  by (simp add: sample_engine_def quic_engine_init_def Let_def)

lemma sample_engine_empty:
  "used_keys ce_in_use ce_connection_id (qe_connections sample_engine) = {}"
  "slots_used ce_in_use (qe_connections sample_engine) = 0"
  by (auto simp: sample_engine_connections used_keys_def slots_used_def zero_connection_def)

lemma connected_engine_run:
  "connected_engine = engine_run sample_world
      [Ev_recv (\<lambda>n. 0) (Recv_data (wire \<lparr>pk_flags = QUIC_FLAG_INITIAL, pk_connection_id = 7,
         pk_packet_number = 0, pk_stream_id = 0, pk_offset = 0, pk_length = 0, pk_payload = Some []\<rparr>) sample_peer),
       Ev_recv (\<lambda>n. 0) (Recv_data (wire \<lparr>pk_flags = QUIC_FLAG_HANDSHAKE, pk_connection_id = 7,
         pk_packet_number = 0, pk_stream_id = 0, pk_offset = 0, pk_length = 0, pk_payload = Some []\<rparr>) sample_peer)]
      sample_engine"
    by (simp add: connected_engine_def receive_at_0_def sample_packet_with_def)

lemma sample_connected:
  "quic_engine_get_connection_state connected_engine 7 = Some CONN_CONNECTED \<and>
     fst (quic_engine_get_connection connected_engine 7 0) = Some sample_peer \<and>
     (\<exists>i. quic_engine_find_entry_locked connected_engine 7 = Some i \<and>
        ce_addr (qe_connections connected_engine ! i) = sample_peer \<and>
        ce_last_seen (qe_connections connected_engine ! i) = 0 \<and>
        ce_stream_mgr (qe_connections connected_engine ! i) = quic_stream_manager_init)"
  using handshake_run [where ?clk1.0 = "\<lambda>n. 0" and ?clk2.0 = "\<lambda>n. 0" and now = 0,
        OF sample_reachable refl refl _ _ _ _ connected_engine_run]
  by (simp add: sample_engine_empty QUIC_CONNECTION_TIMEOUT_def QUIC_MAX_CONNECTIONS_def)

theorem handshake_connects_witness:
  "quic_engine_get_connection_state connected_engine 7 = Some CONN_CONNECTED \<and>
     fst (quic_engine_get_connection connected_engine 7 0) = Some sample_peer \<and>
     (\<exists>i. quic_engine_find_entry_locked connected_engine 7 = Some i \<and>
        ce_addr (qe_connections connected_engine ! i) = sample_peer \<and>
        ce_last_seen (qe_connections connected_engine ! i) = 0 \<and>
        ce_stream_mgr (qe_connections connected_engine ! i) = quic_stream_manager_init)"
  using handshake_connects [where ?clk1.0 = "\<lambda>n. 0" and ?clk2.0 = "\<lambda>n. 0" and now = 0,
        OF sample_reachable refl refl _ _ _ _ connected_engine_run]
  by (simp add: sample_engine_empty QUIC_CONNECTION_TIMEOUT_def QUIC_MAX_CONNECTIONS_def)

lemma reachable_run: "engine_reachable w e \<Longrightarrow> engine_reachable w (engine_run w evs e)"
  by (induction w evs e rule: engine_run.induct) (auto intro: engine_reachable.step engine_step.event)

lemma connected_reachable: "engine_reachable sample_world connected_engine"
  unfolding connected_engine_def by (intro reachable_run sample_reachable)

section \<open>Properties: data\<close>

text \<open>
  C1: Delivery in order: take any reachable engine in which a connection is open and nothing
  has arrived on its streams yet, and any run of events (packets of this and other connections,
  errors of the socket, calls of the interface) that does not end the connection and brings only
  data packets of it that carry bytes of the peer's streams \<open>B\<close>. Then what the stream callback
  is given for any stream of the connection during the run is a prefix of that stream, without a
  gap, a repetition or a byte of another connection.
\<close>

theorem engine_stream_in_order:
  assumes "engine_reachable w e" and "quic_engine_find_entry_locked e cid = Some i"
    and "ce_stream_mgr (qe_connections e ! i) = quic_stream_manager_init"
    and "run_keeps_open B cid w evs e"
  shows "\<exists>n. stream_out cid sid (qe_out (engine_run w evs e)) =
     stream_out cid sid (qe_out e) @ map (B sid) [0 ..< n]"
proof -
  have "next_of quic_stream_manager_init x = 0" for x
    by (simp add: next_of_def mgr_stream_init claim_stream_def)
  then have "progress B cid (\<lambda>sid. stream_out cid sid (qe_out e)) e"
    using assms(2,3) by (simp add: progress_def mgr_holds_init)
  from progress_run [OF reachable_ok [OF assms(1)] this assms(4)] show ?thesis
    by (auto simp: progress_def split: option.splits)
qed

lemma sample_fresh: "stays_fresh connected_engine 7 0"
  using sample_connected by (auto simp: stays_fresh_def expired_def QUIC_CONNECTION_TIMEOUT_def)

lemma sample_data_event:
  assumes "length d \<le> QUIC_MAX_PAYLOAD"
  shows "quic_packet_deserialize (Some (take QUIC_MAX_PACKET_SIZE (wire (sample_packet_with fl d)))) =
     Some (sample_packet_with fl d)"
proof -
  have n: "unat (word_of_nat (length d) :: u32) = length d"
    using assms by (simp add: unat_of_nat take_bit_nat_eq_self QUIC_MAX_PAYLOAD_def)
  then have ok: "packet_ok (sample_packet_with fl d)"
    using assms by (simp add: packet_ok_def packet_body_def sample_packet_with_def)
  have "packet_body (sample_packet_with fl d) = d"
    using n by (simp add: packet_body_def sample_packet_with_def)
  moreover have "take QUIC_MAX_PACKET_SIZE (wire (sample_packet_with fl d)) = wire (sample_packet_with fl d)"
    using length_wire [OF ok] ok by (simp add: packet_ok_def QUIC_MAX_PACKET_SIZE_def)
  ultimately show ?thesis
    using roundtrip [OF ok] by (simp add: sample_packet_with_def)
qed

theorem engine_stream_in_order_witness:
  "\<exists>n. stream_out 7 0 (qe_out (engine_run sample_world
       [receive_at_0 (sample_packet_with QUIC_FLAG_DATA [1, 2])] connected_engine)) =
     stream_out 7 0 (qe_out connected_engine) @ map (\<lambda>k. word_of_nat (k + 1)) [0 ..< n]"
proof -
  let ?B = "\<lambda>sid k. word_of_nat (k + 1)"
  have "packet_of ?B (sample_packet_with QUIC_FLAG_DATA [1, 2])"
    by (simp add: packet_of_def carries_def arrival_of_def sample_packet_with_def arrival_ok_def
        QUIC_MAX_PAYLOAD_def upt_rec)
  moreover have "\<not> has_flag QUIC_FLAG_DATA QUIC_FLAG_CLOSE"
    by (simp add: has_flag_def QUIC_FLAG_DATA_def QUIC_FLAG_CLOSE_def)
  ultimately have "run_keeps_open ?B 7 sample_world
      [receive_at_0 (sample_packet_with QUIC_FLAG_DATA [1, 2])] connected_engine"
    using sample_data_event [of "[1, 2]" QUIC_FLAG_DATA] sample_fresh
    by (simp add: receive_at_0_def QUIC_MAX_PAYLOAD_def) (simp add: sample_packet_with_def)
  moreover obtain i where "quic_engine_find_entry_locked connected_engine 7 = Some i"
    and "ce_stream_mgr (qe_connections connected_engine ! i) = quic_stream_manager_init"
    using sample_connected by blast
  ultimately show ?thesis
    using engine_stream_in_order [OF connected_reachable, where B = ?B and sid = 0] by blast
qed

text \<open>
  A data packet of an established connection, from its address: the bytes that became
  contiguous are given to the stream callback with the offset of the first, then exactly one
  acknowledgement with the packet's number goes to the peer, then the packet callback runs. Only
  this connection's streams and time stamp change (idle connections apart). The acknowledgement
  does not depend on \<open>rc\<close>: it is sent as well when the data was refused.
\<close>

theorem data_packet_handled:
  assumes "engine_reachable w e" and "pk_flags pk = QUIC_FLAG_DATA" and "qe_stream_handler e"
    and "e1 = quic_engine_cleanup_connections_locked e (clk 0)"
    and "quic_engine_find_entry_locked e1 (pk_connection_id pk) = Some i"
    and "ce_state (qe_connections e1 ! i) = CONN_CONNECTED" and "ce_addr (qe_connections e1 ! i) = addr"
    and "quic_stream_on_data (w_malloc w (length (qe_out e))) (ce_stream_mgr (qe_connections e1 ! i))
      (pk_stream_id pk) (pk_offset pk) (pk_payload pk) (pk_length pk) (Some QUIC_MAX_PAYLOAD)
      = (rc, m, off, out)"
  shows "qe_connections (handle_packet w clk e pk addr) = (qe_connections e1)
      [i := (qe_connections e1 ! i)\<lparr>ce_last_seen := clk 0, ce_stream_mgr := m\<rparr>] \<and>
    (\<exists>r. qe_out (handle_packet w clk e pk addr) = qe_out e
      @ (if rc = 0 \<and> 0 < length out
         then [Out_stream (pk_connection_id pk) (pk_stream_id pk) (case off of None \<Rightarrow> 0 | Some n \<Rightarrow> n) out]
         else [])
      @ [Out_send addr (wire (ack_packet pk)) r] @ packet_out e pk addr)"
  using handle_data_packet [where clk = clk and e = e and w = w, OF reachable_ok [OF assms(1)] assms(2-8)]
  by blast

definition streaming_engine :: quic_engine where
  "streaming_engine = quic_engine_set_stream_data_handler connected_engine True"

lemma streaming_reachable: "engine_reachable sample_world streaming_engine"
  using reachable_run [OF connected_reachable, of "[Ev_set_stream_data_handler True]"]
  by (simp add: streaming_engine_def)

lemma sample_streaming:
  obtains i where
    "quic_engine_find_entry_locked (quic_engine_cleanup_connections_locked streaming_engine 0) 7 = Some i"
    and "qe_connections (quic_engine_cleanup_connections_locked streaming_engine 0) ! i =
       qe_connections connected_engine ! i"
    and "ce_state (qe_connections connected_engine ! i) = CONN_CONNECTED"
    and "ce_addr (qe_connections connected_engine ! i) = sample_peer"
    and "ce_stream_mgr (qe_connections connected_engine ! i) = quic_stream_manager_init"
proof -
  obtain i where i: "quic_engine_find_entry_locked connected_engine 7 = Some i"
    and e: "ce_addr (qe_connections connected_engine ! i) = sample_peer"
      "ce_last_seen (qe_connections connected_engine ! i) = 0"
      "ce_stream_mgr (qe_connections connected_engine ! i) = quic_stream_manager_init"
    using sample_connected by blast
  have conns: "qe_connections streaming_engine = qe_connections connected_engine"
    by (simp add: streaming_engine_def quic_engine_set_stream_data_handler_def)
  have "ce_state (qe_connections connected_engine ! i) = CONN_CONNECTED"
    using sample_connected i by (simp add: quic_engine_get_connection_state_def)
  moreover have "quic_engine_find_entry_locked streaming_engine 7 = Some i"
    using i by (simp add: find_entry_eq conns)
  moreover have "\<not> expired 0 (qe_connections streaming_engine ! i)"
    using e by (simp add: conns expired_def QUIC_CONNECTION_TIMEOUT_def)
  ultimately show ?thesis
    using that cleanup_find [OF reachable_ok [OF streaming_reachable]] e conns by metis
qed

lemma sample_push:
  "stream_push (mgr_stream quic_stream_manager_init 0) 0 [5] 1 QUIC_MAX_PAYLOAD
     = (\<lparr>ss_stream_id = 0, ss_next_offset = 1, ss_segments = [], ss_in_use = True\<rparr>, [5])"
  unfolding mgr_stream_init
  by (simp add: stream_push_def claim_stream_def zero_stream_def consume_segments_def
      QUIC_MAX_PAYLOAD_def consume_loop.simps)

lemma sample_on_data:
  "\<exists>m. quic_stream_on_data True quic_stream_manager_init 0 0 (Some [5]) 1 (Some QUIC_MAX_PAYLOAD) =
     (0, m, Some 0, [5])"
proof -
  have room: "mgr_has_room quic_stream_manager_init 0"
    by (simp add: mgr_has_room_def slots_used_def quic_stream_manager_init_def zero_stream_def
        QUIC_STREAM_MAX_STREAMS_def)
  have off: "ss_next_offset (mgr_stream quic_stream_manager_init 0) = 0"
    unfolding mgr_stream_init by (simp add: claim_stream_def)
  have arr: "arrival_ok 0 [5] 1" "0 < QUIC_MAX_PAYLOAD"
    by (simp_all add: arrival_ok_def QUIC_MAX_PAYLOAD_def)
  show ?thesis
    by (rule on_data_accepts [OF mgr_ok_init arr room sample_push]) (auto simp: off)
qed

theorem data_packet_handled_witness:
  "\<exists>r. qe_out (handle_packet sample_world (\<lambda>n. 0) streaming_engine
         (sample_packet_with QUIC_FLAG_DATA [5]) sample_peer) =
     qe_out streaming_engine @ [Out_stream 7 0 0 [5],
       Out_send sample_peer (wire (ack_packet (sample_packet_with QUIC_FLAG_DATA [5]))) r]
     @ packet_out streaming_engine (sample_packet_with QUIC_FLAG_DATA [5]) sample_peer"
proof -
  obtain i where i: "quic_engine_find_entry_locked
      (quic_engine_cleanup_connections_locked streaming_engine ((\<lambda>n. 0) (0::nat))) 7 = Some i"
    and c: "qe_connections (quic_engine_cleanup_connections_locked streaming_engine ((\<lambda>n. 0) (0::nat))) ! i =
       qe_connections connected_engine ! i"
    and e: "ce_state (qe_connections connected_engine ! i) = CONN_CONNECTED"
      "ce_addr (qe_connections connected_engine ! i) = sample_peer"
      "ce_stream_mgr (qe_connections connected_engine ! i) = quic_stream_manager_init"
    using sample_streaming by auto
  obtain m where call: "quic_stream_on_data True quic_stream_manager_init 0 0 (Some [5]) 1
      (Some QUIC_MAX_PAYLOAD) = (0, m, Some 0, [5])"
    using sample_on_data by blast
  show ?thesis
    using data_packet_handled [where clk = "\<lambda>n. 0" and pk = "sample_packet_with QUIC_FLAG_DATA [5]"
        and i = i and addr = sample_peer and rc = 0 and m = m and off = "Some 0" and out = "[5]",
        OF streaming_reachable _ _ refl] i c e call
    by (simp add: streaming_engine_def quic_engine_set_stream_data_handler_def sample_packet_with_def
        sample_world_def)
qed

text \<open>
  C13: The acknowledgement is not a promise: when the stream table of the connection is full,
  the data of a new stream is dropped, nothing is given to the stream callback, no stream of the
  connection changes, and the packet is acknowledged all the same, so the peer will not send it
  again.
\<close>

theorem refused_data_acknowledged:
  assumes "engine_ok e" and "pk_flags pk = QUIC_FLAG_DATA" and "qe_stream_handler e"
    and "e1 = quic_engine_cleanup_connections_locked e (clk 0)"
    and "quic_engine_find_entry_locked e1 (pk_connection_id pk) = Some i"
    and "ce_state (qe_connections e1 ! i) = CONN_CONNECTED" and "ce_addr (qe_connections e1 ! i) = addr"
    and "mgr_full (ce_stream_mgr (qe_connections e1 ! i))"
    and "pk_stream_id pk \<notin> used_keys ss_in_use ss_stream_id (ce_stream_mgr (qe_connections e1 ! i))"
  shows "ce_stream_mgr (qe_connections (handle_packet w clk e pk addr) ! i)
       = ce_stream_mgr (qe_connections e1 ! i) \<and>
    (\<exists>r. qe_out (handle_packet w clk e pk addr) =
       qe_out e @ [Out_send addr (wire (ack_packet pk)) r] @ packet_out e pk addr)"
proof -
  let ?m = "ce_stream_mgr (qe_connections e1 ! i)"
  have room: "\<not> mgr_has_room ?m (pk_stream_id pk)"
    using assms(8,9) by (simp add: mgr_has_room_def mgr_full_def slot_find_None)
  then have call: "quic_stream_on_data (w_malloc w (length (qe_out e))) ?m (pk_stream_id pk)
      (pk_offset pk) (pk_payload pk) (pk_length pk) (Some QUIC_MAX_PAYLOAD) = (-1, ?m, None, [])"
    using assms(8) by (intro on_data_refuses [OF _ room]) (simp add: mgr_full_def)
  note H = handle_data_packet [where clk = clk and e = e and w = w,
      OF assms(1-7) call]
  from find_entry_D(1) [OF assms(5)] H show ?thesis by simp
qed

definition crowded_engine :: quic_engine where
  "crowded_engine = sample_engine\<lparr>qe_stream_handler := True, qe_connections :=
     (qe_connections sample_engine)[0 := \<lparr>ce_connection_id = 7, ce_addr = sample_peer, ce_last_seen = 0,
        ce_state = CONN_CONNECTED, ce_in_use = True, ce_stream_mgr = full_manager\<rparr>]\<rparr>"

lemma crowded_connections:
  "qe_connections crowded_engine = \<lparr>ce_connection_id = 7, ce_addr = sample_peer, ce_last_seen = 0,
     ce_state = CONN_CONNECTED, ce_in_use = True, ce_stream_mgr = full_manager\<rparr> # replicate 31 zero_connection"
  by (simp add: crowded_engine_def sample_engine_connections QUIC_MAX_CONNECTIONS_def numeral_eq_Suc)

lemma full_manager_table: "mgr_full full_manager" "mgr_table full_manager"
    "16 \<notin> used_keys ss_in_use ss_stream_id full_manager"
proof -
  have nth: "i < 16 \<Longrightarrow> ss_stream_id (full_manager ! i) = word_of_nat i" for i
    by (simp add: full_manager_def claim_stream_def)
  have inj: "i = j" if "i < 16" "j < 16" "(word_of_nat i :: u32) = word_of_nat j" for i j :: nat
    using that by (simp add: word_of_nat_eq_iff take_bit_nat_eq_self)
  show "mgr_full full_manager"
    by (simp add: mgr_full_def full_manager_def slots_used_def QUIC_STREAM_MAX_STREAMS_def
        claim_stream_def filter_map comp_def)
  show "mgr_table full_manager"
    using inj by (auto simp: mgr_table_def slots_unique_def full_manager_def QUIC_STREAM_MAX_STREAMS_def claim_stream_def)
  show "16 \<notin> used_keys ss_in_use ss_stream_id full_manager"
    by (auto simp: used_keys_def full_manager_def claim_stream_def upt_conv_Cons)
qed

lemma crowded_ok: "engine_ok crowded_engine"
proof -
  have ok: "engine_ok sample_engine" by (rule reachable_ok [OF sample_reachable [of sample_world]])
  then have "conns_ok (qe_connections crowded_engine)"
    using full_manager_table(2)
    by (auto simp: crowded_connections conns_ok_def conn_ok_def engine_ok_def slots_unique_def
        sample_engine_connections QUIC_MAX_CONNECTIONS_def nth_Cons zero_connection_def split: nat.splits)
  with ok show ?thesis by (simp add: engine_ok_def crowded_engine_def)
qed

theorem refused_data_acknowledged_witness:
  "\<exists>r. qe_out (handle_packet sample_world (\<lambda>n. 0) crowded_engine
         ((sample_packet_with QUIC_FLAG_DATA [5])\<lparr>pk_stream_id := 16\<rparr>) sample_peer) =
     qe_out crowded_engine @ [Out_send sample_peer
        (wire (ack_packet ((sample_packet_with QUIC_FLAG_DATA [5])\<lparr>pk_stream_id := 16\<rparr>))) r]
     @ packet_out crowded_engine ((sample_packet_with QUIC_FLAG_DATA [5])\<lparr>pk_stream_id := 16\<rparr>) sample_peer"
proof -
  let ?pk = "(sample_packet_with QUIC_FLAG_DATA [5])\<lparr>pk_stream_id := 16\<rparr>"
  have find: "quic_engine_find_entry_locked crowded_engine 7 = Some 0"
    by (simp add: quic_engine_find_entry_locked_def crowded_connections connection_is_def)
  have "\<not> expired 0 (qe_connections crowded_engine ! 0)"
    by (simp add: crowded_connections expired_def QUIC_CONNECTION_TIMEOUT_def)
  note C = cleanup_find [OF crowded_ok find this]
  show ?thesis
    using refused_data_acknowledged [where clk = "\<lambda>n. 0" and pk = ?pk and i = 0 and addr = sample_peer
        and w = sample_world, OF crowded_ok _ _ refl] C full_manager_table
    by (simp add: sample_packet_with_def crowded_connections) (simp add: crowded_engine_def)
qed

section \<open>Properties: packets that are not let through\<close>

lemma has_flag_or: "has_flag fl (a OR b) \<longleftrightarrow> has_flag fl a \<or> has_flag fl b"
  by (auto simp: has_flag_def bit.conj_disj_distrib or_eq_0_iff)

text \<open>Before a packet is looked at: its acknowledgement is booked and what has expired is removed.\<close>

definition acked :: "quic_engine \<Rightarrow> quic_packet \<Rightarrow> quic_engine" where
  "acked e pk = (if has_flag (pk_flags pk) QUIC_FLAG_ACK
      then quic_engine_ack_pending e (pk_connection_id pk) (pk_packet_number pk) else e)"

lemma acked_same:
  fixes e pk now
  assumes "engine_ok e"
  defines "e1 \<equiv> quic_engine_cleanup_connections_locked e now"
    and "e2 \<equiv> quic_engine_cleanup_connections_locked (acked e pk) now"
  shows "qe_connections e2 = qe_connections e1" and "qe_out e2 = qe_out e"
    and "quic_engine_find_entry_locked e2 c = quic_engine_find_entry_locked e1 c"
  using cleanup_ack(2,3) [OF assms(1), where pk = pk, folded acked_def, of now]
  by (simp_all add: e1_def e2_def find_entry_eq)

abbreviation (input) shown :: "quic_connection_entry \<Rightarrow> bool \<times> u64 \<times> quic_connection_state \<times> quic_stream_manager" where
  "shown c \<equiv> (ce_in_use c, ce_connection_id c, ce_state c, ce_stream_mgr c)"

lemma unknown_refused:
  assumes "engine_ok e" and "e1 = quic_engine_cleanup_connections_locked e (clk 0)"
    and "quic_engine_find_entry_locked e1 (pk_connection_id pk) = None"
    and "\<not> has_flag (pk_flags pk) QUIC_FLAG_INITIAL \<or> slots_used ce_in_use (qe_connections e1) = QUIC_MAX_CONNECTIONS"
  shows "qe_out (handle_packet w clk e pk addr) = qe_out e \<and> qe_connections (handle_packet w clk e pk addr) = qe_connections e1"
proof -
  define e2 where "e2 = quic_engine_cleanup_connections_locked (acked e pk) (clk 0)"
  have same: "qe_connections e2 = qe_connections e1" "qe_out e2 = qe_out e"
    "quic_engine_find_entry_locked e2 c = quic_engine_find_entry_locked e1 c" for c
    unfolding e2_def assms(2) by (simp_all add: acked_same [OF assms(1)])
  have "quic_engine_process_packet (acked e pk) pk addr (clk 0) (clk 1) = (-1, e2, False, None)"
  proof (cases "has_flag (pk_flags pk) QUIC_FLAG_INITIAL")
    case True
    moreover have "length (qe_connections e1) = QUIC_MAX_CONNECTIONS"
      using engine_ok_cleanup [OF assms(1), of "clk 0"] by (simp add: assms(2) engine_ok_def conns_ok_def)
    ultimately have "slot_free ce_in_use (qe_connections e2) = None" using assms(4) by (simp add: same slot_free_None)
    with assms(3) True show ?thesis by (simp add: process_full [OF e2_def] same)
  next
    case False
    with assms(3) show ?thesis by (simp add: process_unknown [OF e2_def] same)
  qed
  from handle_refused [OF this [unfolded acked_def]] show ?thesis by (simp add: same)
qed

lemma unready_refused:
  assumes "engine_ok e" and "e1 = quic_engine_cleanup_connections_locked e (clk 0)"
    and "quic_engine_find_entry_locked e1 (pk_connection_id pk) = Some i"
    and "ce_state (qe_connections e1 ! i) = CONN_CONNECTING"
    and "\<not> has_flag (pk_flags pk) (QUIC_FLAG_INITIAL OR QUIC_FLAG_HANDSHAKE)"
    and "\<not> has_flag (pk_flags pk) QUIC_FLAG_HANDSHAKE" and "\<not> has_flag (pk_flags pk) QUIC_FLAG_CLOSE"
  shows "qe_out (handle_packet w clk e pk addr) = qe_out e \<and>
     map shown (qe_connections (handle_packet w clk e pk addr)) = map shown (qe_connections e1)"
proof -
  define e2 where "e2 = quic_engine_cleanup_connections_locked (acked e pk) (clk 0)"
  have same: "qe_connections e2 = qe_connections e1" "qe_out e2 = qe_out e"
    "quic_engine_find_entry_locked e2 c = quic_engine_find_entry_locked e1 c" for c
    unfolding e2_def assms(2) by (simp_all add: acked_same [OF assms(1)])
  have i: "i < length (qe_connections e1)" using find_entry_D(1) [OF assms(3)] .
  have found: "quic_engine_find_entry_locked e2 (pk_connection_id pk) = Some i" using assms(3) by (simp add: same)
  have proc: "quic_engine_process_packet (acked e pk) pk addr (clk 0) (clk 1) =
      (-1, seen_entry i addr (clk 0) e2, False, migration_notice e2 i addr)"
    using i assms(4-7)
    by (simp add: process_known [OF e2_def found] process_entry_def Let_def seen_entry_connections same)
  have "map f ((qe_connections e1)[i := (qe_connections e1 ! i)\<lparr>ce_addr := addr, ce_last_seen := clk 0\<rparr>]) =
      map f (qe_connections e1)"
    if "f ((qe_connections e1 ! i)\<lparr>ce_addr := addr, ce_last_seen := clk 0\<rparr>) = f (qe_connections e1 ! i)"
    for f :: "quic_connection_entry \<Rightarrow> bool \<times> u64 \<times> quic_connection_state \<times> quic_stream_manager"
    using that by (simp add: map_update list_update_same_conv i)
  with handle_refused [OF proc [unfolded acked_def]] i show ?thesis
    by (simp add: same seen_entry_connections)
qed

text \<open>
  A packet of an unknown connection that does not ask to open one, one that asks while the
  table is full, and one of a connection whose handshake is not finished that does not belong to
  the handshake: no callback runs, no datagram is sent, and no connection changes its flag, its
  identifier, its state or its streams.
\<close>

theorem packets_refused:
  assumes "engine_reachable w e" and "e1 = quic_engine_cleanup_connections_locked e (clk 0)"
    and "quic_engine_find_entry_locked e1 (pk_connection_id pk) = None \<and>
        (\<not> has_flag (pk_flags pk) QUIC_FLAG_INITIAL \<or>
         slots_used ce_in_use (qe_connections e1) = QUIC_MAX_CONNECTIONS) \<or>
      (\<exists>i. quic_engine_find_entry_locked e1 (pk_connection_id pk) = Some i \<and>
        ce_state (qe_connections e1 ! i) = CONN_CONNECTING \<and>
        \<not> has_flag (pk_flags pk) QUIC_FLAG_INITIAL \<and>
        \<not> has_flag (pk_flags pk) QUIC_FLAG_HANDSHAKE \<and>
        \<not> has_flag (pk_flags pk) QUIC_FLAG_CLOSE)"
  shows "qe_out (handle_packet w clk e pk addr) = qe_out e \<and>
     map (\<lambda>c. (ce_in_use c, ce_connection_id c, ce_state c, ce_stream_mgr c))
       (qe_connections (handle_packet w clk e pk addr)) =
     map (\<lambda>c. (ce_in_use c, ce_connection_id c, ce_state c, ce_stream_mgr c)) (qe_connections e1)"
proof (cases "quic_engine_find_entry_locked e1 (pk_connection_id pk)")
  case None
  with assms(3) unknown_refused [where clk = clk, OF reachable_ok [OF assms(1)] assms(2)] show ?thesis by auto
next
  case (Some i)
  with assms(3) have "\<not> has_flag (pk_flags pk) (QUIC_FLAG_INITIAL OR QUIC_FLAG_HANDSHAKE)" by (simp add: has_flag_or)
  with Some assms(3) show ?thesis by (intro unready_refused [where clk = clk, OF reachable_ok [OF assms(1)] assms(2)]) auto
qed

theorem packets_refused_witness:
  "qe_out (handle_packet sample_world (\<lambda>n. 0) sample_engine (sample_packet_with QUIC_FLAG_DATA [5]) sample_peer)
     = qe_out sample_engine"
proof -
  have "length (qe_connections sample_engine) = QUIC_MAX_CONNECTIONS"
    by (simp add: sample_engine_connections)
  then have "quic_engine_find_entry_locked
      (quic_engine_cleanup_connections_locked sample_engine 0) 7 = None"
    by (auto simp: find_entry_eq slot_find_None cleanup_connections used_keys_def expire_cases
        sample_engine_connections zero_connection_def)
  then show ?thesis
    using packets_refused [where clk = "\<lambda>n. 0" and w = sample_world and addr = sample_peer
        and pk = "sample_packet_with QUIC_FLAG_DATA [5]", OF sample_reachable refl]
    by (simp add: sample_packet_with_def has_flag_def QUIC_FLAG_DATA_def QUIC_FLAG_INITIAL_def)
qed

section \<open>Properties: retransmission\<close>

text \<open>
  C12: However often the receive loop times out, and whatever the clock and the network say,
  the retransmissions of the packets pending at the start are bounded: each is sent at most three
  times minus the times it was retried before, 192 datagrams in all.
\<close>

theorem retransmission_bounded:
  assumes "engine_reachable w e"
  shows "sends (fold (quic_engine_retransmit_pending w) ticks e) \<le> sends e + total_budget e \<and>
     total_budget e \<le> 192"
proof -
  have "sends (fold (quic_engine_retransmit_pending w) ticks e) +
      total_budget (fold (quic_engine_retransmit_pending w) ticks e) \<le> sends e + total_budget e"
    if "engine_ok e" for e
    using that
  proof (induction ticks arbitrary: e)
    case (Cons t ticks)
    show ?case
      using Cons.IH [OF engine_ok_retransmit [OF Cons.prems], of w t] retransmit_budget [OF Cons.prems, of w t]
      by simp
  qed simp
  then show ?thesis
    using reachable_ok [OF assms] total_budget_bound by (metis add_leD1)
qed

theorem retransmission_bounded_witness:
  "sends (fold (quic_engine_retransmit_pending sample_world) [1, 2] connected_engine)
     \<le> sends connected_engine + total_budget connected_engine"
  using retransmission_bounded [OF connected_reachable] by blast

text \<open>
  Retransmission ends: when every pending packet has waited for the timeout, after three
  passes at least the timeout apart no packet is pending any more, whether the datagrams could be
  sent or not and whether the connection still exists or not.
\<close>

theorem retransmission_stops:
  assumes "engine_reachable w e" and "\<forall>p \<in> set (qe_pending e). pe_in_use p \<longrightarrow> pe_last_sent p + 1 \<le> t1"
    and "t1 + 1 \<le> t2" and "t2 + 1 \<le> t3"
  shows "\<forall>p \<in> set (qe_pending (quic_engine_retransmit_pending w t3
     (quic_engine_retransmit_pending w t2 (quic_engine_retransmit_pending w t1 e)))). \<not> pe_in_use p"
proof -
  have ok: "engine_ok e" by (rule reachable_ok [OF assms(1)])
  then have "all_waited 0 t1 e"
    using assms(2) by (auto simp: all_waited_def engine_ok_def pends_ok_def pend_ok_def QUIC_RETRANS_TIMEOUT_def)
  then have "all_waited (0 + 1 + 1 + 1) (t3 + 1) (quic_engine_retransmit_pending w t3
     (quic_engine_retransmit_pending w t2 (quic_engine_retransmit_pending w t1 e)))"
    using assms(3,4) by (intro retransmit_waited [OF _ retransmit_waited [OF _ retransmit_waited]]
        engine_ok_retransmit ok) (simp_all add: QUIC_RETRANS_TIMEOUT_def)
  then show ?thesis
    using waited_none [OF engine_ok_retransmit [OF engine_ok_retransmit [OF engine_ok_retransmit [OF ok]]]]
    by (simp add: QUIC_MAX_RETRIES_def)
qed

lemma sample_no_pending: "\<forall>p \<in> set (qe_pending sample_engine). \<not> pe_in_use p"
  by (simp add: sample_engine_def quic_engine_init_def Let_def zero_pending_def)

definition tracked_engine :: quic_engine where
  "tracked_engine = engine_exec sample_world
     (Ev_send 10 (sample_packet_with QUIC_FLAG_DATA []) sample_peer) sample_engine"

lemma tracked_reachable: "engine_reachable sample_world tracked_engine"
  using reachable_run [OF sample_reachable, of _ "[Ev_send 10 (sample_packet_with QUIC_FLAG_DATA []) sample_peer]"]
  by (simp add: tracked_engine_def)

text \<open>The packet is pending since time 10.\<close>

lemma sample_tracked:
  obtains p rest where "qe_pending tracked_engine = p # rest" and "\<forall>q \<in> set rest. \<not> pe_in_use q"
    and "pe_in_use p" and "pe_connection_id p = 7" and "pe_packet_number p = 0" and "pe_last_sent p = 10"
proof -
  let ?pk = "sample_packet_with QUIC_FLAG_DATA []"
  have ok: "packet_ok ?pk" by (simp add: packet_ok_empty sample_packet_with_def)
  have pend: "qe_pending sample_engine = zero_pending # replicate 63 zero_pending"
    by (simp add: sample_engine_def quic_engine_init_def Let_def QUIC_MAX_PENDING_def numeral_eq_Suc)
  have fl: "has_flag (pk_flags ?pk) QUIC_FLAG_DATA"
    by (simp add: has_flag_def QUIC_FLAG_DATA_def sample_packet_with_def)
  have len: "length (wire ?pk) \<noteq> 0" by (simp add: wire_def packet_header_def)
  have free: "\<not> pe_in_use zero_pending" by (simp add: zero_pending_def)
  have "\<exists>b n. qe_pending tracked_engine = claim_pending (pk_connection_id ?pk, pk_packet_number ?pk)
      (n, b, 10) zero_pending # replicate 63 zero_pending"
    unfolding tracked_engine_def engine_exec.simps send_wire [OF ok]
    using len fl free
    by (auto simp: Let_def sendto_result_def sample_world_def pend quic_engine_track_pending_def)
  then show ?thesis
    using that free by (auto simp: claim_pending_def sample_packet_with_def Let_def)
qed

theorem retransmission_stops_witness:
  "filter pe_in_use (qe_pending tracked_engine) \<noteq> [] \<and>
   filter pe_in_use (qe_pending (quic_engine_retransmit_pending sample_world 13
     (quic_engine_retransmit_pending sample_world 12 (quic_engine_retransmit_pending sample_world 11
       tracked_engine)))) = []"
proof -
  obtain p rest where "qe_pending tracked_engine = p # rest" "\<forall>q \<in> set rest. \<not> pe_in_use q"
      and "pe_in_use p" "pe_last_sent p = 10"
    by (rule sample_tracked)
  then have "\<forall>p \<in> set (qe_pending tracked_engine). pe_in_use p \<longrightarrow> pe_last_sent p + 1 \<le> 11"
    and "\<exists>p \<in> set (qe_pending tracked_engine). pe_in_use p" by auto
  then show ?thesis
    using retransmission_stops [OF tracked_reachable, of 11 12 13] by (auto simp: filter_empty_conv)
qed

text \<open>
  An acknowledgement for a connection's packet number releases one pending packet with that
  number, the first in the table, and nothing else; when numbers are not reused the packet is
  not sent again.
\<close>

theorem ack_stops_retransmission:
  assumes "slots_unique pe_in_use (\<lambda>p. (pe_connection_id p, pe_packet_number p)) (qe_pending e)"
  shows "slots_unique pe_in_use (\<lambda>p. (pe_connection_id p, pe_packet_number p))
       (qe_pending (quic_engine_ack_pending e cid pn)) \<and>
     used_keys pe_in_use (\<lambda>p. (pe_connection_id p, pe_packet_number p))
       (qe_pending (quic_engine_ack_pending e cid pn)) =
     used_keys pe_in_use (\<lambda>p. (pe_connection_id p, pe_packet_number p)) (qe_pending e) - {(cid, pn)} \<and>
     qe_connections (quic_engine_ack_pending e cid pn) = qe_connections e \<and>
     qe_out (quic_engine_ack_pending e cid pn) = qe_out e"
proof (cases "slot_find pe_in_use (\<lambda>p. (pe_connection_id p, pe_packet_number p)) (cid, pn) (qe_pending e)")
  case None
  then have "(cid, pn) \<notin> used_keys pe_in_use (\<lambda>p. (pe_connection_id p, pe_packet_number p)) (qe_pending e)"
    by (simp add: slot_find_None)
  with None assms show ?thesis by (simp add: quic_engine_ack_pending_def engine_searches)
next
  case (Some i)
  with assms pendings.release_keys [OF Some assms] pendings.release_unique [OF slot_find_SomeD(1) [OF Some] assms]
  show ?thesis by (simp add: quic_engine_ack_pending_def engine_searches)
qed

theorem ack_stops_retransmission_witness:
  "used_keys pe_in_use (\<lambda>p. (pe_connection_id p, pe_packet_number p)) (qe_pending tracked_engine) = {(7, 0)} \<and>
   used_keys pe_in_use (\<lambda>p. (pe_connection_id p, pe_packet_number p))
     (qe_pending (quic_engine_ack_pending tracked_engine 7 0)) = {}"
proof -
  obtain p rest where p: "qe_pending tracked_engine = p # rest" "\<forall>q \<in> set rest. \<not> pe_in_use q"
      "pe_in_use p" "pe_connection_id p = 7" "pe_packet_number p = 0"
    by (rule sample_tracked)
  have keys: "used_keys pe_in_use (\<lambda>p. (pe_connection_id p, pe_packet_number p)) (qe_pending tracked_engine)
      = {(7, 0)}"
    using p by (auto simp: used_keys_def)
  have "slots_unique pe_in_use (\<lambda>p. (pe_connection_id p, pe_packet_number p)) (qe_pending tracked_engine)"
    using p(2) by (auto simp: slots_unique_def p(1) nth_Cons split: nat.splits)
  from ack_stops_retransmission [OF this, of 7 0] keys show ?thesis by simp
qed

end
