(* ===== verification/Engine_Counters.thy ===== *)
theory Engine_Counters
  imports Engine_Properties
begin

text \<open>
  The end of a connection and the connection counters. The counters balance the table: opened
  minus closed is the number of connections in use, after any run in which no datagram carries
  both \<open>INITIAL\<close> and \<open>CLOSE\<close>; one that does is counted as closed but never as opened.
\<close>

section \<open>The balance of the counters\<close>

definition tally :: "quic_engine \<Rightarrow> u64" where
  "tally e = m_connections_opened (qe_metrics e) - m_connections_closed (qe_metrics e)
     - of_nat (slots_used ce_in_use (qe_connections e))"

lemma tally_same:
  assumes "qe_connections e' = qe_connections e"
    and "m_connections_opened (qe_metrics e') = m_connections_opened (qe_metrics e)"
    and "m_connections_closed (qe_metrics e') = m_connections_closed (qe_metrics e)"
  shows "tally e' = tally e"
  using assms by (simp add: tally_def)

lemma tally_counters [simp]:
  "tally (count_received e) = tally e" "tally (count_sent e) = tally e" "tally (count_migrated e) = tally e"
  "tally (count_opened e) = tally e + 1" "tally (count_closed e) = tally e - 1"
  "tally (emit out e) = tally e" "tally (quic_engine_clear_pending_for_connection e cid) = tally e"
  "tally (quic_engine_track_pending e pk b n now) = tally e" "tally (quic_engine_ack_pending e cid pn) = tally e"
  by (simp_all add: tally_def counters)

lemma tally_send [simp]: "tally (snd (quic_engine_send w now e pk addr)) = tally e"
  by (simp add: quic_engine_send_def engine_sendto_def Let_def split: option.split prod.split)

lemma tally_emit [simp]:
  "tally (quic_engine_emit_state e cid st addr) = tally e"
  "tally (quic_engine_emit_stream_data e cid sid off d) = tally e"
  "tally (quic_engine_send_handshake w now e addr cid) = tally e"
  by (simp_all add: quic_engine_emit_state_def quic_engine_emit_stream_data_def quic_engine_send_handshake_def)

lemma tally_update:
  assumes "i < length (qe_connections e)" and "\<And>c. ce_in_use (f c) = ce_in_use c"
  shows "tally (update_entry i f e) = tally e"
  using slot_update_same(4) [of i "qe_connections e" ce_in_use "f (qe_connections e ! i)" "\<lambda>_. ()"] assms
  by (simp add: tally_def)

lemma tally_release:
  assumes "i < length (qe_connections e)" and "ce_in_use (qe_connections e ! i)"
  shows "tally (update_entry i release_connection e) = tally e + 1"
proof -
  have "Suc (slots_used ce_in_use ((qe_connections e)[i := release_connection (qe_connections e ! i)]))
      = slots_used ce_in_use (qe_connections e)"
    using length_filter_update [OF assms(1), of ce_in_use "release_connection (qe_connections e ! i)"]
      assms(2) by (simp add: slots_used_def release_connection_def)
  then have "of_nat (slots_used ce_in_use (qe_connections e)) = (1 :: u64) +
      of_nat (slots_used ce_in_use ((qe_connections e)[i := release_connection (qe_connections e ! i)]))"
    by (metis of_nat_Suc)
  then show ?thesis by (simp add: tally_def)
qed

lemma tally_claim:
  assumes "slot_free ce_in_use (qe_connections e) = Some i"
  shows "tally (update_entry i (claim_connection c x) e) = tally e - 1"
  using connections.claim_count [OF assms, of c x] by (simp add: tally_def)

lemma expire_count:
  "slots_used ce_in_use (map (expire now) t) + length (filter (expired now) t) = slots_used ce_in_use t"
  by (induction t) (auto simp: slots_used_def expire_cases expired_def)

lemma tally_cleanup:
  assumes "engine_ok e"
  shows "tally (quic_engine_cleanup_connections_locked e now) = tally e"
proof -
  have len: "length (qe_connections e) = QUIC_MAX_CONNECTIONS"
    using assms by (simp add: engine_ok_def conns_ok_def)
  have "(of_nat (slots_used ce_in_use (qe_connections e)) :: u64) =
      of_nat (slots_used ce_in_use (map (expire now) (qe_connections e)))
      + of_nat (length (filter (expired now) (qe_connections e)))"
    by (metis expire_count of_nat_add)
  then show ?thesis by (simp add: tally_def cleanup_connections [OF len] cleanup_metrics [OF len])
qed

lemma tally_process_entry:
  assumes "i < length (qe_connections e)" and "ce_in_use (qe_connections e ! i)"
  shows "tally (fst (snd (process_entry e i pk addr created n))) =
     tally e + (if created \<and> \<not> has_flag (pk_flags pk) QUIC_FLAG_CLOSE then 1 else 0)"
  using assms
  by (simp add: process_entry_def Let_def tally_release tally_update)

lemma tally_process:
  assumes "engine_ok e" and "\<not> (has_flag (pk_flags pk) QUIC_FLAG_INITIAL \<and> has_flag (pk_flags pk) QUIC_FLAG_CLOSE)"
  shows "tally (fst (snd (quic_engine_process_packet e pk addr now t))) = tally e"
proof -
  define e1 where e1: "e1 = quic_engine_cleanup_connections_locked e now"
  have t1: "tally e1 = tally e" by (simp add: e1 tally_cleanup assms(1))
  show ?thesis
  proof (cases rule: process_cases [OF e1, where pk = pk and addr = addr and t = t,
        case_names known refused created])
    case (known i)
    note d = find_entry_D [OF known]
    obtain rc e2 n where pe: "process_entry (seen_entry i addr now e1) i pk addr False
        (migration_notice e1 i addr) = (rc, e2, n)" by (metis prod_cases3)
    have seen: "tally (seen_entry i addr now e1) = tally e1"
      by (simp add: seen_entry_def tally_update d(1))
    have "tally e2 = tally (seen_entry i addr now e1)"
      using tally_process_entry [of i "seen_entry i addr now e1" pk addr False "migration_notice e1 i addr"] d
      by (simp add: pe seen_entry_connections)
    then show ?thesis by (simp add: process_known [OF e1 known] pe seen t1)
  next
    case refused
    with t1 show ?thesis by simp
  next
    case (created i)
    let ?e = "update_entry i (claim_connection (pk_connection_id pk) (addr, t)) e1"
    obtain rc e2 n where pe: "process_entry ?e i pk addr True (Some (CONN_CONNECTING, addr))
        = (rc, e2, n)" by (metis prod_cases3)
    have "tally e2 = tally ?e + 1"
      using tally_process_entry [of i ?e pk addr True "Some (CONN_CONNECTING, addr)"] created(2) assms(2)
        slot_free_SomeD(1) [OF created(3)]
      by (simp add: pe connections.claim_used)
    then show ?thesis
      by (simp add: process_created [OF e1 created] pe tally_claim [OF created(3)] t1)
  qed
qed

lemma tally_handle_data: "tally (handle_data w now e pk addr) = tally e"
proof (cases "quic_engine_find_entry_locked e (pk_connection_id pk)")
  case None
  then show ?thesis by (simp add: handle_data_def)
next
  case (Some i)
  have upd: "tally (update_entry i (\<lambda>c. c\<lparr>ce_stream_mgr := m\<rparr>) e) = tally e" for m
    by (intro tally_update find_entry_D(1) [OF Some]) simp
  show ?thesis by (simp add: handle_data_def Some Let_def upd split: prod.split)
qed

lemma tally_handle_packet:
  assumes "engine_ok e" and "\<not> (has_flag (pk_flags pk) QUIC_FLAG_INITIAL \<and> has_flag (pk_flags pk) QUIC_FLAG_CLOSE)"
  shows "tally (handle_packet w clk e pk addr) = tally e"
proof -
  define e0 where "e0 = (if has_flag (pk_flags pk) QUIC_FLAG_ACK
      then quic_engine_ack_pending e (pk_connection_id pk) (pk_packet_number pk) else e)"
  obtain rc e1 hs n where pr: "quic_engine_process_packet e0 pk addr (clk 0) (clk 1) = (rc, e1, hs, n)"
    by (metis prod_cases4)
  have "engine_ok e0" and "tally e0 = tally e" using assms(1) by (simp_all add: e0_def engine_ok_ack)
  then have "tally e1 = tally e"
    using tally_process [of e0 pk addr "clk 0" "clk 1"] assms(2) pr by simp
  then show ?thesis
    by (simp add: handle_packet_def Let_def e0_def [symmetric] pr [unfolded One_nat_def] tally_handle_data
        split: option.split)
qed

lemma tally_retransmit: "tally (quic_engine_retransmit_pending w now e) = tally e"
proof -
  have one: "tally (retransmit_one w now i e) = tally e" for i e
    by (rule tally_same) (simp_all add: retransmit_one_def engine_sendto_def Let_def counters split: option.split)
  have "tally (fold (retransmit_one w now) is e) = tally e" for "is"
    by (induction "is" arbitrary: e) (simp_all add: one)
  then show ?thesis by (simp add: quic_engine_retransmit_pending_def)
qed

text \<open>A datagram that asks to open a connection and to close it.\<close>

fun opens_and_closes :: "engine_event \<Rightarrow> bool" where
  "opens_and_closes (Ev_recv clk (Recv_data datagram addr)) =
     (case quic_packet_deserialize (Some (take QUIC_MAX_PACKET_SIZE datagram)) of
        None \<Rightarrow> False
      | Some pk \<Rightarrow> has_flag (pk_flags pk) QUIC_FLAG_INITIAL \<and> has_flag (pk_flags pk) QUIC_FLAG_CLOSE)"
| "opens_and_closes _ = False"

lemma tally_get_connection:
  assumes "engine_ok e"
  shows "tally (snd (quic_engine_get_connection e cid now)) = tally e"
proof -
  let ?e = "quic_engine_cleanup_connections_locked e now"
  have "tally (update_entry i (\<lambda>c. c\<lparr>ce_last_seen := now\<rparr>) ?e) = tally ?e"
    if "quic_engine_find_entry_locked ?e cid = Some i" for i
    by (intro tally_update find_entry_D(1) [OF that]) simp
  then show ?thesis
    using tally_cleanup [OF assms, of now] by (simp add: quic_engine_get_connection_def Let_def split: option.split)
qed

lemma tally_exec:
  assumes "engine_ok e" and "\<not> opens_and_closes ev"
  shows "tally (engine_exec w ev e) = tally e"
proof (cases ev)
  case (Ev_recv clk r)
  show ?thesis
  proof (cases r)
    case (Recv_error err)
    then show ?thesis
      by (simp add: Ev_recv quic_engine_loop_step_def tally_retransmit tally_cleanup assms(1) split: errno.split)
  next
    case (Recv_data dg addr)
    then show ?thesis
      using assms by (simp add: Ev_recv quic_engine_loop_step_def Let_def tally_handle_packet split: option.splits)
  qed
next
  case (Ev_send_to_connection clk pk)
  then show ?thesis
    using tally_get_connection [OF assms(1), of "pk_connection_id pk" "clk 0"]
    by (auto simp: quic_engine_send_to_connection_def split: prod.split option.split)
next
  case (Ev_close now cid)
  then show ?thesis
    using find_entry_D [of e cid]
    by (simp add: quic_engine_close_connection_def quic_engine_send_close_def Let_def tally_release
        split: option.split)
next
  case (Ev_send now pk addr)
  then show ?thesis by simp
next
  case (Ev_get_connection now cid)
  then show ?thesis by (simp add: tally_get_connection assms(1))
qed (simp_all add: quic_engine_set_state_handler_def tally_def Let_def
    quic_engine_set_stream_data_handler_def quic_engine_set_recv_timeout_def quic_engine_stop_def)

lemma tally_init: "tally (snd (quic_engine_init sock bound port h)) = 0"
  by (simp add: tally_def quic_engine_init_def Let_def zero_metrics_def slots_used_def zero_connection_def)

lemma tally_run:
  "engine_ok e \<Longrightarrow> \<forall>ev \<in> set evs. \<not> opens_and_closes ev \<Longrightarrow> tally (engine_run w evs e) = tally e"
  by (induction w evs e rule: engine_run.induct) (simp_all add: tally_exec engine_ok_exec)

section \<open>Properties\<close>

text \<open>
  The counters tell the truth: after any run of a started engine without a datagram that
  carries both \<open>INITIAL\<close> and \<open>CLOSE\<close>, the connections opened minus the connections closed are the
  connections in use (modulo \<open>2^64\<close>), at most 32.
\<close>

theorem connections_counted:
  assumes "quic_engine_init sock bound port h = (0, e)" and "\<forall>ev \<in> set evs. \<not> opens_and_closes ev"
  shows "m_connections_opened (quic_engine_get_metrics (engine_run w evs e))
       - m_connections_closed (quic_engine_get_metrics (engine_run w evs e))
     = of_nat (slots_used ce_in_use (qe_connections (engine_run w evs e)))"
proof -
  have "engine_ok e" and "tally e = 0"
    using engine_ok_init [of sock bound port h] tally_init [of sock bound port h] assms(1) by simp_all
  then show ?thesis
    using tally_run [OF _ assms(2), of e w] by (simp add: tally_def quic_engine_get_metrics_def)
qed

theorem connections_counted_witness:
  "m_connections_opened (quic_engine_get_metrics (engine_run sample_world [Ev_close 0 7] sample_engine))
     - m_connections_closed (quic_engine_get_metrics (engine_run sample_world [Ev_close 0 7] sample_engine))
   = of_nat (slots_used ce_in_use (qe_connections (engine_run sample_world [Ev_close 0 7] sample_engine)))"
proof -
  have init: "quic_engine_init 3 0 9443 True = (0, sample_engine)"
    by (simp add: sample_engine_def quic_engine_init_def Let_def)
  show ?thesis by (rule connections_counted [OF init]) simp
qed

text \<open>
  The exception is real: a packet with \<open>INITIAL\<close> and \<open>CLOSE\<close> for an unknown identifier,
  when a slot is free, leaves the table as the clean-up left it in number and adds one to the
  closed connections only, so the counters drift apart by one for each such packet.
\<close>

theorem flash_connection_miscounted:
  assumes "engine_ok e" and "e1 = quic_engine_cleanup_connections_locked e now"
    and "quic_engine_find_entry_locked e1 (pk_connection_id pk) = None"
    and "slots_used ce_in_use (qe_connections e1) < QUIC_MAX_CONNECTIONS"
    and "has_flag (pk_flags pk) QUIC_FLAG_INITIAL" and "has_flag (pk_flags pk) QUIC_FLAG_CLOSE"
    and "quic_engine_process_packet e pk addr now t = (rc, e', hs, n)"
  shows "slots_used ce_in_use (qe_connections e') = slots_used ce_in_use (qe_connections e1) \<and>
    m_connections_opened (qe_metrics e') = m_connections_opened (qe_metrics e1) \<and>
    m_connections_closed (qe_metrics e') = m_connections_closed (qe_metrics e1) + 1 \<and> hs"
proof -
  have len: "length (qe_connections e1) = QUIC_MAX_CONNECTIONS"
    using engine_ok_cleanup [OF assms(1), of now] by (simp add: assms(2) engine_ok_def conns_ok_def)
  then obtain i where free: "slot_free ce_in_use (qe_connections e1) = Some i"
    using assms(4) slot_free_None [of ce_in_use "qe_connections e1"] by fastforce
  note i = slot_free_SomeD [OF free]
  let ?c = "claim_connection (pk_connection_id pk) (addr, t) (qe_connections e1 ! i)"
  have "slots_used ce_in_use ((qe_connections e1)[i := release_connection ?c]) =
      slots_used ce_in_use (qe_connections e1)"
    using slot_update_same(4) [OF i(1), of ce_in_use "release_connection ?c" "\<lambda>_. ()"] i(2)
    by (simp add: release_connection_def)
  moreover have "e' = count_closed (quic_engine_clear_pending_for_connection (update_entry i release_connection
      (update_entry i (claim_connection (pk_connection_id pk) (addr, t)) e1)) (pk_connection_id pk)) \<and> hs"
    using assms(7) unfolding process_created [OF assms(2,3,5) free]
    by (simp add: process_entry_def assms(6))
  ultimately show ?thesis using i(1) by (simp add: counters)
qed

theorem flash_connection_miscounted_witness:
  "m_connections_closed (qe_metrics (fst (snd (quic_engine_process_packet sample_engine
      (sample_packet_with (QUIC_FLAG_INITIAL OR QUIC_FLAG_CLOSE) []) sample_peer 0 0)))) = 1"
proof -
  let ?pk = "sample_packet_with (QUIC_FLAG_INITIAL OR QUIC_FLAG_CLOSE) []"
  define e1 where "e1 = quic_engine_cleanup_connections_locked sample_engine 0"
  have ok: "engine_ok sample_engine" by (rule reachable_ok [OF sample_reachable [of sample_world]])
  have len: "length (qe_connections sample_engine) = QUIC_MAX_CONNECTIONS"
    by (simp add: sample_engine_connections)
  have conns: "qe_connections e1 = replicate QUIC_MAX_CONNECTIONS zero_connection"
    unfolding e1_def cleanup_connections [OF len]
    by (simp add: sample_engine_connections expire_def expired_def zero_connection_def)
  have find: "quic_engine_find_entry_locked e1 (pk_connection_id ?pk) = None"
    by (auto simp: find_entry_eq slot_find_None conns used_keys_def zero_connection_def)
  have room: "slots_used ce_in_use (qe_connections e1) < QUIC_MAX_CONNECTIONS"
    by (simp add: conns slots_used_def zero_connection_def QUIC_MAX_CONNECTIONS_def)
  have fl: "has_flag (pk_flags ?pk) QUIC_FLAG_INITIAL" "has_flag (pk_flags ?pk) QUIC_FLAG_CLOSE"
    by (simp_all add: sample_packet_with_def has_flag_def QUIC_FLAG_INITIAL_def QUIC_FLAG_CLOSE_def)
  obtain rc e' hs n where proc: "quic_engine_process_packet sample_engine ?pk sample_peer 0 0 = (rc, e', hs, n)"
    by (metis prod_cases4)
  have "m_connections_closed (qe_metrics e1) = 0"
    unfolding e1_def cleanup_metrics [OF len]
    by (simp add: sample_engine_connections expired_def zero_connection_def)
      (simp add: sample_engine_def quic_engine_init_def Let_def zero_metrics_def)
  with flash_connection_miscounted [OF ok e1_def find room fl proc] proc show ?thesis by simp
qed

lemma drop_pending_gone:
  "pe_in_use (drop_pending_of ids p) \<Longrightarrow> pe_connection_id (drop_pending_of ids p) \<notin> ids"
  by (cases "pe_in_use p \<and> pe_connection_id p \<in> ids") (simp_all add: drop_pending_of_def release_pending_def)

text \<open>
  C9: Closing a connection that is open returns 0, removes it and all its pending packets,
  sends exactly one datagram, the close packet, to its last address, and reports \<open>CLOSED\<close>; every
  other connection is found where it was, unchanged. A second close of it returns an error.
\<close>

theorem close_ends_connection:
  assumes "engine_reachable w e" and "quic_engine_find_entry_locked e cid = Some i"
    and "quic_engine_close_connection w now e cid = (rc, e')"
  shows "rc = 0 \<and> quic_engine_find_entry_locked e' cid = None \<and>
     (\<forall>p \<in> set (qe_pending e'). pe_in_use p \<longrightarrow> pe_connection_id p \<noteq> cid) \<and>
     (\<exists>r. qe_out e' = qe_out e @ [Out_send (ce_addr (qe_connections e ! i)) (wire (close_packet cid)) r]
        @ state_out e cid CONN_CLOSED (ce_addr (qe_connections e ! i))) \<and>
     (\<forall>c j. c \<noteq> cid \<longrightarrow> quic_engine_find_entry_locked e c = Some j \<longrightarrow>
        quic_engine_find_entry_locked e' c = Some j \<and> qe_connections e' ! j = qe_connections e ! j) \<and>
     fst (quic_engine_close_connection w now e' cid) = -1"
proof -
  have ok: "conns_ok (qe_connections e)" using reachable_ok [OF assms(1)] by (simp add: engine_ok_def)
  note d = find_entry_D [OF assms(2)]
  have st: "ce_state (qe_connections e ! i) \<noteq> CONN_CLOSED"
    using conns_ok_D(3) [OF ok d(1)] d(2) by (auto simp: conn_ok_def)
  let ?addr = "ce_addr (qe_connections e ! i)"
  define e1 where "e1 = quic_engine_clear_pending_for_connection
      (count_closed (update_entry i release_connection e)) cid"
  have ctl: "packet_ok (close_packet cid)" "\<not> has_flag (pk_flags (close_packet cid)) QUIC_FLAG_DATA"
    by (simp_all add: close_packet_def packet_ok_empty flag_values)
  have e': "rc = 0" "e' = quic_engine_emit_state (snd (quic_engine_send w now e1 (close_packet cid) ?addr))
      cid CONN_CLOSED ?addr"
    using assms(3) st
    by (simp_all add: quic_engine_close_connection_def assms(2) Let_def quic_engine_send_close_def e1_def)
  have conns: "qe_connections e' = (qe_connections e)[i := release_connection (qe_connections e ! i)]"
    by (simp add: e'(2) e1_def)
  have pend: "qe_pending e' = map (drop_pending_of {cid}) (qe_pending e)"
    by (simp add: e'(2) send_control_fields [OF ctl] e1_def clear_pending_eq)
  have gone: "quic_engine_find_entry_locked e' cid = None"
    using connections.release_find [OF _ conns_ok_D(2) [OF ok], of cid i] assms(2)
    by (simp add: find_entry_eq conns)
  have others: "quic_engine_find_entry_locked e' c = Some j \<and> qe_connections e' ! j = qe_connections e ! j"
    if "c \<noteq> cid" "quic_engine_find_entry_locked e c = Some j" for c j
  proof -
    have "j \<noteq> i" using find_entry_D(3) [OF that(2)] d(3) that(1) by auto
    then show ?thesis
      using connections.release_find_other [of cid "qe_connections e" i c] assms(2) that
      by (simp add: find_entry_eq conns)
  qed
  have out: "qe_out e' = qe_out e @ [Out_send ?addr (wire (close_packet cid))
      (sendto_result w e1 ?addr (wire (close_packet cid)))] @ state_out e cid CONN_CLOSED ?addr"
    by (simp add: e'(2) quic_engine_emit_state_def send_control_fields [OF ctl] state_out_def) (simp add: e1_def)
  have "\<forall>p \<in> set (qe_pending e'). pe_in_use p \<longrightarrow> pe_connection_id p \<noteq> cid"
    using drop_pending_gone [where ids = "{cid}"] by (simp add: pend)
  moreover have "fst (quic_engine_close_connection w now e' cid) = -1"
    by (simp add: quic_engine_close_connection_def gone)
  ultimately show ?thesis using e'(1) gone others out by blast
qed

theorem close_ends_connection_witness:
  "quic_engine_find_entry_locked (snd (quic_engine_close_connection sample_world 0 connected_engine 7)) 7 = None"
proof -
  obtain i where i: "quic_engine_find_entry_locked connected_engine 7 = Some i"
    using sample_connected by blast
  show ?thesis
    using close_ends_connection [OF connected_reachable i, of 0] by (metis prod.collapse)
qed

end
