(* ===== verification/Engine_Threads.thy ===== *)
theory Engine_Threads
  imports Engine_Counters
begin

text \<open>
  The engine under several threads. The receive loop and the calls of other threads are cut where
  they hold no lock: between the lookup of a connection and the reassembly into it, between sending
  and the search for a free pending slot, and between the assignments that fill the slot. A critical
  section, a call of \<open>sendto\<close> and a callback are one step; any number of calls are on their way at any
  time. Without interleaving the steps give the operations of \<open>Quic_Engine\<close> again. On top of these
  schedules \<open>race_step\<close> allows for everything an access without the lock can do while others use the same
  memory: the streams of the entry in hand and the slot being filled may hold anything at any
  moment, and the results of the access may be anything. Even so the table of connections stays well
  formed, and the entry the loop has looked up is never given to another connection.
\<close>

section \<open>The receive loop\<close>

text \<open>Where the thread of \<open>quic_engine_loop\<close> is, with the packet at hand and its sender.\<close>

datatype loop_pc =
    L_recv
  | L_stopped
  | L_tick
  | L_ack_in quic_packet sockaddr_in
  | L_process quic_packet sockaddr_in
  | L_state quic_packet sockaddr_in bool "(quic_connection_state \<times> sockaddr_in) option"
  | L_handshake quic_packet sockaddr_in bool
  | L_data quic_packet sockaddr_in
  | L_found quic_packet sockaddr_in "nat option"
  | L_stream quic_packet sockaddr_in "u32 option" bytes
  | L_ack_out quic_packet sockaddr_in
  | L_handler quic_packet sockaddr_in

fun loop_next :: "world \<Rightarrow> (nat \<Rightarrow> int) \<Rightarrow> recv_result \<Rightarrow> quic_engine \<Rightarrow> loop_pc \<Rightarrow> quic_engine \<times> loop_pc" where
  "loop_next w clk (Recv_error err) e L_recv =
     (e, if \<not> qe_running e then L_stopped else case err of EAGAIN \<Rightarrow> L_tick | _ \<Rightarrow> L_recv)"
| "loop_next w clk (Recv_data datagram addr) e L_recv =
     (count_received e,
      case quic_packet_deserialize (Some (take QUIC_MAX_PACKET_SIZE datagram)) of
        None \<Rightarrow> L_recv
      | Some packet \<Rightarrow> L_ack_in packet addr)"
| "loop_next w clk r e L_stopped = (e, L_stopped)"
| "loop_next w clk r e (L_ack_in p addr) =
     (if has_flag (pk_flags p) QUIC_FLAG_ACK
      then quic_engine_ack_pending e (pk_connection_id p) (pk_packet_number p) else e, L_process p addr)"
| "loop_next w clk r e (L_process p addr) =
     (let (rc, e, handshake_needed, notify) = quic_engine_process_packet e p addr (clk 0) (clk 1)
      in (e, if rc \<noteq> 0 then L_recv else L_state p addr handshake_needed notify))"
| "loop_next w clk r e (L_state p addr handshake_needed notify) =
     (case notify of
        Some (st, a) \<Rightarrow> if st \<noteq> CONN_IDLE then quic_engine_emit_state e (pk_connection_id p) st a else e
      | None \<Rightarrow> e, L_handshake p addr handshake_needed)"
| "loop_next w clk r e (L_handshake p addr handshake_needed) =
     (if handshake_needed then quic_engine_send_handshake w (clk 2) e addr (pk_connection_id p) else e, L_data p addr)"
| "loop_next w clk r e (L_data p addr) =
     (e, if has_flag (pk_flags p) QUIC_FLAG_DATA \<and> qe_stream_handler e
         then L_found p addr (quic_engine_find_entry_locked e (pk_connection_id p)) else L_handler p addr)"
| "loop_next w clk r e (L_found p addr None) = (e, L_ack_out p addr)"
| "loop_next w clk r e (L_found p addr (Some i)) =
     (let (rc, mgr, out_offset, assembled) =
            quic_stream_on_data (w_malloc w (length (qe_out e))) (ce_stream_mgr (qe_connections e ! i)) (pk_stream_id p)
              (pk_offset p) (pk_payload p) (pk_length p) (Some QUIC_MAX_PAYLOAD)
      in (update_entry i (\<lambda>c. c\<lparr>ce_stream_mgr := mgr\<rparr>) e,
          if rc = 0 \<and> 0 < length assembled then L_stream p addr out_offset assembled else L_ack_out p addr))"
| "loop_next w clk r e (L_stream p addr out_offset assembled) =
     (quic_engine_emit_stream_data e (pk_connection_id p) (pk_stream_id p)
        (case out_offset of None \<Rightarrow> 0 | Some off \<Rightarrow> off) assembled, L_ack_out p addr)"
| "loop_next w clk r e (L_ack_out p addr) = (snd (quic_engine_send w (clk 3) e (ack_packet p) addr), L_handler p addr)"
| "loop_next w clk r e (L_handler p addr) = (if qe_handler e then emit (Out_packet p addr) e else e, L_recv)"
| "loop_next w clk r e L_tick =
     (quic_engine_retransmit_pending w (clk 1) (quic_engine_cleanup_connections_locked e (clk 0)), L_recv)"

section \<open>The calls of other threads\<close>

text \<open>The assignments of \<open>quic_engine_track_pending\<close> to the slot it has found, in their order.\<close>

datatype slot_write =
    W_in_use
  | W_connection_id u64
  | W_packet_number u32
  | W_len nat
  | W_buffer bytes
  | W_last_sent
  | W_retries

fun write_slot :: "int \<Rightarrow> slot_write \<Rightarrow> quic_pending_entry \<Rightarrow> quic_pending_entry" where
  "write_slot now W_in_use q = q\<lparr>pe_in_use := True\<rparr>"
| "write_slot now (W_connection_id cid) q = q\<lparr>pe_connection_id := cid\<rparr>"
| "write_slot now (W_packet_number pn) q = q\<lparr>pe_packet_number := pn\<rparr>"
| "write_slot now (W_len n) q = q\<lparr>pe_len := n\<rparr>"
| "write_slot now (W_buffer d) q = q\<lparr>pe_buffer := d\<rparr>"
| "write_slot now W_last_sent q = q\<lparr>pe_last_sent := now\<rparr>"
| "write_slot now W_retries q = q\<lparr>pe_retries := 0\<rparr>"

definition slot_writes :: "quic_packet \<Rightarrow> bytes \<Rightarrow> nat \<Rightarrow> slot_write list" where
  "slot_writes p buffer len =
     [W_in_use, W_connection_id (pk_connection_id p), W_packet_number (pk_packet_number p), W_len len]
     @ (if QUIC_MAX_PACKET_SIZE < len then [W_len QUIC_MAX_PACKET_SIZE] else [])
     @ [W_buffer (take (min len QUIC_MAX_PACKET_SIZE) buffer), W_last_sent, W_retries]"

lemma slot_written:
  "fold (write_slot now) (slot_writes p buffer len) q = claim_pending (pk_connection_id p, pk_packet_number p) (len, buffer, now) q"
  by (simp add: slot_writes_def claim_pending_def Let_def)

datatype caller =
    Close u64
  | Close_send u64 sockaddr_in
  | Close_report u64 sockaddr_in
  | Send_to quic_packet
  | Send quic_packet sockaddr_in
  | Track quic_packet bytes nat
  | Store "slot_write list" nat

fun caller_next :: "world \<Rightarrow> int \<Rightarrow> quic_engine \<Rightarrow> caller \<Rightarrow> quic_engine \<times> caller option" where
  "caller_next w now e (Close cid) =
     (case quic_engine_find_entry_locked e cid of
        Some i \<Rightarrow>
          if ce_state (qe_connections e ! i) \<noteq> CONN_CLOSED
          then (quic_engine_clear_pending_for_connection (count_closed (update_entry i release_connection e)) cid,
                Some (Close_send cid (ce_addr (qe_connections e ! i))))
          else (e, None)
      | None \<Rightarrow> (e, None))"
| "caller_next w now e (Close_send cid addr) = (quic_engine_send_close w now e addr cid, Some (Close_report cid addr))"
| "caller_next w now e (Close_report cid addr) = (quic_engine_emit_state e cid CONN_CLOSED addr, None)"
| "caller_next w now e (Send_to p) =
     (let (found, e) = quic_engine_get_connection e (pk_connection_id p) now in (e, map_option (Send p) found))"
| "caller_next w now e (Send p addr) =
     (case quic_packet_serialize (Some p) (Some (stack_buffer w)) of
        None \<Rightarrow> (e, None)
      | Some (buffer, len) \<Rightarrow>
          let (sent, e) = engine_sendto w e addr (take len buffer)
          in if sent < 0 \<or> nat sent \<noteq> len then (e, None) else (count_sent e, Some (Track p buffer len)))"
| "caller_next w now e (Track p buffer len) =
     (e, if len = 0 \<or> \<not> has_flag (pk_flags p) QUIC_FLAG_DATA then None
         else map_option (Store (slot_writes p buffer len)) (first_idx (\<lambda>q. \<not> pe_in_use q) (qe_pending e)))"
| "caller_next w now e (Store [] i) = (e, None)"
| "caller_next w now e (Store (wr # ws) i) =
     (e\<lparr>qe_pending := (qe_pending e)[i := write_slot now wr (qe_pending e ! i)]\<rparr>, Some (Store ws i))"

text \<open>The calls that are one critical section, or none.\<close>

fun atomic_call :: "engine_event \<Rightarrow> bool" where
  "atomic_call (Ev_get_connection now cid) = True"
| "atomic_call (Ev_set_state_handler h) = True"
| "atomic_call (Ev_set_stream_data_handler h) = True"
| "atomic_call (Ev_set_recv_timeout s) = True"
| "atomic_call Ev_stop = True"
| "atomic_call ev = False"

fun entry_point :: "caller \<Rightarrow> bool" where
  "entry_point (Close cid) = True"
| "entry_point (Send_to p) = True"
| "entry_point (Send p addr) = True"
| "entry_point c = False"

section \<open>Interleaving\<close>

type_synonym threads = "quic_engine \<times> loop_pc \<times> caller list"

inductive thread_step :: "world \<Rightarrow> threads \<Rightarrow> threads \<Rightarrow> bool" where
  loop: "loop_next w clk r e pc = (e', pc') \<Longrightarrow> thread_step w (e, pc, cs) (e', pc', cs)"
| enter: "entry_point c \<Longrightarrow> thread_step w (e, pc, cs) (e, pc, c # cs)"
| leave: "caller_next w now e c = (e', None) \<Longrightarrow> thread_step w (e, pc, cs @ c # ds) (e', pc, cs @ ds)"
| go_on: "caller_next w now e c = (e', Some c') \<Longrightarrow> thread_step w (e, pc, cs @ c # ds) (e', pc, cs @ c' # ds)"
| call: "atomic_call ev \<Longrightarrow> thread_step w (e, pc, cs) (engine_exec w ev e, pc, cs)"

inductive thread_reachable :: "world \<Rightarrow> threads \<Rightarrow> bool" where
  started: "quic_engine_init sock bound port h = (0, e) \<Longrightarrow> thread_reachable w (e, L_recv, [])"
| step: "thread_reachable w s \<Longrightarrow> thread_step w s s' \<Longrightarrow> thread_reachable w s'"

inductive_cases thread_stepE: "thread_step w s s'"

section \<open>Without interleaving\<close>

abbreviation thread_run :: "world \<Rightarrow> threads \<Rightarrow> threads \<Rightarrow> bool" where
  "thread_run w \<equiv> (thread_step w)\<^sup>*\<^sup>*"

lemma loop_one: "loop_next w clk r e pc = (e1, pc1) \<Longrightarrow> thread_run w (e, pc, cs) (e1, pc1, cs)"
  by (blast intro: r_into_rtranclp thread_step.loop)

lemma call_one:
  "caller_next w now e c = (e1, c') \<Longrightarrow>
     thread_run w (e, pc, c # cs) (e1, pc, (case c' of None \<Rightarrow> cs | Some d \<Rightarrow> d # cs))"
  using thread_step.leave [of w now e c e1 pc "[]" cs] thread_step.go_on [of w now e c e1 _ pc "[]" cs]
  by (auto split: option.split)

lemma enter_one: "entry_point c \<Longrightarrow> thread_run w (e, pc, cs) (e, pc, c # cs)"
  by (blast intro: r_into_rtranclp thread_step.enter)

lemmas run_trans [trans] = rtranclp_trans [of "thread_step w" for w]

lemma data_refines:
  fixes clk :: "nat \<Rightarrow> int"
  shows "thread_run w (e, L_found p addr (quic_engine_find_entry_locked e (pk_connection_id p)), cs)
    (handle_data w (clk 3) e p addr, L_handler p addr, cs)"
proof -
  have ack: "thread_run w (e', L_ack_out p addr, cs)
      (snd (quic_engine_send w (clk 3) e' (ack_packet p) addr), L_handler p addr, cs)" for e'
    by (rule loop_one [of w clk r]) simp
  show ?thesis
  proof (cases "quic_engine_find_entry_locked e (pk_connection_id p)")
    case None
    have "thread_run w (e, L_found p addr None, cs) (e, L_ack_out p addr, cs)" by (rule loop_one [of w clk r]) simp
    also note ack
    finally show ?thesis by (simp add: handle_data_def None)
  next
    case (Some i)
    obtain rc mgr off d where on: "quic_stream_on_data (w_malloc w (length (qe_out e))) (ce_stream_mgr (qe_connections e ! i))
        (pk_stream_id p) (pk_offset p) (pk_payload p) (pk_length p) (Some QUIC_MAX_PAYLOAD) = (rc, mgr, off, d)"
      by (metis prod_cases4)
    define e1 where "e1 = update_entry i (\<lambda>c. c\<lparr>ce_stream_mgr := mgr\<rparr>) e"
    have "thread_run w (e, L_found p addr (Some i), cs)
        (e1, if rc = 0 \<and> 0 < length d then L_stream p addr off d else L_ack_out p addr, cs)"
      by (rule loop_one [of w clk r]) (simp add: on e1_def)
    also have "thread_run w \<dots> (if rc = 0 \<and> 0 < length d then quic_engine_emit_stream_data e1 (pk_connection_id p) (pk_stream_id p)
        (case off of None \<Rightarrow> 0 | Some off \<Rightarrow> off) d else e1, L_ack_out p addr, cs)"
    proof (cases "rc = 0 \<and> 0 < length d")
      case True
      then show ?thesis by (simp only: if_True, intro loop_one [of w clk r]) (simp split: option.split)
    next
      case False
      then show ?thesis by (simp only: if_False rtranclp.rtrancl_refl)
    qed
    also note ack
    finally show ?thesis unfolding e1_def handle_data_def Let_def Some by (simp add: on split del: if_split)
  qed
qed

lemma packet_refines: "thread_run w (e, L_ack_in p addr, cs) (handle_packet w clk e p addr, L_recv, cs)"
proof -
  define e0 where "e0 = (if has_flag (pk_flags p) QUIC_FLAG_ACK
      then quic_engine_ack_pending e (pk_connection_id p) (pk_packet_number p) else e)"
  obtain rc e1 hs n where pr: "quic_engine_process_packet e0 p addr (clk 0) (clk 1) = (rc, e1, hs, n)"
    by (metis prod_cases4)
  define e2 where "e2 = (case n of Some (st, a) \<Rightarrow> if st \<noteq> CONN_IDLE then quic_engine_emit_state e1 (pk_connection_id p) st a else e1
      | None \<Rightarrow> e1)"
  define e3 where "e3 = (if hs then quic_engine_send_handshake w (clk 2) e2 addr (pk_connection_id p) else e2)"
  define e4 where "e4 = (if has_flag (pk_flags p) QUIC_FLAG_DATA \<and> qe_stream_handler e3 then handle_data w (clk 3) e3 p addr else e3)"
  have h: "handle_packet w clk e p addr = (if rc \<noteq> 0 then e1 else if qe_handler e4 then emit (Out_packet p addr) e4 else e4)"
    unfolding handle_packet_def Let_def e0_def [symmetric] pr prod.case e2_def [symmetric] e3_def [symmetric] e4_def [symmetric]
    by (rule refl)
  have "thread_run w (e, L_ack_in p addr, cs) (e0, L_process p addr, cs)"
    by (rule loop_one [of w clk r]) (simp add: e0_def)
  also have "thread_run w \<dots> (e1, if rc \<noteq> 0 then L_recv else L_state p addr hs n, cs)"
    by (rule loop_one [of w clk r]) (simp add: pr del: One_nat_def)
  also have "thread_run w \<dots> (handle_packet w clk e p addr, L_recv, cs)"
  proof (cases "rc = 0")
    case True
    have "thread_run w (e1, L_state p addr hs n, cs) (e2, L_handshake p addr hs, cs)"
      by (rule loop_one [of w clk r]) (simp only: loop_next.simps e2_def)
    also have "thread_run w \<dots> (e3, L_data p addr, cs)" by (rule loop_one [of w clk r]) (simp only: loop_next.simps e3_def)
    also have "thread_run w \<dots> (e4, L_handler p addr, cs)"
    proof (cases "has_flag (pk_flags p) QUIC_FLAG_DATA \<and> qe_stream_handler e3")
      case True
      have "thread_run w (e3, L_data p addr, cs) (e3, L_found p addr (quic_engine_find_entry_locked e3 (pk_connection_id p)), cs)"
        by (rule loop_one [of w clk r]) (simp add: True)
      also note data_refines [of w e3 p addr cs clk]
      finally show ?thesis using True by (simp add: e4_def)
    next
      case False
      then have "e4 = e3" unfolding e4_def by (rule if_not_P)
      then show ?thesis using False by (intro loop_one [of w clk r]) simp
    qed
    also have "thread_run w \<dots> (if qe_handler e4 then emit (Out_packet p addr) e4 else e4, L_recv, cs)"
      by (rule loop_one [of w clk r]) simp
    finally show ?thesis using True by (simp add: h)
  qed (simp add: h)
  finally show ?thesis .
qed

lemma loop_refines:
  "thread_run w (e, L_recv, cs)
     (snd (quic_engine_loop_step w clk e r), if fst (quic_engine_loop_step w clk e r) then L_recv else L_stopped, cs)"
proof (cases r)
  case (Recv_error err)
  show ?thesis
  proof (cases "qe_running e \<and> err = EAGAIN")
    case True
    have "thread_run w (e, L_recv, cs) (e, L_tick, cs)"
      by (rule loop_one [of w clk r]) (simp add: Recv_error True)
    also have "thread_run w \<dots> (quic_engine_retransmit_pending w (clk 1) (quic_engine_cleanup_connections_locked e (clk 0)), L_recv, cs)"
      by (rule loop_one [of w clk r]) simp
    finally show ?thesis using True by (simp add: Recv_error quic_engine_loop_step_def)
  next
    case False
    then show ?thesis
      by (intro loop_one [of w clk r]) (auto simp: Recv_error quic_engine_loop_step_def split: errno.split)
  qed
next
  case (Recv_data d addr)
  show ?thesis
  proof (cases "quic_packet_deserialize (Some (take QUIC_MAX_PACKET_SIZE d))")
    case None
    then show ?thesis by (intro loop_one [of w clk r]) (simp add: Recv_data quic_engine_loop_step_def Let_def)
  next
    case (Some p)
    have "thread_run w (e, L_recv, cs) (count_received e, L_ack_in p addr, cs)"
      by (rule loop_one [of w clk r]) (simp add: Recv_data Some)
    also note packet_refines [of w "count_received e" p addr cs clk]
    finally show ?thesis by (simp add: Recv_data quic_engine_loop_step_def Let_def Some)
  qed
qed

lemma close_refines: "thread_run w (e, pc, cs) (snd (quic_engine_close_connection w now e cid), pc, cs)"
proof -
  have "thread_run w (e, pc, cs) (e, pc, Close cid # cs)" by (rule enter_one) simp
  also have "thread_run w \<dots> (snd (quic_engine_close_connection w now e cid), pc, cs)"
  proof (cases "\<exists>i. quic_engine_find_entry_locked e cid = Some i \<and> ce_state (qe_connections e ! i) \<noteq> CONN_CLOSED")
    case True
    then obtain i where i: "quic_engine_find_entry_locked e cid = Some i" "ce_state (qe_connections e ! i) \<noteq> CONN_CLOSED" by blast
    define e1 where "e1 = quic_engine_clear_pending_for_connection (count_closed (update_entry i release_connection e)) cid"
    let ?a = "ce_addr (qe_connections e ! i)"
    have "thread_run w (e, pc, Close cid # cs) (e1, pc, Close_send cid ?a # cs)"
      using call_one [of w now e "Close cid" e1 "Some (Close_send cid ?a)"] i by (simp add: e1_def)
    also have "thread_run w \<dots> (quic_engine_send_close w now e1 ?a cid, pc, Close_report cid ?a # cs)"
      using call_one [of w now e1 "Close_send cid ?a" _ "Some (Close_report cid ?a)"] by simp
    also have "thread_run w \<dots> (quic_engine_emit_state (quic_engine_send_close w now e1 ?a cid) cid CONN_CLOSED ?a, pc, cs)"
      using call_one [of w now "quic_engine_send_close w now e1 ?a cid" "Close_report cid ?a" _ None] by simp
    finally show ?thesis using i by (simp add: quic_engine_close_connection_def Let_def flip: e1_def)
  next
    case False
    then have "caller_next w now e (Close cid) = (e, None)" "snd (quic_engine_close_connection w now e cid) = e"
      by (auto simp: quic_engine_close_connection_def split: option.split)
    then show ?thesis using call_one [of w now e "Close cid" e None] by simp
  qed
  finally show ?thesis .
qed

lemma store_refines:
  assumes "i < length (qe_pending e)"
  shows "thread_run w (e, pc, Store ws i # cs)
    (e\<lparr>qe_pending := (qe_pending e)[i := fold (write_slot now) ws (qe_pending e ! i)]\<rparr>, pc, cs)"
  using assms
proof (induction ws arbitrary: e)
  case Nil
  then show ?case using call_one [of w now e "Store [] i" e None] by simp
next
  case (Cons wr ws)
  let ?e = "e\<lparr>qe_pending := (qe_pending e)[i := write_slot now wr (qe_pending e ! i)]\<rparr>"
  have "thread_run w (e, pc, Store (wr # ws) i # cs) (?e, pc, Store ws i # cs)"
    using call_one [of w now e "Store (wr # ws) i" ?e "Some (Store ws i)"] by simp
  also have "thread_run w \<dots> (?e\<lparr>qe_pending := (qe_pending ?e)[i := fold (write_slot now) ws (qe_pending ?e ! i)]\<rparr>, pc, cs)"
    using Cons.prems by (intro Cons.IH) simp
  finally show ?case using Cons.prems by simp
qed

lemma track_refines:
  "thread_run w (e, pc, Track p buffer len # cs) (quic_engine_track_pending e p buffer len now, pc, cs)"
proof (cases "len = 0 \<or> \<not> has_flag (pk_flags p) QUIC_FLAG_DATA \<or> first_idx (\<lambda>q. \<not> pe_in_use q) (qe_pending e) = None")
  case True
  then have "caller_next w now e (Track p buffer len) = (e, None)" "quic_engine_track_pending e p buffer len now = e"
    by (auto simp: quic_engine_track_pending_def)
  then show ?thesis using call_one [of w now e "Track p buffer len" e None] by simp
next
  case False
  then obtain i where i: "first_idx (\<lambda>q. \<not> pe_in_use q) (qe_pending e) = Some i" by auto
  have "thread_run w (e, pc, Track p buffer len # cs) (e, pc, Store (slot_writes p buffer len) i # cs)"
    using call_one [of w now e "Track p buffer len" e "Some (Store (slot_writes p buffer len) i)"] False i by simp
  also note store_refines [OF first_idx_less [OF i], of w pc _ cs now]
  finally show ?thesis using False i by (simp add: quic_engine_track_pending_def slot_written)
qed

lemma send_refines: "thread_run w (e, pc, Send p addr # cs) (snd (quic_engine_send w now e p addr), pc, cs)"
proof (cases "quic_packet_serialize (Some p) (Some (stack_buffer w))")
  case None
  then show ?thesis using call_one [of w now e "Send p addr" e None] by (simp add: quic_engine_send_def)
next
  case (Some x)
  then obtain buffer len where s: "quic_packet_serialize (Some p) (Some (stack_buffer w)) = Some (buffer, len)" by (cases x) simp
  obtain sent e1 where t: "engine_sendto w e addr (take len buffer) = (sent, e1)" by fastforce
  show ?thesis
  proof (cases "sent < 0 \<or> nat sent \<noteq> len")
    case True
    then show ?thesis
      using call_one [of w now e "Send p addr" e1 None] by (simp add: quic_engine_send_def s t)
  next
    case False
    have "thread_run w (e, pc, Send p addr # cs) (count_sent e1, pc, Track p buffer len # cs)"
      using call_one [of w now e "Send p addr" "count_sent e1" "Some (Track p buffer len)"] False by (simp add: s t)
    also note track_refines [of w "count_sent e1" pc p buffer len cs now]
    finally show ?thesis using False by (simp add: quic_engine_send_def s t)
  qed
qed

lemma send_to_refines: "thread_run w (e, pc, cs) (snd (quic_engine_send_to_connection w clk e p), pc, cs)"
proof -
  obtain found e1 where g: "quic_engine_get_connection e (pk_connection_id p) (clk 0) = (found, e1)" by fastforce
  have "thread_run w (e, pc, cs) (e, pc, Send_to p # cs)" by (rule enter_one) simp
  also have "thread_run w \<dots> (snd (quic_engine_send_to_connection w clk e p), pc, cs)"
  proof (cases found)
    case None
    then show ?thesis
      using call_one [of w "clk 0" e "Send_to p" e1 None] g by (simp add: quic_engine_send_to_connection_def)
  next
    case (Some addr)
    have "thread_run w (e, pc, Send_to p # cs) (e1, pc, Send p addr # cs)"
      using call_one [of w "clk 0" e "Send_to p" e1 "Some (Send p addr)"] g Some by simp
    also note send_refines [of w e1 pc p addr cs "clk 1"]
    finally show ?thesis using Some by (simp add: quic_engine_send_to_connection_def g)
  qed
  finally show ?thesis .
qed

section \<open>Accesses without the lock\<close>

text \<open>
  What may happen besides: while the loop works on the streams of an entry they may change in any
  way, and the call may end with any result; a search for a free slot that others write to may find
  any slot, and a slot that is being filled may hold anything.
\<close>

inductive race_step :: "world \<Rightarrow> threads \<Rightarrow> threads \<Rightarrow> bool" where
  plain: "thread_step w s s' \<Longrightarrow> race_step w s s'"
| streams: "pc' = L_found p addr (Some i) \<or> pc' = L_ack_out p addr \<or> (\<exists>off d. pc' = L_stream p addr off d) \<Longrightarrow>
    race_step w (e, L_found p addr (Some i), cs) (update_entry i (\<lambda>c. c\<lparr>ce_stream_mgr := m\<rparr>) e, pc', cs)"
| search: "race_step w (e, pc, cs @ Track p b n # ds) (e, pc, cs @ Store (slot_writes p b n) i # ds)"
| slot: "Store ws i \<in> set cs \<Longrightarrow> race_step w (e, pc, cs) (e\<lparr>qe_pending := (qe_pending e)[i := q]\<rparr>, pc, cs)"

inductive race_reachable :: "world \<Rightarrow> threads \<Rightarrow> bool" where
  started: "quic_engine_init sock bound port h = (0, e) \<Longrightarrow> race_reachable w (e, L_recv, [])"
| step: "race_reachable w s \<Longrightarrow> race_step w s s' \<Longrightarrow> race_reachable w s'"

lemma race_of_thread: "thread_reachable w s \<Longrightarrow> race_reachable w s"
  by (induction rule: thread_reachable.induct) (auto intro: race_reachable.intros race_step.plain)

section \<open>The table of connections\<close>

text \<open>What does not depend on the streams and on the pending packets.\<close>

definition entries_ok :: "quic_connection_entry list \<Rightarrow> bool" where
  "entries_ok t \<longleftrightarrow> length t = QUIC_MAX_CONNECTIONS \<and> slots_unique ce_in_use ce_connection_id t \<and>
     (\<forall>c \<in> set t. ce_in_use c \<longleftrightarrow> ce_state c = CONN_CONNECTING \<or> ce_state c = CONN_CONNECTED)"

lemma entries_of_conns: "conns_ok t \<Longrightarrow> entries_ok t"
  by (auto simp: conns_ok_def entries_ok_def conn_ok_def)

lemma entries_update:
  assumes "entries_ok t" and "i < length t" and "ce_in_use c = ce_in_use (t ! i)"
    and "ce_connection_id c = ce_connection_id (t ! i)"
    and "ce_in_use c \<longleftrightarrow> ce_state c = CONN_CONNECTING \<or> ce_state c = CONN_CONNECTED"
  shows "entries_ok (t[i := c])"
  using assms slot_update_same(2) [of i t ce_in_use c ce_connection_id]
    list_all_update [of t "\<lambda>c. ce_in_use c \<longleftrightarrow> ce_state c = CONN_CONNECTING \<or> ce_state c = CONN_CONNECTED" c i]
  by (auto simp: entries_ok_def)

lemma entries_release: "entries_ok t \<Longrightarrow> i < length t \<Longrightarrow> entries_ok (t[i := release_connection (t ! i)])"
  using connections.release_unique [of i t]
    list_all_update [of t "\<lambda>c. ce_in_use c \<longleftrightarrow> ce_state c = CONN_CONNECTING \<or> ce_state c = CONN_CONNECTED" "release_connection (t ! i)" i]
  by (auto simp: entries_ok_def release_connection_def)

lemma entries_claim:
  assumes "entries_ok t" and "slot_free ce_in_use t = Some i" and "conn_find t cid = None"
  shows "entries_ok (t[i := claim_connection cid x (t ! i)])"
  using assms connections.claim_unique [of t i cid x]
    list_all_update [of t "\<lambda>c. ce_in_use c \<longleftrightarrow> ce_state c = CONN_CONNECTING \<or> ce_state c = CONN_CONNECTED" "claim_connection cid x (t ! i)" i]
  by (auto simp: entries_ok_def claim_connection_def slot_find_None)

lemma entries_D:
  assumes "entries_ok (qe_connections e)"
  shows "length (qe_connections e) = QUIC_MAX_CONNECTIONS" and "slots_unique ce_in_use ce_connection_id (qe_connections e)"
    and "i < length (qe_connections e) \<Longrightarrow> ce_in_use (qe_connections e ! i) \<longleftrightarrow>
      ce_state (qe_connections e ! i) = CONN_CONNECTING \<or> ce_state (qe_connections e ! i) = CONN_CONNECTED"
  using assms by (auto simp: entries_ok_def)

abbreviation table_ok :: "quic_engine \<Rightarrow> bool" where
  "table_ok e \<equiv> entries_ok (qe_connections e)"

lemma table_cleanup: "table_ok e \<Longrightarrow> table_ok (quic_engine_cleanup_connections_locked e now)"
proof -
  assume ok: "table_ok e"
  have states: "ce_in_use (expire now c) \<longleftrightarrow> ce_state (expire now c) = CONN_CONNECTING \<or> ce_state (expire now c) = CONN_CONNECTED"
    if "ce_in_use c \<longleftrightarrow> ce_state c = CONN_CONNECTING \<or> ce_state c = CONN_CONNECTED" for c
    using that by (simp add: expire_def release_connection_def)
  have "slots_unique ce_in_use ce_connection_id (map (expire now) (qe_connections e))"
    using entries_D(2) [OF ok] by (rule slots_unique_map) (simp add: expire_cases)
  with ok have "entries_ok (map (expire now) (qe_connections e))"
    by (simp add: entries_ok_def states)
  then show ?thesis using cleanup_connections [OF entries_D(1) [OF ok]] by simp
qed

lemma table_touch:
  assumes "table_ok e" and "i < length (qe_connections e)"
  shows "table_ok (update_entry i (\<lambda>c. c\<lparr>ce_last_seen := t\<rparr>) e)"
    and "table_ok (update_entry i (\<lambda>c. c\<lparr>ce_addr := a\<rparr>) e)"
    and "table_ok (update_entry i release_connection e)"
    and "table_ok (update_entry i (\<lambda>c. c\<lparr>ce_stream_mgr := m\<rparr>) e)"
    and "ce_in_use (qe_connections e ! i) \<Longrightarrow> table_ok (update_entry i (\<lambda>c. c\<lparr>ce_state := CONN_CONNECTED\<rparr>) e)"
proof -
  note d = entries_D(3) [OF assms]
  show "table_ok (update_entry i (\<lambda>c. c\<lparr>ce_last_seen := t\<rparr>) e)"
    using d by (simp add: entries_update [OF assms])
  show "table_ok (update_entry i (\<lambda>c. c\<lparr>ce_addr := a\<rparr>) e)"
    using d by (simp add: entries_update [OF assms])
  show "table_ok (update_entry i release_connection e)"
    using entries_release [OF assms] by simp
  show "table_ok (update_entry i (\<lambda>c. c\<lparr>ce_stream_mgr := m\<rparr>) e)"
    using d by (simp add: entries_update [OF assms])
  show "table_ok (update_entry i (\<lambda>c. c\<lparr>ce_state := CONN_CONNECTED\<rparr>) e)" if "ce_in_use (qe_connections e ! i)"
    using that by (simp add: entries_update [OF assms])
qed

lemma table_process_entry:
  assumes "table_ok e" and "i < length (qe_connections e)" and "ce_in_use (qe_connections e ! i)"
  shows "table_ok (fst (snd (process_entry e i pk addr created notify)))"
  using assms table_touch [OF assms(1,2)] by (auto simp: process_entry_def Let_def)

lemma table_process:
  assumes "table_ok e"
  shows "table_ok (fst (snd (quic_engine_process_packet e pk addr now t)))"
proof -
  define e1 where e1: "e1 = quic_engine_cleanup_connections_locked e now"
  have ok: "table_ok e1" unfolding e1 by (rule table_cleanup [OF assms])
  show ?thesis
  proof (cases rule: process_cases [OF e1, where pk = pk and addr = addr and t = t,
        case_names known refused created])
    case (known i)
    note d = find_entry_D [OF known]
    have seen: "table_ok (seen_entry i addr now e1)"
      unfolding seen_entry_connections [OF d(1)]
      using entries_D(3) [OF ok d(1)] by (intro entries_update [OF ok d(1)]) simp_all
    obtain rc e2 n where pe: "process_entry (seen_entry i addr now e1) i pk addr False
        (migration_notice e1 i addr) = (rc, e2, n)" by (metis prod_cases3)
    have "table_ok e2"
      using table_process_entry [OF seen, of i pk addr False "migration_notice e1 i addr"] d
      by (simp add: pe) (simp add: seen_entry_connections)
    then show ?thesis by (simp add: process_known [OF e1 known] pe)
  next
    case refused
    with ok show ?thesis by simp
  next
    case (created i)
    let ?e = "update_entry i (claim_connection (pk_connection_id pk) (addr, t)) e1"
    have new: "table_ok ?e" using entries_claim [OF ok created(3)] created(1) by (simp add: find_entry_eq)
    obtain rc e2 n where pe: "process_entry ?e i pk addr True (Some (CONN_CONNECTING, addr))
        = (rc, e2, n)" by (metis prod_cases3)
    have "table_ok e2"
      using table_process_entry [OF new, of i pk addr True "Some (CONN_CONNECTING, addr)"] slot_free_SomeD(1) [OF created(3)]
      by (simp add: pe connections.claim_used)
    then show ?thesis by (simp add: process_created [OF e1 created] pe)
  qed
qed

lemma table_get_connection:
  assumes "table_ok e"
  shows "table_ok (snd (quic_engine_get_connection e cid now))"
proof -
  let ?e = "quic_engine_cleanup_connections_locked e now"
  have ok: "table_ok ?e" by (rule table_cleanup [OF assms])
  show ?thesis
  proof (cases "quic_engine_find_entry_locked ?e cid")
    case (Some i)
    then show ?thesis
      using ok table_touch(1) [OF ok find_entry_D(1) [OF Some]] by (simp add: quic_engine_get_connection_def Let_def)
  qed (use ok in \<open>simp add: quic_engine_get_connection_def Let_def\<close>)
qed

section \<open>Under any interleaving\<close>

text \<open>Identifiers of the table change in no step but the one that processes a packet.\<close>

abbreviation conn_ids :: "quic_engine \<Rightarrow> u64 list" where
  "conn_ids e \<equiv> map ce_connection_id (qe_connections e)"

lemma ids_update: "(\<And>c. ce_connection_id (f c) = ce_connection_id c) \<Longrightarrow> conn_ids (update_entry i f e) = conn_ids e"
proof (rule nth_equalityI)
  fix j assume "j < length (conn_ids (update_entry i f e))" and "\<And>c. ce_connection_id (f c) = ce_connection_id c"
  then show "conn_ids (update_entry i f e) ! j = conn_ids e ! j" by (cases "j = i") auto
qed simp

lemma ids_cleanup: "table_ok e \<Longrightarrow> conn_ids (quic_engine_cleanup_connections_locked e now) = conn_ids e"
  by (simp add: cleanup_connections entries_D(1) expire_cases)

lemma ids_get_connection: "table_ok e \<Longrightarrow> conn_ids (snd (quic_engine_get_connection e cid now)) = conn_ids e"
  by (auto simp: quic_engine_get_connection_def Let_def ids_cleanup ids_update simp del: update_entry_fields(1) split: option.split)

lemma ids_caller: "table_ok e \<Longrightarrow> conn_ids (fst (caller_next w now e c)) = conn_ids e"
  using ids_get_connection [of e] ids_update [of release_connection _ e]
  by (cases "(w, now, e, c)" rule: caller_next.cases)
    (auto simp: release_connection_def quic_engine_send_close_def engine_sendto_def Let_def split_beta
       split: option.split)

lemma ids_call: "table_ok e \<Longrightarrow> atomic_call ev \<Longrightarrow> conn_ids (engine_exec w ev e) = conn_ids e"
  by (cases ev) (simp_all add: ids_get_connection quic_engine_set_state_handler_def quic_engine_set_stream_data_handler_def
      quic_engine_set_recv_timeout_def quic_engine_stop_def Let_def)

text \<open>What is kept: a well-formed table, and the entry the loop has in hand.\<close>

fun pc_ok :: "u64 list \<Rightarrow> loop_pc \<Rightarrow> bool" where
  "pc_ok ids (L_found p addr (Some i)) \<longleftrightarrow> i < length ids \<and> ids ! i = pk_connection_id p"
| "pc_ok ids pc \<longleftrightarrow> True"

lemma loop_ok:
  assumes "table_ok e" and "pc_ok (conn_ids e) pc" and "loop_next w clk r e pc = (e', pc')"
  shows "table_ok e' \<and> pc_ok (conn_ids e') pc'"
  using assms
proof (cases "(w, clk, r, e, pc)" rule: loop_next.cases)
  case (8 w clk r e p addr)
  then show ?thesis
    using assms find_entry_D [of e "pk_connection_id p"]
    by (cases "quic_engine_find_entry_locked e (pk_connection_id p)") (auto split: if_splits)
next
  case (5 w clk r e p addr)
  then show ?thesis
    using assms table_process [of e p addr "clk 0" "clk 1"]
    by (auto simp del: One_nat_def split: prod.splits if_splits)
next
  case (10 w clk r e p addr i)
  obtain rc mgr off d where on: "quic_stream_on_data (w_malloc w (length (qe_out e))) (ce_stream_mgr (qe_connections e ! i))
      (pk_stream_id p) (pk_offset p) (pk_payload p) (pk_length p) (Some QUIC_MAX_PAYLOAD) = (rc, mgr, off, d)"
    by (metis prod_cases4)
  have i: "i < length (qe_connections e)" using assms(2) 10 by simp
  then show ?thesis using assms table_touch(4) [of e i mgr] on 10 by (auto split: if_splits)
qed (auto simp: table_cleanup quic_engine_send_handshake_def split: errno.splits option.splits if_splits)

lemma caller_keeps:
  assumes "table_ok e"
  shows "table_ok (fst (caller_next w now e c))"
  using assms
proof (cases "(w, now, e, c)" rule: caller_next.cases)
  case (1 w now e cid)
  then show ?thesis
    using assms table_touch(3) [of e] find_entry_D(1) [of e cid] by (auto split: option.splits)
next
  case (4 w now e p)
  then show ?thesis
    using assms table_get_connection [of e "pk_connection_id p" now] by (auto split: prod.splits)
qed (auto simp: quic_engine_send_close_def engine_sendto_def Let_def split: option.splits)

lemma call_ok: "table_ok e \<Longrightarrow> atomic_call ev \<Longrightarrow> table_ok (engine_exec w ev e)"
  by (cases ev) (simp_all add: table_get_connection quic_engine_set_state_handler_def quic_engine_set_stream_data_handler_def
      quic_engine_set_recv_timeout_def quic_engine_stop_def Let_def)

lemma races_ok:
  "race_reachable w s \<Longrightarrow> (case s of (e, pc, cs) \<Rightarrow> table_ok e \<and> pc_ok (conn_ids e) pc)"
proof (induction rule: race_reachable.induct)
  case (started sock bound port h e w)
  then show ?case using engine_ok_init [of sock bound port h] by (simp add: engine_ok_def entries_of_conns)
next
  case (step w s s')
  obtain e pc cs where s: "s = (e, pc, cs)" by (cases s)
  with step.IH have ok: "table_ok e" "pc_ok (conn_ids e) pc" by simp_all
  from step.hyps(2) show ?case unfolding s
  proof (cases rule: race_step.cases)
    case (streams pc' p addr i m)
    then show ?thesis using ok table_touch(4) [of e i m] ids_update [of "\<lambda>c. c\<lparr>ce_stream_mgr := m\<rparr>" i e] by auto
  next
    case plain
    from this(1) show ?thesis
    proof (cases rule: thread_step.cases)
      case (loop clk r e' pc')
      then show ?thesis using loop_ok [OF ok] by simp
    next
      case (enter c)
      then show ?thesis using ok by simp
    next
      case (leave now c e' cs1 ds)
      then show ?thesis using ok caller_keeps [OF ok(1), of w now c] ids_caller [OF ok(1), of w now c] by auto
    next
      case (go_on now c e' c' cs1 ds)
      then show ?thesis using ok caller_keeps [OF ok(1), of w now c] ids_caller [OF ok(1), of w now c] by auto
    next
      case (call ev)
      then show ?thesis using ok call_ok [OF ok(1)] ids_call [OF ok(1)] by simp
    qed
  qed (use ok in simp_all)
qed

lemma reachable_trans: "thread_run w s s' \<Longrightarrow> thread_reachable w s \<Longrightarrow> thread_reachable w s'"
  by (induction rule: rtranclp_induct) (auto intro: thread_reachable.step)

lemma kept_tables:
  assumes "race_reachable w (e, pc, cs)"
  shows "length (qe_connections e) = QUIC_MAX_CONNECTIONS \<and> slots_unique ce_in_use ce_connection_id (qe_connections e) \<and>
     (\<forall>c \<in> set (qe_connections e). ce_in_use c \<longleftrightarrow> ce_state c = CONN_CONNECTING \<or> ce_state c = CONN_CONNECTED) \<and>
     (\<forall>p addr i. pc = L_found p addr (Some i) \<longrightarrow>
        i < length (qe_connections e) \<and> ce_connection_id (qe_connections e ! i) = pk_connection_id p \<and>
        (ce_in_use (qe_connections e ! i) \<longrightarrow> quic_engine_find_entry_locked e (pk_connection_id p) = Some i))"
proof -
  have ok: "entries_ok (qe_connections e)" "pc_ok (conn_ids e) pc" using races_ok [OF assms] by simp_all
  note unique = entries_D(2) [OF ok(1)]
  have "i < length (qe_connections e) \<and> ce_connection_id (qe_connections e ! i) = pk_connection_id p \<and>
        (ce_in_use (qe_connections e ! i) \<longrightarrow> quic_engine_find_entry_locked e (pk_connection_id p) = Some i)"
    if "pc = L_found p addr (Some i)" for p addr i
  proof -
    have l: "i < length (qe_connections e)" using ok(2) that by simp
    with ok(2) that have "ce_connection_id (qe_connections e ! i) = pk_connection_id p" by simp
    with l slot_find_unique [OF unique l] show ?thesis by (simp add: find_entry_eq)
  qed
  with ok(1) show ?thesis by (simp add: entries_ok_def)
qed

section \<open>What interleaving adds\<close>

text \<open>How a packet of data comes to the lookup.\<close>

lemma data_flag: "\<not> has_flag QUIC_FLAG_DATA QUIC_FLAG_CLOSE" "has_flag QUIC_FLAG_DATA QUIC_FLAG_DATA"
    "\<not> has_flag QUIC_FLAG_DATA QUIC_FLAG_HANDSHAKE" "\<not> has_flag QUIC_FLAG_DATA QUIC_FLAG_ACK"
  by (simp_all add: has_flag_def QUIC_FLAG_DATA_def QUIC_FLAG_CLOSE_def QUIC_FLAG_HANDSHAKE_def QUIC_FLAG_ACK_def)

lemma data_arrives:
  fixes clk :: "nat \<Rightarrow> int"
  assumes "e1 = quic_engine_cleanup_connections_locked e (clk 0)" and "pk_flags p = QUIC_FLAG_DATA"
    and "quic_engine_find_entry_locked e1 (pk_connection_id p) = Some i"
    and "ce_state (qe_connections e1 ! i) = CONN_CONNECTED" and "ce_addr (qe_connections e1 ! i) = addr"
  shows "thread_run w (e, L_ack_in p addr, cs) (seen_entry i addr (clk 0) e1, L_data p addr, cs)"
proof -
  have i: "i < length (qe_connections e1)" using find_entry_D(1) [OF assms(3)] .
  have proc: "quic_engine_process_packet e p addr (clk 0) (clk 1) = (0, seen_entry i addr (clk 0) e1, False, None)"
    using i assms(4,5)
    by (simp add: process_known [OF assms(1,3)] process_entry_def assms(2) data_flag migration_notice_def seen_entry_connections)
  have "thread_run w (e, L_ack_in p addr, cs) (e, L_process p addr, cs)"
    by (rule loop_one [of w clk r]) (simp add: assms(2) data_flag)
  also have "thread_run w \<dots> (seen_entry i addr (clk 0) e1, L_state p addr False None, cs)"
    by (rule loop_one [of w clk r]) (simp add: proc del: One_nat_def)
  also have "thread_run w \<dots> (seen_entry i addr (clk 0) e1, L_handshake p addr False, cs)"
    by (rule loop_one [of w clk r]) simp
  also have "thread_run w \<dots> (seen_entry i addr (clk 0) e1, L_data p addr, cs)"
    by (rule loop_one [of w clk r]) simp
  finally show ?thesis .
qed

lemma loop_reachable:
  assumes "thread_reachable w (e, L_recv, cs)"
  shows "thread_reachable w (snd (quic_engine_loop_step w clk e (Recv_data d addr)), L_recv, cs)"
proof -
  have "fst (quic_engine_loop_step w clk e (Recv_data d addr))"
    by (simp add: quic_engine_loop_step_def Let_def split: option.split)
  then show ?thesis using reachable_trans [OF loop_refines [of w e cs clk "Recv_data d addr"] assms] by simp
qed

lemma streaming_threads: "thread_reachable sample_world (streaming_engine, L_recv, [])"
proof -
  have "thread_reachable sample_world (sample_engine, L_recv, [])"
    by (rule thread_reachable.started [of 3 0 9443 True]) (simp add: sample_engine_def quic_engine_init_def Let_def)
  then have "thread_reachable sample_world (connected_engine, L_recv, [])"
    by (simp add: connected_engine_def receive_at_0_def loop_reachable)
  then show ?thesis
    using thread_reachable.step [OF _ thread_step.call [of "Ev_set_stream_data_handler True"]]
    by (simp add: streaming_engine_def)
qed

lemma sample_lookup:
  obtains e i where "thread_reachable sample_world (e, L_data (sample_packet_with QUIC_FLAG_DATA [5]) sample_peer, [])"
    and "quic_engine_find_entry_locked e 7 = Some i"
    and "ce_stream_mgr (qe_connections e ! i) = quic_stream_manager_init"
    and "qe_stream_handler e"
proof -
  let ?p = "sample_packet_with QUIC_FLAG_DATA [5]" and ?clk = "\<lambda>n::nat. 0::int"
  define e1 where "e1 = quic_engine_cleanup_connections_locked (count_received streaming_engine) (?clk 0)"
  define e0 where "e0 = quic_engine_cleanup_connections_locked streaming_engine 0"
  have ok: "engine_ok streaming_engine" by (rule reachable_ok [OF streaming_reachable])
  then have len: "length (qe_connections streaming_engine) = QUIC_MAX_CONNECTIONS" by (simp add: engine_ok_def conns_ok_def)
  have conns: "qe_connections e1 = qe_connections e0" using len by (simp add: e1_def e0_def cleanup_connections)
  obtain i where i: "quic_engine_find_entry_locked e1 (pk_connection_id ?p) = Some i"
    and c: "qe_connections e1 ! i = qe_connections connected_engine ! i"
      "ce_state (qe_connections connected_engine ! i) = CONN_CONNECTED"
      "ce_addr (qe_connections connected_engine ! i) = sample_peer"
      "ce_stream_mgr (qe_connections connected_engine ! i) = quic_stream_manager_init"
    using sample_streaming by (auto simp: find_entry_eq conns e0_def sample_packet_with_def)
  have wp: "quic_packet_deserialize (Some (take QUIC_MAX_PACKET_SIZE (wire ?p))) = Some ?p"
    by (rule sample_data_event) (simp add: QUIC_MAX_PAYLOAD_def)
  have "thread_run sample_world (streaming_engine, L_recv, []) (count_received streaming_engine, L_ack_in ?p sample_peer, [])"
    by (rule loop_one [of _ ?clk "Recv_data (wire ?p) sample_peer"]) (simp add: wp)
  also have "thread_run sample_world \<dots> (seen_entry i sample_peer 0 e1, L_data ?p sample_peer, [])"
    using data_arrives [OF e1_def _ i, of sample_peer] c by (simp add: sample_packet_with_def)
  finally have "thread_reachable sample_world (seen_entry i sample_peer 0 e1, L_data ?p sample_peer, [])"
    using reachable_trans streaming_threads by blast
  moreover have "quic_engine_find_entry_locked (seen_entry i sample_peer 0 e1) 7 = Some i"
    using find_entry_D(1) [OF i] i slot_update_same(1) [of i "qe_connections e1" ce_in_use _ ce_connection_id 7]
    by (simp add: find_entry_eq seen_entry_connections sample_packet_with_def)
  moreover have "ce_stream_mgr (qe_connections (seen_entry i sample_peer 0 e1) ! i) = quic_stream_manager_init"
    using find_entry_D(1) [OF i] c by (simp add: seen_entry_connections)
  moreover have "qe_stream_handler (seen_entry i sample_peer 0 e1)"
    using len cleanup_stream_handler [of "count_received streaming_engine" 0]
    by (simp add: e1_def) (simp add: streaming_engine_def quic_engine_set_stream_data_handler_def)
  ultimately show ?thesis using that by blast
qed

text \<open>A close that comes between the lookup and the reassembly.\<close>

lemma late_delivery:
  assumes "thread_reachable w (e, L_data p addr, cs)" and "quic_engine_find_entry_locked e (pk_connection_id p) = Some i"
    and "has_flag (pk_flags p) QUIC_FLAG_DATA" and "qe_stream_handler e"
    and "quic_engine_close_connection w now e (pk_connection_id p) = (rc, e')"
    and "quic_stream_on_data (w_malloc w (length (qe_out e')))
        (quic_stream_manager_destroy (ce_stream_mgr (qe_connections e ! i))) (pk_stream_id p) (pk_offset p) (pk_payload p)
        (pk_length p) (Some QUIC_MAX_PAYLOAD) = (0, mgr, Some off, d)"
    and "d \<noteq> []"
  shows "\<exists>e''. thread_run w (e, L_data p addr, cs) (e'', L_ack_out p addr, cs) \<and>
     quic_engine_find_entry_locked e' (pk_connection_id p) = None \<and>
     qe_out e'' = qe_out e' @ [Out_stream (pk_connection_id p) (pk_stream_id p) off d]"
proof -
  let ?cid = "pk_connection_id p"
  have e': "e' = snd (quic_engine_close_connection w now e ?cid)" using assms(5) by simp
  have ok: "table_ok e" using races_ok [OF race_of_thread [OF assms(1)]] by simp
  have st: "ce_state (qe_connections e ! i) \<noteq> CONN_CLOSED"
    using entries_D(3) [OF ok find_entry_D(1) [OF assms(2)]] find_entry_D(2) [OF assms(2)] by auto
  have conns: "qe_connections e' = (qe_connections e)[i := release_connection (qe_connections e ! i)]"
    and handler: "qe_stream_handler e' = qe_stream_handler e"
    using st by (simp_all add: e' quic_engine_close_connection_def assms(2) Let_def quic_engine_send_close_def)
  have m: "ce_stream_mgr (qe_connections e' ! i) = quic_stream_manager_destroy (ce_stream_mgr (qe_connections e ! i))"
    using find_entry_D(1) [OF assms(2)] by (simp add: conns release_connection_def)
  define e1 where "e1 = update_entry i (\<lambda>c. c\<lparr>ce_stream_mgr := mgr\<rparr>) e'"
  have "thread_run w (e, L_data p addr, cs) (e, L_found p addr (Some i), cs)"
    by (rule loop_one [of w clk r]) (simp add: assms(2-4))
  also have "thread_run w \<dots> (e', L_found p addr (Some i), cs)" unfolding e' by (rule close_refines)
  also have "thread_run w \<dots> (e1, L_stream p addr (Some off) d, cs)"
    by (rule loop_one [of w clk r]) (simp add: m assms(6,7) e1_def)
  also have "thread_run w \<dots> (quic_engine_emit_stream_data e1 ?cid (pk_stream_id p) off d, L_ack_out p addr, cs)"
    by (rule loop_one [of w clk r]) simp
  finally have run: "thread_run w (e, L_data p addr, cs)
      (quic_engine_emit_stream_data e1 ?cid (pk_stream_id p) off d, L_ack_out p addr, cs)" .
  have "qe_out (quic_engine_emit_stream_data e1 ?cid (pk_stream_id p) off d) = qe_out e' @ [Out_stream ?cid (pk_stream_id p) off d]"
    using assms(4) handler by (simp add: quic_engine_emit_stream_data_def e1_def emit_def)
  moreover have "quic_engine_find_entry_locked e' ?cid = None"
    using connections.release_find [of ?cid "qe_connections e" i] entries_D(2) [OF ok] assms(2)
    by (simp add: find_entry_eq conns)
  ultimately show ?thesis using run by blast
qed

text \<open>Two senders that both find the same free slot: the second entry replaces the first.\<close>

lemma lost_tracking:
  assumes "first_idx (\<lambda>q. \<not> pe_in_use q) (qe_pending e) = Some i"
    and "has_flag (pk_flags p) QUIC_FLAG_DATA" and "0 < n" and "has_flag (pk_flags q) QUIC_FLAG_DATA" and "0 < m"
  shows "thread_run w (e, pc, [Track p b n, Track q c m])
    (e\<lparr>qe_pending := (qe_pending e)[i := claim_pending (pk_connection_id q, pk_packet_number q) (m, c, now)
       (claim_pending (pk_connection_id p, pk_packet_number p) (n, b, now) (qe_pending e ! i))]\<rparr>, pc, [])"
proof -
  have i: "i < length (qe_pending e)" using first_idx_less [OF assms(1)] .
  define e1 where "e1 = e\<lparr>qe_pending := (qe_pending e)[i := claim_pending (pk_connection_id p, pk_packet_number p) (n, b, now)
      (qe_pending e ! i)]\<rparr>"
  have "thread_run w (e, pc, [Track p b n, Track q c m]) (e, pc, [Store (slot_writes p b n) i, Track q c m])"
    using call_one [of w now e "Track p b n" e "Some (Store (slot_writes p b n) i)"] assms by simp
  also have "thread_run w \<dots> (e, pc, [Store (slot_writes p b n) i, Store (slot_writes q c m) i])"
    using thread_step.go_on [of w now e "Track q c m" e "Store (slot_writes q c m) i" pc "[Store (slot_writes p b n) i]" "[]"] assms
    by auto
  also have "thread_run w \<dots> (e1, pc, [Store (slot_writes q c m) i])"
    using store_refines [OF i, of w pc "slot_writes p b n" "[Store (slot_writes q c m) i]" now] by (simp add: e1_def slot_written)
  also have "thread_run w \<dots> (e1\<lparr>qe_pending := (qe_pending e1)[i := fold (write_slot now) (slot_writes q c m) (qe_pending e1 ! i)]\<rparr>, pc, [])"
    using i by (intro store_refines) (simp add: e1_def)
  finally show ?thesis using i by (simp add: e1_def slot_written)
qed

section \<open>Properties\<close>

text \<open>
  C10:: However the receive loop and the calls of other threads interleave, and whatever the accesses without
  the lock do to the streams of an entry and to the pending slots: the table of connections stays well
  formed, no two open connections share an identifier, and the entry the loop has looked up, and goes
  on to reassemble into without the lock, belongs to the connection of the packet or to none, never to
  another connection.
\<close>

theorem threads_keep_tables:
  assumes "race_reachable w (e, pc, cs)"
  shows "length (qe_connections e) = QUIC_MAX_CONNECTIONS \<and> slots_unique ce_in_use ce_connection_id (qe_connections e) \<and>
     (\<forall>c \<in> set (qe_connections e). ce_in_use c \<longleftrightarrow> ce_state c = CONN_CONNECTING \<or> ce_state c = CONN_CONNECTED) \<and>
     (\<forall>p addr i. pc = L_found p addr (Some i) \<longrightarrow>
        i < length (qe_connections e) \<and> ce_connection_id (qe_connections e ! i) = pk_connection_id p \<and>
        (ce_in_use (qe_connections e ! i) \<longrightarrow> quic_engine_find_entry_locked e (pk_connection_id p) = Some i))"
  by (rule kept_tables [OF assms])

theorem threads_keep_tables_witness:
  "\<exists>e p i. thread_reachable sample_world (e, L_found p sample_peer (Some i), [Close 7]) \<and>
     ce_connection_id (qe_connections e ! i) = 7 \<and> quic_engine_find_entry_locked e 7 = Some i"
proof -
  let ?p = "sample_packet_with QUIC_FLAG_DATA [5]"
  obtain e i where e: "thread_reachable sample_world (e, L_data ?p sample_peer, [])"
    and i: "quic_engine_find_entry_locked e 7 = Some i" and h: "qe_stream_handler e"
    using sample_lookup by blast
  have "thread_run sample_world (e, L_data ?p sample_peer, []) (e, L_found ?p sample_peer (Some i), [])"
    by (rule loop_one [of _ "\<lambda>n. 0" r]) (simp add: i h sample_packet_with_def data_flag)
  also have "thread_run sample_world \<dots> (e, L_found ?p sample_peer (Some i), [Close 7])"
    by (rule enter_one) simp
  finally have r: "thread_reachable sample_world (e, L_found ?p sample_peer (Some i), [Close 7])"
    using e reachable_trans by blast
  have "ce_connection_id (qe_connections e ! i) = 7"
    using threads_keep_tables [OF race_of_thread [OF r]] by (simp add: sample_packet_with_def)
  with r i show ?thesis by blast
qed

text \<open>
  C11:: What the gap between the lookup and the reassembly costs: a close from another thread that falls
  into it ends the connection and reports \<open>CLOSED\<close>, and the loop still hands the data of its packet to the
  stream callback, from the streams the close has emptied.
\<close>

theorem data_after_close:
  assumes "thread_reachable w (e, L_data p addr, cs)" and "quic_engine_find_entry_locked e (pk_connection_id p) = Some i"
    and "has_flag (pk_flags p) QUIC_FLAG_DATA" and "qe_stream_handler e"
    and "quic_engine_close_connection w now e (pk_connection_id p) = (rc, e')"
    and "quic_stream_on_data (w_malloc w (length (qe_out e')))
        (quic_stream_manager_destroy (ce_stream_mgr (qe_connections e ! i))) (pk_stream_id p) (pk_offset p) (pk_payload p)
        (pk_length p) (Some QUIC_MAX_PAYLOAD) = (0, mgr, Some off, d)"
    and "d \<noteq> []"
  shows "\<exists>e''. thread_run w (e, L_data p addr, cs) (e'', L_ack_out p addr, cs) \<and>
     quic_engine_find_entry_locked e' (pk_connection_id p) = None \<and>
     qe_out e'' = qe_out e' @ [Out_stream (pk_connection_id p) (pk_stream_id p) off d]"
  by (rule late_delivery [OF assms])

theorem data_after_close_witness:
  "\<exists>e e' e''. thread_reachable sample_world (e'', L_ack_out (sample_packet_with QUIC_FLAG_DATA [5]) sample_peer, []) \<and>
     e' = snd (quic_engine_close_connection sample_world 0 e 7) \<and> quic_engine_find_entry_locked e' 7 = None \<and>
     qe_out e'' = qe_out e' @ [Out_stream 7 0 0 [5]]"
proof -
  let ?p = "sample_packet_with QUIC_FLAG_DATA [5]"
  obtain e i where e: "thread_reachable sample_world (e, L_data ?p sample_peer, [])"
    and i: "quic_engine_find_entry_locked e 7 = Some i"
    and m: "ce_stream_mgr (qe_connections e ! i) = quic_stream_manager_init" and h: "qe_stream_handler e"
    using sample_lookup by blast
  have fresh: "quic_stream_manager_destroy quic_stream_manager_init = quic_stream_manager_init"
    by (simp add: quic_stream_manager_destroy_def quic_stream_manager_init_def zero_stream_def)
  obtain n where on: "quic_stream_on_data True quic_stream_manager_init 0 0 (Some [5]) 1 (Some QUIC_MAX_PAYLOAD) =
      (0, n, Some 0, [5])"
    using sample_on_data by blast
  obtain rc e' where c: "quic_engine_close_connection sample_world 0 e 7 = (rc, e')" by fastforce
  have "\<exists>e''. thread_run sample_world (e, L_data ?p sample_peer, []) (e'', L_ack_out ?p sample_peer, []) \<and>
     quic_engine_find_entry_locked e' (pk_connection_id ?p) = None \<and>
     qe_out e'' = qe_out e' @ [Out_stream (pk_connection_id ?p) (pk_stream_id ?p) 0 [5]]"
    by (rule data_after_close [OF e, of i 0 rc e' n])
      (use i h c on m fresh in \<open>simp_all add: sample_packet_with_def data_flag sample_world_def\<close>)
  then obtain e'' where "thread_run sample_world (e, L_data ?p sample_peer, []) (e'', L_ack_out ?p sample_peer, [])"
    and ends: "quic_engine_find_entry_locked e' 7 = None" "qe_out e'' = qe_out e' @ [Out_stream 7 0 0 [5]]"
    by (auto simp: sample_packet_with_def)
  then have "thread_reachable sample_world (e'', L_ack_out ?p sample_peer, [])" using e reachable_trans by blast
  moreover have "e' = snd (quic_engine_close_connection sample_world 0 e 7)" by (simp add: c)
  ultimately show ?thesis using ends by blast
qed

end
