(* ===== verification/Ws_Io.thy ===== *)
theory Ws_Io
  imports Prelude
begin

text \<open>
  Byte transport of \<open>src/server/websocket.c\<close>: \<open>io_read\<close>, \<open>io_write\<close> and the loops \<open>read_exact\<close>
  and \<open>write_all\<close> above them. A connection is the bytes the peer will still deliver, the bytes
  accepted for it so far, and what the kernel (or the TLS library) answers to each call: how many
  bytes it is willing to move, an error or the end of the stream being a number that is not
  positive. The two loops take the transport call as an argument; the locales state what a
  transport promises and prove what the loops do over any such transport.
\<close>

section \<open>One call\<close>

record ws_io =
  io_in :: bytes
  io_out :: bytes
  io_reads :: "int list"
  io_writes :: "int list"

text \<open>
  \<open>recv\<close> and \<open>SSL_read\<close> return at least one and at most \<open>len\<close> of the next bytes, or fail. The
  result is the buffer contents, \<open>None\<close> for \<open>-1\<close>.
\<close>

definition io_read :: "ws_io \<Rightarrow> nat \<Rightarrow> bytes option \<times> ws_io" where
  "io_read io len =
     (if len = 0 then (None, io)
      else
        (case io_reads io of
           [] \<Rightarrow> (None, io)
         | n # ns \<Rightarrow>
             let got = take (min (nat n) len) (io_in io);
                 io' = io\<lparr>io_reads := ns\<rparr>
             in if got = [] then (None, io')
                else (Some got, io'\<lparr>io_in := drop (length got) (io_in io)\<rparr>)))"

text \<open>\<open>send\<close> and \<open>SSL_write\<close> take at least one byte from the front of the buffer, or fail.\<close>

definition io_write :: "ws_io \<Rightarrow> bytes \<Rightarrow> nat option \<times> ws_io" where
  "io_write io buf =
     (if buf = [] then (None, io)
      else
        (case io_writes io of
           [] \<Rightarrow> (None, io)
         | n # ns \<Rightarrow>
             let io' = io\<lparr>io_writes := ns\<rparr>
             in if n \<le> 0 then (None, io')
                else (let k = min (nat n) (length buf)
                      in (Some k, io'\<lparr>io_out := io_out io @ take k buf\<rparr>))))"

section \<open>The loops\<close>

text \<open>
  Each iteration asks for what is still missing; a call that moves nothing ends the loop with an
  error, so every iteration makes progress. The result is the bytes read, \<open>None\<close> for \<open>-1\<close>.
\<close>

function read_loop :: "('s \<Rightarrow> nat \<Rightarrow> bytes option \<times> 's) \<Rightarrow> 's \<Rightarrow> nat \<Rightarrow> bytes \<Rightarrow> bytes option \<times> 's" where
  "read_loop rd s missing acc =
     (if missing = 0 then (Some acc, s)
      else
        (case rd s missing of
           (None, s') \<Rightarrow> (None, s')
         | (Some b, s') \<Rightarrow>
             if b = [] then (None, s') else read_loop rd s' (missing - length b) (acc @ b)))"
  by pat_completeness auto
termination
  by (relation "measure (\<lambda>(rd, s, missing, acc). missing)") (auto simp flip: length_greater_0_conv)

function write_loop :: "('s \<Rightarrow> bytes \<Rightarrow> nat option \<times> 's) \<Rightarrow> 's \<Rightarrow> bytes \<Rightarrow> int \<times> 's" where
  "write_loop wr s buf =
     (if buf = [] then (0, s)
      else
        (case wr s buf of
           (None, s') \<Rightarrow> (-1, s')
         | (Some k, s') \<Rightarrow> if k = 0 then (-1, s') else write_loop wr s' (drop k buf)))"
  by pat_completeness auto
termination
  by (relation "measure (\<lambda>(wr, s, buf). length buf)") auto

declare read_loop.simps [simp del] write_loop.simps [simp del]

definition read_exact :: "ws_io \<Rightarrow> nat \<Rightarrow> bytes option \<times> ws_io" where
  "read_exact io len = read_loop io_read io len []"

definition write_all :: "ws_io \<Rightarrow> bytes \<Rightarrow> int \<times> ws_io" where
  "write_all io buf = write_loop io_write io buf"

section \<open>What a transport promises\<close>

text \<open>
  A source: a successful read returns between one and \<open>len\<close> bytes from the front of what is
  pending. A sink: a successful write appends between one and all bytes of the buffer to what has
  been accepted; a failed one appends nothing.
\<close>

locale byte_source =
  fixes rd :: "'s \<Rightarrow> nat \<Rightarrow> bytes option \<times> 's" and pending :: "'s \<Rightarrow> bytes"
  assumes read_some: "rd s n = (Some b, s') \<Longrightarrow> b \<noteq> [] \<and> length b \<le> n \<and> pending s = b @ pending s'"
    and read_none: "rd s n = (None, s') \<Longrightarrow> pending s' = pending s"
begin

text \<open>A complete read is the next \<open>n\<close> bytes, however they were cut.\<close>

lemma loop_some:
  "read_loop rd s n acc = (Some b, s') \<Longrightarrow>
     \<exists>c. b = acc @ c \<and> length c = n \<and> pending s = c @ pending s'"
proof (induction n arbitrary: s acc rule: less_induct)
  case (less n)
  show ?case
  proof (cases "n = 0")
    case True
    with less.prems show ?thesis by (simp add: read_loop.simps)
  next
    case False
    then obtain d s1 where call: "rd s n = (Some d, s1)"
      and rest: "read_loop rd s1 (n - length d) (acc @ d) = (Some b, s')"
      using less.prems by (auto simp: read_loop.simps [of rd s n] split: prod.splits option.splits if_splits)
    note d = read_some [OF call]
    with less.IH [OF _ rest] False obtain c where "b = (acc @ d) @ c" "length c = n - length d"
      "pending s1 = c @ pending s'" by (metis diff_less length_greater_0_conv not_gr_zero)
    with d show ?thesis by (intro exI [of _ "d @ c"]) simp
  qed
qed

text \<open>A failed one has used up fewer than \<open>n\<close> bytes.\<close>

lemma loop_none:
  "read_loop rd s n acc = (None, s') \<Longrightarrow> \<exists>c. length c < n \<and> pending s = c @ pending s'"
proof (induction n arbitrary: s acc rule: less_induct)
  case (less n)
  have n: "n \<noteq> 0" using less.prems by (cases n) (simp_all add: read_loop.simps)
  obtain r s1 where call: "rd s n = (r, s1)" by fastforce
  show ?case
  proof (cases r)
    case None
    then show ?thesis
      using less.prems n call read_none [of s n s1] by (auto simp: read_loop.simps [of rd s n])
  next
    case (Some d)
    note d = read_some [OF call [unfolded Some]]
    have rest: "read_loop rd s1 (n - length d) (acc @ d) = (None, s')"
      using less.prems n d by (simp add: read_loop.simps [of rd s n] call Some)
    from less.IH [OF _ rest] d n obtain c where "length c < n - length d" "pending s1 = c @ pending s'"
      by (metis diff_less length_greater_0_conv not_gr_zero)
    with d show ?thesis by (intro exI [of _ "d @ c"]) simp
  qed
qed

end

text \<open>
  \<open>alive s n\<close>: the source will go on until \<open>n\<close> more bytes have been read; a call may ask for more
  than that and get it.
\<close>

locale live_source = byte_source +
  fixes alive :: "'s \<Rightarrow> nat \<Rightarrow> bool"
  assumes alive_read: "alive s n \<Longrightarrow> 0 < n \<Longrightarrow> 0 < m \<Longrightarrow>
     \<exists>b s'. rd s m = (Some b, s') \<and> alive s' (n - length b)"
begin

lemma loop_total:
  "alive s n \<Longrightarrow> m \<le> n \<Longrightarrow> \<exists>b s'. read_loop rd s m acc = (Some b, s') \<and> alive s' (n - m)"
proof (induction m arbitrary: s n acc rule: less_induct)
  case (less m)
  show ?case
  proof (cases "m = 0")
    case True
    with less.prems show ?thesis by (simp add: read_loop.simps)
  next
    case False
    then obtain d s1 where call: "rd s m = (Some d, s1)" and al: "alive s1 (n - length d)"
      using alive_read less.prems by (metis le_zero_eq not_gr_zero)
    note d = read_some [OF call]
    then have "m - length d < m" and le: "m - length d \<le> n - length d" and len: "length d \<le> m"
      using False less.prems by auto
    from less.IH [OF this(1) al le, of "acc @ d"] d False call len less.prems(2)
    show ?thesis by (simp add: read_loop.simps [of rd s m])
  qed
qed

end

locale byte_sink =
  fixes wr :: "'s \<Rightarrow> bytes \<Rightarrow> nat option \<times> 's" and sent :: "'s \<Rightarrow> bytes"
  assumes write_some: "wr s b = (Some k, s') \<Longrightarrow> 0 < k \<and> k \<le> length b \<and> sent s' = sent s @ take k b"
    and write_none: "wr s b = (None, s') \<Longrightarrow> sent s' = sent s"
begin

text \<open>All of the buffer, or an error and a proper prefix of it.\<close>

lemma loop_outcome:
  "write_loop wr s b = (r, s') \<Longrightarrow>
     r = 0 \<and> sent s' = sent s @ b \<or> r = -1 \<and> (\<exists>k < length b. sent s' = sent s @ take k b)"
proof (induction b arbitrary: s rule: length_induct)
  case (1 b)
  show ?case
  proof (cases "b = []")
    case True
    with "1.prems" show ?thesis by (simp add: write_loop.simps)
  next
    case False
    obtain k s1 where call: "wr s b = (k, s1)" by fastforce
    show ?thesis
    proof (cases k)
      case None
      then show ?thesis
        using "1.prems" False call write_none [of s b s1] by (auto simp: write_loop.simps [of wr s b])
    next
      case (Some j)
      note j = write_some [OF call [unfolded Some]]
      have rest: "write_loop wr s1 (drop j b) = (r, s')"
        using "1.prems" False j by (simp add: write_loop.simps [of wr s b] call Some)
      have "length (drop j b) < length b" using j False by simp
      with "1.IH" rest have "r = 0 \<and> sent s' = sent s1 @ drop j b \<or>
          r = -1 \<and> (\<exists>k < length (drop j b). sent s' = sent s1 @ take k (drop j b))"
        by blast
      then show ?thesis
      proof (elim disjE conjE exE)
        assume "r = 0" "sent s' = sent s1 @ drop j b"
        with j show ?thesis by simp
      next
        fix i assume "r = -1" "i < length (drop j b)" "sent s' = sent s1 @ take i (drop j b)"
        with j show ?thesis by (intro disjI2 conjI exI [of _ "j + i"]) (auto simp: take_add)
      qed
    qed
  qed
qed

end

locale live_sink = byte_sink +
  fixes able :: "'s \<Rightarrow> nat \<Rightarrow> bool"
  assumes able_write: "able s n \<Longrightarrow> b \<noteq> [] \<Longrightarrow> length b \<le> n \<Longrightarrow>
     \<exists>k s'. wr s b = (Some k, s') \<and> able s' (n - k)"
begin

lemma loop_total:
  "able s n \<Longrightarrow> length b \<le> n \<Longrightarrow> \<exists>s'. write_loop wr s b = (0, s') \<and> able s' (n - length b)"
proof (induction b arbitrary: s n rule: length_induct)
  case (1 b)
  show ?case
  proof (cases "b = []")
    case True
    with "1.prems" show ?thesis by (simp add: write_loop.simps)
  next
    case False
    then obtain k s1 where call: "wr s b = (Some k, s1)" and al: "able s1 (n - k)"
      using able_write "1.prems" by blast
    note k = write_some [OF call]
    have "length (drop k b) < length b" and "length (drop k b) \<le> n - k" using k False "1.prems" by auto
    with "1.IH" al have "\<exists>s'. write_loop wr s1 (drop k b) = (0, s') \<and> able s' (n - k - length (drop k b))"
      by blast
    with k False call show ?thesis by (simp add: write_loop.simps [of wr s b])
  qed
qed

end

section \<open>The transport of the server keeps the promises\<close>

definition reads_ready :: "ws_io \<Rightarrow> nat \<Rightarrow> bool" where
  "reads_ready io n \<longleftrightarrow> n \<le> length (io_in io) \<and> n \<le> length (io_reads io) \<and> (\<forall>k \<in> set (io_reads io). 0 < k)"

definition writes_ready :: "ws_io \<Rightarrow> nat \<Rightarrow> bool" where
  "writes_ready io n \<longleftrightarrow> n \<le> length (io_writes io) \<and> (\<forall>k \<in> set (io_writes io). 0 < k)"

lemma take_drop_min: "take k xs @ drop (min (length xs) k) xs = xs"
  by (cases "k \<le> length xs") (simp_all add: min_def)

lemma io_read_Some:
  assumes "io_read io n = (Some b, io')"
  shows "b \<noteq> []" and "length b \<le> n" and "io_in io = b @ io_in io'"
    and "io_out io' = io_out io" and "io_writes io' = io_writes io"
  using assms
  by (auto simp: io_read_def Let_def take_drop_min split: if_splits list.splits)

lemma io_read_None: "io_read io n = (None, io') \<Longrightarrow> io_in io' = io_in io"
  by (auto simp: io_read_def Let_def split: if_splits list.splits)

lemma io_write_Some:
  assumes "io_write io b = (Some k, io')"
  shows "0 < k" and "k \<le> length b" and "io_out io' = io_out io @ take k b" and "io_in io' = io_in io"
  using assms by (auto simp: io_write_def Let_def split: if_splits list.splits)

lemma io_write_None: "io_write io b = (None, io') \<Longrightarrow> io_out io' = io_out io"
  by (auto simp: io_write_def Let_def split: if_splits list.splits)

lemma io_read_ready:
  assumes "reads_ready io n" and "0 < n" and "0 < m"
  shows "\<exists>b io'. io_read io m = (Some b, io') \<and> reads_ready io' (n - length b)"
proof -
  obtain k ks where k: "io_reads io = k # ks" and "0 < k"
    using assms by (cases "io_reads io") (auto simp: reads_ready_def)
  let ?b = "take (min (nat k) m) (io_in io)"
  have "io_in io \<noteq> []" using assms by (auto simp: reads_ready_def)
  then have "?b \<noteq> []" using \<open>0 < k\<close> assms(3) by auto
  moreover have "n - length ?b \<le> length ks"
  proof -
    have "0 < length ?b" and "n \<le> Suc (length ks)"
      using calculation assms(1) k by (simp_all add: reads_ready_def)
    then show ?thesis by linarith
  qed
  ultimately show ?thesis
    using assms k by (auto simp: io_read_def Let_def reads_ready_def intro: diff_le_mono)
qed

lemma io_write_ready:
  assumes "writes_ready io n" and "b \<noteq> []" and "length b \<le> n"
  shows "\<exists>k io'. io_write io b = (Some k, io') \<and> writes_ready io' (n - k)"
proof -
  obtain k ks where k: "io_writes io = k # ks" "0 < k"
    using assms by (cases "io_writes io") (auto simp: writes_ready_def)
  have "0 < min (nat k) (length b)" using assms(2) k(2) by simp
  moreover have "n \<le> Suc (length ks)" using assms(1) k(1) by (simp add: writes_ready_def)
  ultimately have "n - min (nat k) (length b) \<le> length ks" by linarith
  then show ?thesis
    using assms k by (auto simp: io_write_def Let_def writes_ready_def)
qed

interpretation io_source: live_source io_read io_in reads_ready
  by unfold_locales (auto dest: io_read_Some io_read_None io_read_ready)

interpretation io_sink: live_sink io_write io_out writes_ready
  by unfold_locales (auto dest: io_write_Some io_write_None io_write_ready)

section \<open>The two loops on the server's transport\<close>

lemma read_loop_keeps:
  assumes "\<And>s n r s'. rd s n = (r, s') \<Longrightarrow> f s' = f s"
  shows "read_loop rd s n acc = (r, s') \<Longrightarrow> f s' = f s"
proof (induction n arbitrary: s acc rule: less_induct)
  case (less n)
  show ?case
  proof (cases "n = 0")
    case True
    with less.prems show ?thesis by (simp add: read_loop.simps)
  next
    case False
    obtain d s1 where call: "rd s n = (d, s1)" by fastforce
    show ?thesis
      using less.prems less.IH False call assms [OF call]
      by (auto simp: read_loop.simps [of rd s n] split: option.splits if_splits)
        (metis diff_less length_greater_0_conv)
  qed
qed

lemma write_loop_keeps:
  assumes "\<And>s b r s'. wr s b = (r, s') \<Longrightarrow> f s' = f s"
  shows "write_loop wr s b = (r, s') \<Longrightarrow> f s' = f s"
proof (induction b arbitrary: s rule: length_induct)
  case (1 b)
  show ?case
  proof (cases "b = []")
    case True
    with "1.prems" show ?thesis by (simp add: write_loop.simps)
  next
    case False
    obtain k s1 where call: "wr s b = (k, s1)" by fastforce
    show ?thesis
      using "1.prems" "1.IH" False call assms [OF call]
      by (auto simp: write_loop.simps [of wr s b] split: option.splits if_splits)
        (metis diff_less length_drop length_greater_0_conv)
  qed
qed

lemma io_read_keeps: "io_read io n = (r, io') \<Longrightarrow> (io_out io', io_writes io') = (io_out io, io_writes io)"
  by (auto simp: io_read_def Let_def split: if_splits list.splits)

lemma io_write_keeps: "io_write io b = (r, io') \<Longrightarrow> (io_in io', io_reads io') = (io_in io, io_reads io)"
  by (auto simp: io_write_def Let_def split: if_splits list.splits)

lemma read_exact_Some:
  assumes "read_exact io n = (Some b, io')"
  shows "length b = n" and "io_in io = b @ io_in io'"
  using io_source.loop_some [OF assms [unfolded read_exact_def]] by auto

lemma read_exact_None:
  assumes "read_exact io n = (None, io')"
  shows "\<exists>c. length c < n \<and> io_in io = c @ io_in io'"
  using io_source.loop_none [OF assms [unfolded read_exact_def]] .

lemma read_exact_keeps:
  assumes "read_exact io n = (r, io')"
  shows "io_out io' = io_out io" and "io_writes io' = io_writes io"
  using read_loop_keeps [where rd = io_read and f = "\<lambda>io. (io_out io, io_writes io)",
      OF io_read_keeps assms [unfolded read_exact_def]] by simp_all

lemma read_exact_ready:
  assumes "reads_ready io (n + k)"
  obtains io' where "read_exact io n = (Some (take n (io_in io)), io')"
    and "io_in io' = drop n (io_in io)" and "reads_ready io' k"
proof -
  obtain b io' where call: "read_exact io n = (Some b, io')" and al: "reads_ready io' (n + k - n)"
    using io_source.loop_total [OF assms, of n "[]"] by (auto simp: read_exact_def)
  note d = read_exact_Some [OF call]
  show ?thesis by (rule that [of io']) (use call d al in auto)
qed

lemma write_all_outcome:
  assumes "write_all io b = (r, io')"
  shows "r = 0 \<and> io_out io' = io_out io @ b \<or> r = -1 \<and> (\<exists>k < length b. io_out io' = io_out io @ take k b)"
  using io_sink.loop_outcome [OF assms [unfolded write_all_def]] .

lemma write_all_keeps:
  assumes "write_all io b = (r, io')"
  shows "io_in io' = io_in io" and "io_reads io' = io_reads io"
  using write_loop_keeps [where wr = io_write and f = "\<lambda>io. (io_in io, io_reads io)",
      OF io_write_keeps assms [unfolded write_all_def]] by simp_all

lemma write_all_ready:
  assumes "writes_ready io (length b + k)"
  obtains io' where "write_all io b = (0, io')" and "io_out io' = io_out io @ b" and "writes_ready io' k"
proof -
  obtain io' where call: "write_all io b = (0, io')" and "writes_ready io' (length b + k - length b)"
    using io_sink.loop_total [OF assms, of b] by (auto simp: write_all_def)
  then show ?thesis using that write_all_outcome [OF call] by simp
qed

end
