(* ===== verification/Ws_Frame.thy ===== *)
theory Ws_Frame
  imports Ws_Io
begin

text \<open>
  WebSocket frames of \<open>src/server/websocket.c\<close>: \<open>websocket_apply_mask\<close>, \<open>ws_read_frame\<close> and
  \<open>ws_send_frame\<close> over the byte transport, the frame layout as a reference, and that the reader
  returns what a sender wrote, whatever the pieces the transport cuts it into.
\<close>

section \<open>The code\<close>

definition WS_MAX_FRAME_PAYLOAD :: nat where "WS_MAX_FRAME_PAYLOAD = 64 * 1024"

record ws_frame =
  fr_opcode :: u8
  fr_fin :: bool
  fr_payload_len :: u64
  fr_payload :: "bytes option"

text \<open>The loop over the buffer, in place: byte \<open>i\<close> is combined with byte \<open>i % 4\<close> of the key.\<close>

definition websocket_apply_mask :: "bytes option \<Rightarrow> bytes option \<Rightarrow> bytes option" where
  "websocket_apply_mask data key =
     (case (data, key) of
        (Some d, Some m) \<Rightarrow> Some (map (\<lambda>i. d ! i XOR m ! (i mod 4)) [0 ..< length d])
      | _ \<Rightarrow> data)"

definition ws_read_len :: "ws_io \<Rightarrow> u64 \<Rightarrow> u64 option \<times> ws_io" where
  "ws_read_len io len =
     (if len = 126 then
        (case read_exact io 2 of
           (None, io) \<Rightarrow> (None, io)
         | (Some ext, io) \<Rightarrow>
             (Some (ucast (push_bit 8 (ucast (ext ! 0)) OR ucast (ext ! 1) :: 32 word)), io))
      else if len = 127 then
        (case read_exact io 8 of
           (None, io) \<Rightarrow> (None, io)
         | (Some ext, io) \<Rightarrow> (Some (fold (\<lambda>b n. push_bit 8 n OR ucast b) ext 0), io))
      else (Some len, io))"

text \<open>
  \<open>mem\<close> says whether \<open>malloc\<close> finds the memory. The result is the frame, \<open>None\<close> for \<open>-1\<close>; the
  caller never looks at the frame of a failed call.
\<close>

definition ws_read_frame :: "bool \<Rightarrow> ws_io \<Rightarrow> ws_frame option \<times> ws_io" where
  "ws_read_frame mem io =
     (case read_exact io 2 of
        (None, io) \<Rightarrow> (None, io)
      | (Some header, io) \<Rightarrow>
          let fin = (header ! 0 AND 0x80 \<noteq> 0);
              opcode = header ! 0 AND 0x0F;
              mask_flag = (header ! 1 AND 0x80 \<noteq> 0)
          in (case ws_read_len io (ucast (header ! 1 AND 0x7F)) of
                (None, io) \<Rightarrow> (None, io)
              | (Some len, io) \<Rightarrow>
                  if WS_MAX_FRAME_PAYLOAD < unat len then (None, io)
                  else
                    (case (if mask_flag then read_exact io 4 else (Some [0, 0, 0, 0], io)) of
                       (None, io) \<Rightarrow> (None, io)
                     | (Some mask_key, io) \<Rightarrow>
                         if 0 < len then
                           if \<not> mem then (None, io)
                           else
                             (case read_exact io (unat len) of
                                (None, io) \<Rightarrow> (None, io)
                              | (Some payload, io) \<Rightarrow>
                                  (Some \<lparr>fr_opcode = opcode, fr_fin = fin, fr_payload_len = len,
                                     fr_payload = (if mask_flag
                                       then websocket_apply_mask (Some payload) (Some mask_key)
                                       else Some payload)\<rparr>, io))
                         else (Some \<lparr>fr_opcode = opcode, fr_fin = fin, fr_payload_len = len,
                                 fr_payload = None\<rparr>, io))))"

definition ws_frame_header :: "u8 \<Rightarrow> u64 \<Rightarrow> bytes" where
  "ws_frame_header opcode len =
     (0x80 OR (opcode AND 0x0F)) #
     (if len \<le> 125 then [ucast len]
      else if len \<le> 0xFFFF then [126, ucast (drop_bit 8 len AND 0xFF), ucast (len AND 0xFF)]
      else 127 # map (\<lambda>i. ucast (drop_bit (56 - 8 * i) len AND 0xFF)) [0 ..< 8])"

text \<open>The payload pointer must reach \<open>len\<close> bytes; with no bytes it is not followed.\<close>

definition ws_send_frame :: "ws_io \<Rightarrow> u8 \<Rightarrow> bytes \<Rightarrow> u64 \<Rightarrow> int \<times> ws_io" where
  "ws_send_frame io opcode payload len =
     (let (rc, io) = write_all io (ws_frame_header opcode len)
      in if rc \<noteq> 0 then (-1, io)
         else if 0 < len then
           let (rc, io) = write_all io (take (unat len) payload)
           in if rc \<noteq> 0 then (-1, io) else (0, io)
         else (0, io))"

section \<open>Masking\<close>

lemma mask_twice:
  "websocket_apply_mask (websocket_apply_mask (Some d) (Some m)) (Some m) = Some d"
  by (auto simp: websocket_apply_mask_def xor.assoc intro!: nth_equalityI)

lemma length_mask: "websocket_apply_mask (Some d) (Some m) = Some d' \<Longrightarrow> length d' = length d"
  by (auto simp: websocket_apply_mask_def)

section \<open>The layout\<close>

text \<open>The bytes of a frame as the standard lays them out, with or without a mask.\<close>

definition frame_length_field :: "u8 \<Rightarrow> nat \<Rightarrow> bytes" where
  "frame_length_field mask_bit n =
     (if n \<le> 125 then [mask_bit OR word_of_nat n]
      else if n \<le> 0xFFFF then (mask_bit OR 126) # be_bytes 2 (word_of_nat n :: u16)
      else (mask_bit OR 127) # be_bytes 8 (word_of_nat n :: u64))"

fun frame_wire :: "bool \<Rightarrow> u8 \<Rightarrow> bytes option \<Rightarrow> bytes \<Rightarrow> bytes" where
  "frame_wire fin opcode None d =
     ((if fin then 0x80 else 0) OR opcode) # frame_length_field 0 (length d) @ d"
| "frame_wire fin opcode (Some m) d =
     ((if fin then 0x80 else 0) OR opcode) # frame_length_field 0x80 (length d) @ m
       @ the (websocket_apply_mask (Some d) (Some m))"

section \<open>The reader as a function of the bytes\<close>

definition take_exact :: "nat \<Rightarrow> bytes \<Rightarrow> (bytes \<times> bytes) option" where
  "take_exact n bs = (if n \<le> length bs then Some (take n bs, drop n bs) else None)"

definition parse_len :: "u8 \<Rightarrow> bytes \<Rightarrow> (u64 \<times> bytes) option" where
  "parse_len field bs =
     (if field = 126 then map_option (\<lambda>(e, r). (load_bytes (rev e), r)) (take_exact 2 bs)
      else if field = 127 then map_option (\<lambda>(e, r). (load_bytes (rev e), r)) (take_exact 8 bs)
      else Some (ucast field, bs))"

definition parse_frame :: "bytes \<Rightarrow> (ws_frame \<times> bytes) option" where
  "parse_frame bs =
     Option.bind (take_exact 2 bs) (\<lambda>(h, bs).
     Option.bind (parse_len (h ! 1 AND 0x7F) bs) (\<lambda>(len, bs).
     if WS_MAX_FRAME_PAYLOAD < unat len then None
     else Option.bind (if h ! 1 AND 0x80 \<noteq> 0 then take_exact 4 bs else Some ([0, 0, 0, 0], bs)) (\<lambda>(key, bs).
     Option.bind (take_exact (unat len) bs) (\<lambda>(d, bs).
     Some (\<lparr>fr_opcode = h ! 0 AND 0x0F, fr_fin = (h ! 0 AND 0x80 \<noteq> 0), fr_payload_len = len,
       fr_payload = (if len = 0 then None else websocket_apply_mask (Some d) (Some key))\<rparr>, bs)))))"

lemma mask_zero: "websocket_apply_mask (Some d) (Some [0, 0, 0, 0]) = Some d"
proof -
  have "[0, 0, 0, 0 :: u8] ! (i mod 4) = 0" for i :: nat
  proof -
    have "i mod 4 = 0 \<or> i mod 4 = 1 \<or> i mod 4 = 2 \<or> i mod 4 = 3" by presburger
    then show ?thesis by (elim disjE) simp_all
  qed
  then show ?thesis by (auto simp: websocket_apply_mask_def intro: nth_equalityI)
qed

lemma read_exact_take:
  "read_exact io n = (Some b, io') \<Longrightarrow> take_exact n (io_in io) = Some (b, io_in io')"
  using read_exact_Some [of io n b io'] by (simp add: take_exact_def)

lemma take_exact_length: "take_exact n bs = Some (b, r) \<Longrightarrow> length b = n \<and> bs = b @ r"
  by (auto simp: take_exact_def split: if_splits)

lemma load_two: "load_bytes (rev [a, b]) = (push_bit 8 (ucast a) OR ucast b :: 'a::len word)"
  by (simp add: or.commute)

lemma ucast_two:
  "ucast (push_bit 8 (ucast (a :: u8)) OR ucast (b :: u8) :: 32 word) = (load_bytes (rev [a, b]) :: u64)"
  unfolding load_two by (rule bit_word_eqI) (auto simp: bit_simps dest: bit_imp_le_length)

lemma fold_load: "fold (\<lambda>b n. push_bit 8 n OR ucast b) bs 0 = (load_bytes (rev bs) :: u64)"
  by (induction bs rule: rev_induct) (simp_all add: or.commute)

lemma unat_byte: "unat (ucast (b :: u8) :: u64) = unat b"
proof -
  have "unat b < 2 ^ LENGTH(8)" by (rule unsigned_less)
  then show ?thesis by (simp add: unsigned_ucast_eq take_bit_nat_eq_self)
qed

lemma byte_is:
  "(ucast (b :: u8) :: u64) = 126 \<longleftrightarrow> b = 126" "(ucast b :: u64) = 127 \<longleftrightarrow> b = 127"
  by (simp_all add: word_unat_eq_iff unat_byte)

lemma two_bytes: "length e = 2 \<Longrightarrow> e = [e ! 0, e ! 1]"
  by (cases e; cases "tl e") auto

lemma read_len_refines:
  assumes "ws_read_len io (ucast field) = (Some len, io')"
  shows "parse_len field (io_in io) = Some (len, io_in io')"
proof -
  consider "field = 126" | "field = 127" | "field \<noteq> 126" "field \<noteq> 127" by blast
  then show ?thesis
  proof cases
    case 1
    then obtain e where r: "read_exact io 2 = (Some e, io')"
      and len: "len = ucast (push_bit 8 (ucast (e ! 0)) OR ucast (e ! 1) :: 32 word)"
      using assms by (auto simp: ws_read_len_def split: prod.splits option.splits)
    have e: "e = [e ! 0, e ! 1]" using read_exact_Some(1) [OF r] by (rule two_bytes)
    have "load_bytes (rev e) = len" unfolding len ucast_two using e by metis
    with 1 read_exact_take [OF r] show ?thesis by (simp add: parse_len_def)
  next
    case 2
    then obtain e where r: "read_exact io 8 = (Some e, io')"
      and len: "len = fold (\<lambda>b n. push_bit 8 n OR ucast b) e 0"
      using assms by (auto simp: ws_read_len_def split: prod.splits option.splits)
    with 2 read_exact_take [OF r] show ?thesis by (simp add: parse_len_def fold_load)
  next
    case 3
    with assms show ?thesis by (simp add: ws_read_len_def parse_len_def byte_is)
  qed
qed

lemma read_frame_refines:
  assumes "ws_read_frame mem io = (Some f, io')"
  shows "parse_frame (io_in io) = Some (f, io_in io')"
proof -
  obtain h io1 where h: "read_exact io 2 = (Some h, io1)"
    using assms by (auto simp: ws_read_frame_def split: prod.splits option.splits)
  obtain len io2 where len: "ws_read_len io1 (ucast (h ! 1 AND 0x7F)) = (Some len, io2)"
    using assms h by (auto simp: ws_read_frame_def Let_def split: prod.splits option.splits)
  have small: "\<not> WS_MAX_FRAME_PAYLOAD < unat len"
    using assms h len by (auto simp: ws_read_frame_def Let_def)
  obtain key io3 where key: "(if h ! 1 AND 0x80 \<noteq> 0 then read_exact io2 4 else (Some [0, 0, 0, 0], io2))
      = (Some key, io3)"
    using assms h len small
    by (simp add: ws_read_frame_def Let_def split: prod.splits option.splits)
  have pkey: "(if h ! 1 AND 0x80 \<noteq> 0 then take_exact 4 (io_in io2) else Some ([0, 0, 0, 0], io_in io2))
      = Some (key, io_in io3)"
    using key read_exact_take [of io2 4 key io3] by (auto split: if_splits)
  note parts = read_exact_take [OF h] read_len_refines [OF len] small pkey
  show ?thesis
  proof (cases "len = 0")
    case True
    with assms h len small key parts show ?thesis
      by (simp add: ws_read_frame_def parse_frame_def Let_def take_exact_def)
  next
    case False
    then obtain d where d: "read_exact io3 (unat len) = (Some d, io')"
      and f: "f = \<lparr>fr_opcode = h ! 0 AND 0x0F, fr_fin = (h ! 0 AND 0x80 \<noteq> 0), fr_payload_len = len,
        fr_payload = (if h ! 1 AND 0x80 \<noteq> 0 then websocket_apply_mask (Some d) (Some key) else Some d)\<rparr>"
      using assms h len small key
      by (simp add: ws_read_frame_def Let_def word_gt_0 split: prod.splits option.splits if_splits)
    have "h ! 1 AND 0x80 = 0 \<Longrightarrow> websocket_apply_mask (Some d) (Some key) = Some d"
      using key by (auto simp: mask_zero)
    with parts read_exact_take [OF d] False show ?thesis
      by (simp add: f parse_frame_def)
  qed
qed

text \<open>On a transport that goes on, the reader succeeds whenever the bytes hold a frame.\<close>

lemma read_exact_alive:
  assumes "reads_ready io (length (io_in io))" and "take_exact n (io_in io) = Some (b, r)"
  obtains io' where "read_exact io n = (Some b, io')" and "io_in io' = r" and "reads_ready io' (length r)"
proof -
  have n: "length (io_in io) = n + length r" and b: "b = take n (io_in io)" "r = drop n (io_in io)"
    using assms(2) by (auto simp: take_exact_def split: if_splits)
  show ?thesis
    using read_exact_ready [OF assms(1) [unfolded n]] that b by metis
qed

lemma read_len_alive:
  assumes "reads_ready io (length (io_in io))" and "parse_len field (io_in io) = Some (len, r)"
  obtains io' where "ws_read_len io (ucast field) = (Some len, io')" and "io_in io' = r"
    and "reads_ready io' (length r)"
proof -
  consider "field = 126" | "field = 127" | "field \<noteq> 126" "field \<noteq> 127" by blast
  then show ?thesis
  proof cases
    case 1
    then obtain e where e: "take_exact 2 (io_in io) = Some (e, r)" and len: "len = load_bytes (rev e)"
      using assms(2) by (auto simp: parse_len_def)
    obtain io' where r: "read_exact io 2 = (Some e, io')" "io_in io' = r" "reads_ready io' (length r)"
      by (rule read_exact_alive [OF assms(1) e])
    have "load_bytes (rev e) = (ucast (push_bit 8 (ucast (e ! 0)) OR ucast (e ! 1) :: 32 word) :: u64)"
      unfolding ucast_two using two_bytes [of e] take_exact_length [OF e] by metis
    with r 1 show ?thesis by (intro that [of io']) (simp_all add: ws_read_len_def len)
  next
    case 2
    then obtain e where e: "take_exact 8 (io_in io) = Some (e, r)" and len: "len = load_bytes (rev e)"
      using assms(2) by (auto simp: parse_len_def)
    obtain io' where r: "read_exact io 8 = (Some e, io')" "io_in io' = r" "reads_ready io' (length r)"
      by (rule read_exact_alive [OF assms(1) e])
    with 2 show ?thesis by (intro that [of io']) (simp_all add: ws_read_len_def len fold_load)
  next
    case 3
    with assms(2) have eq: "len = ucast field" "r = io_in io" by (simp_all add: parse_len_def)
    with 3 assms(1) show ?thesis by (intro that [of io]) (simp_all add: ws_read_len_def byte_is)
  qed
qed

lemma read_frame_alive:
  assumes "reads_ready io (length (io_in io))" and "parse_frame (io_in io) = Some (f, r)"
  obtains io' where "ws_read_frame True io = (Some f, io')" and "io_in io' = r"
    and "reads_ready io' (length r)"
proof -
  obtain h b1 where h: "take_exact 2 (io_in io) = Some (h, b1)"
    using assms(2) by (auto simp: parse_frame_def bind_eq_Some_conv)
  obtain len b2 where len: "parse_len (h ! 1 AND 0x7F) b1 = Some (len, b2)"
    and small: "\<not> WS_MAX_FRAME_PAYLOAD < unat len"
    using assms(2) h by (auto simp: parse_frame_def bind_eq_Some_conv split: if_splits)
  obtain key b3 where key: "(if h ! 1 AND 0x80 \<noteq> 0 then take_exact 4 b2 else Some ([0, 0, 0, 0], b2))
      = Some (key, b3)"
    using assms(2) h len small by (auto simp: parse_frame_def bind_eq_Some_conv split: if_splits)
  obtain d where d: "take_exact (unat len) b3 = Some (d, r)"
    and f: "f = \<lparr>fr_opcode = h ! 0 AND 0x0F, fr_fin = (h ! 0 AND 0x80 \<noteq> 0), fr_payload_len = len,
       fr_payload = (if len = 0 then None else websocket_apply_mask (Some d) (Some key))\<rparr>"
    using assms(2) h len small key by (auto simp: parse_frame_def bind_eq_Some_conv)
  obtain io1 where io1: "read_exact io 2 = (Some h, io1)" "io_in io1 = b1" "reads_ready io1 (length b1)"
    by (rule read_exact_alive [OF assms(1) h])
  obtain io2 where io2: "ws_read_len io1 (ucast (h ! 1 AND 0x7F)) = (Some len, io2)" "io_in io2 = b2"
    "reads_ready io2 (length b2)"
    using io1 len by (auto intro: read_len_alive [of io1])
  obtain io3 where io3: "(if h ! 1 AND 0x80 \<noteq> 0 then read_exact io2 4 else (Some [0, 0, 0, 0], io2))
      = (Some key, io3)" "io_in io3 = b3" "reads_ready io3 (length b3)"
    using io2 key by (cases "h ! 1 AND 0x80 \<noteq> 0") (auto intro: read_exact_alive [of io2])
  obtain io4 where io4: "read_exact io3 (unat len) = (Some d, io4)" "io_in io4 = r" "reads_ready io4 (length r)"
    using io3 d by (auto intro: read_exact_alive [of io3])
  have unmasked: "h ! 1 AND 0x80 = 0 \<Longrightarrow> websocket_apply_mask (Some d) (Some key) = Some d"
    using key by (auto simp: mask_zero)
  show ?thesis
  proof (cases "len = 0")
    case True
    with d have "b3 = r" by (simp add: take_exact_def)
    with True io1 io2 io3 small f show ?thesis
      by (intro that [of io3]) (simp_all add: ws_read_frame_def Let_def)
  next
    case False
    with io1 io2 io3 io4 small f unmasked show ?thesis
      by (intro that [of io4]) (simp_all add: ws_read_frame_def Let_def word_gt_0)
  qed
qed

section \<open>The reader inverts the layout\<close>

lemma field_bits:
  fixes field :: u8
  assumes "unat field < 128" and "mb = 0 \<or> mb = 0x80"
  shows "(mb OR field) AND 0x7F = field" and "(mb OR field) AND 0x80 \<noteq> 0 \<longleftrightarrow> mb = 0x80"
proof -
  have low: "take_bit 7 field = field"
    using assms(1) by (simp add: word_unat_eq_iff unsigned_take_bit_eq take_bit_nat_eq_self)
  then have "\<not> bit field 7" by (metis bit_take_bit_iff less_irrefl)
  have m: "(0x7F :: u8) = mask 7" by (simp add: mask_eq_exp_minus_1)
  show "(mb OR field) AND 0x7F = field"
    unfolding m take_bit_eq_mask [symmetric] using assms(2) low by auto
  have "field AND 0x80 = 0"
    using \<open>\<not> bit field 7\<close> and_exp_eq_0_iff_not_bit [of field 7] by simp
  then show "(mb OR field) AND 0x80 \<noteq> 0 \<longleftrightarrow> mb = 0x80"
    using assms(2) by (auto simp: bit.conj_disj_distrib2)
qed

lemma unat_of_small: "n < 2 ^ LENGTH('a) \<Longrightarrow> unat (word_of_nat n :: 'a::len word) = n"
  by (simp add: unat_of_nat take_bit_nat_eq_self)

lemma load_be: "8 * k \<le> LENGTH('a::len) \<Longrightarrow> LENGTH('a) \<le> 8 * k \<Longrightarrow>
    (load_bytes (rev (be_bytes k (w :: 'a word))) :: 'a word) = w"
  by (simp add: be_bytes_def load_mem_bytes)

lemma load_be_u16: "(load_bytes (rev (be_bytes 2 (word_of_nat n :: u16))) :: u64) = word_of_nat (n mod 2 ^ 16)"
proof -
  have "(load_bytes (mem_bytes 2 (word_of_nat n :: u16)) :: u64) = ucast (word_of_nat n :: u16)"
    by (rule bit_word_eqI) (auto simp: bit_load_bytes bit_mem_bytes bit_simps dest: bit_imp_le_length)
  also have "\<dots> = word_of_nat (n mod 2 ^ 16)"
    by (simp add: unsigned_of_nat take_bit_eq_mod)
  finally show ?thesis by (simp add: be_bytes_def)
qed

lemma parse_length_field:
  assumes "n \<le> WS_MAX_FRAME_PAYLOAD" and "mb = 0 \<or> mb = 0x80" and "frame_length_field mb n = b # bs"
  shows "parse_len (b AND 0x7F) (bs @ rest) = Some (word_of_nat n, rest)"
    and "b AND 0x80 \<noteq> 0 \<longleftrightarrow> mb = 0x80"
proof -
  have n: "n \<le> 65536" using assms(1) by (simp add: WS_MAX_FRAME_PAYLOAD_def)
  have both: "parse_len (b AND 0x7F) (bs @ rest) = Some (word_of_nat n, rest) \<and> (b AND 0x80 \<noteq> 0 \<longleftrightarrow> mb = 0x80)"
  proof (cases "n \<le> 125")
    case True
    then have u: "unat (word_of_nat n :: u8) = n" by (intro unat_of_small) simp
    then have small: "unat (word_of_nat n :: u8) < 128" using True by simp
    have ne: "(word_of_nat n :: u8) \<noteq> 126" "(word_of_nat n :: u8) \<noteq> 127"
      using True u by (auto simp: word_unat_eq_iff)
    have "(ucast (word_of_nat n :: u8) :: u64) = word_of_nat n"
      using u True by (simp add: word_unat_eq_iff unat_byte unat_of_small)
    with True assms(3) ne field_bits [OF small assms(2)] show ?thesis
      by (auto simp: frame_length_field_def parse_len_def)
  next
    case False
    show ?thesis
    proof (cases "n \<le> 0xFFFF")
      case True
      with False assms(3) field_bits [of 126, OF _ assms(2)] show ?thesis
        by (auto simp: frame_length_field_def parse_len_def take_exact_def load_be_u16)
    next
      case big: False
      with False assms(3) field_bits [of 127, OF _ assms(2)] show ?thesis
        by (auto simp: frame_length_field_def parse_len_def take_exact_def load_be)
    qed
  qed
  then show "parse_len (b AND 0x7F) (bs @ rest) = Some (word_of_nat n, rest)" "b AND 0x80 \<noteq> 0 \<longleftrightarrow> mb = 0x80"
    by simp_all
qed

lemma opcode_bits:
  fixes opcode :: u8
  assumes "unat opcode < 16"
  shows "((if fin then 0x80 else 0) OR opcode) AND 0x0F = opcode"
    and "((if fin then 0x80 else 0) OR opcode) AND 0x80 \<noteq> 0 \<longleftrightarrow> fin"
proof -
  have low: "take_bit 4 opcode = opcode"
    using assms by (simp add: word_unat_eq_iff unsigned_take_bit_eq take_bit_nat_eq_self)
  have m: "(0x0F :: u8) = mask 4" by (simp add: mask_eq_exp_minus_1)
  show "((if fin then 0x80 else 0) OR opcode) AND 0x0F = opcode"
    unfolding m take_bit_eq_mask [symmetric] using low by auto
  show "((if fin then 0x80 else 0) OR opcode) AND 0x80 \<noteq> 0 \<longleftrightarrow> fin"
    using field_bits(2) [of opcode "if fin then 0x80 else 0"] assms by auto
qed

text \<open>What the reader makes of a frame: its payload unmasked, or none when there is none.\<close>

definition frame_of :: "bool \<Rightarrow> u8 \<Rightarrow> bytes \<Rightarrow> ws_frame" where
  "frame_of fin opcode d = \<lparr>fr_opcode = opcode, fr_fin = fin, fr_payload_len = word_of_nat (length d),
     fr_payload = (if d = [] then None else Some d)\<rparr>"

lemma take_exact_append: "length a = n \<Longrightarrow> take_exact n (a @ r) = Some (a, r)"
  by (auto simp: take_exact_def)

lemma take_exact_two: "take_exact 2 (x # y # r) = Some ([x, y], r)"
  by (simp add: take_exact_def)

lemma parse_frame_step:
  assumes "parse_len (b AND 0x7F) bs = Some (len, bs')" and "unat len \<le> WS_MAX_FRAME_PAYLOAD"
    and "(if b AND 0x80 \<noteq> 0 then take_exact 4 bs' else Some ([0, 0, 0, 0], bs')) = Some (key, e @ rest)"
    and "length e = unat len"
  shows "parse_frame (h # b # bs) = Some (\<lparr>fr_opcode = h AND 0x0F, fr_fin = (h AND 0x80 \<noteq> 0),
     fr_payload_len = len, fr_payload = (if len = 0 then None else websocket_apply_mask (Some e) (Some key))\<rparr>,
     rest)"
  using assms by (simp add: parse_frame_def take_exact_two take_exact_append)

lemma parse_frame_wire:
  assumes "unat opcode < 16" and "length d \<le> WS_MAX_FRAME_PAYLOAD"
    and "key = None \<or> (\<exists>m. key = Some m \<and> length m = 4)"
  shows "parse_frame (frame_wire fin opcode key d @ rest) = Some (frame_of fin opcode d, rest)"
proof -
  define h :: u8 where "h = (if fin then 0x80 else 0) OR opcode"
  define mb :: u8 where "mb = (if key = None then 0 else 0x80)"
  let ?n = "length d"
  have mb: "mb = 0 \<or> mb = 0x80" by (simp add: mb_def)
  obtain b bs where f: "frame_length_field mb ?n = b # bs"
    by (cases "frame_length_field mb ?n") (auto simp: frame_length_field_def split: if_splits)
  note P = parse_length_field [OF assms(2) mb f]
  have "?n \<le> 65536" using assms(2) by (simp add: WS_MAX_FRAME_PAYLOAD_def)
  then have u: "unat (word_of_nat ?n :: u64) = ?n" by (intro unat_of_small) simp
  then have zero: "(word_of_nat ?n :: u64) = 0 \<longleftrightarrow> d = []" by (auto simp: word_unat_eq_iff)
  have max: "unat (word_of_nat ?n :: u64) \<le> WS_MAX_FRAME_PAYLOAD" using u assms(2) by simp
  have bit80: "b AND 0x80 \<noteq> 0 \<longleftrightarrow> key \<noteq> None" unfolding P(2) by (simp add: mb_def)
  have op: "h AND 0x0F = opcode" "h AND 0x80 \<noteq> 0 \<longleftrightarrow> fin"
    using opcode_bits [OF assms(1), of fin] by (simp_all only: h_def)
  show ?thesis
  proof (cases key)
    case None
    then have w: "frame_wire fin opcode key d @ rest = h # b # bs @ (d @ rest)"
      using f by (simp add: h_def mb_def)
    have "(if b AND 0x80 \<noteq> 0 then take_exact 4 (d @ rest) else Some ([0, 0, 0, 0], d @ rest))
        = Some ([0, 0, 0, 0], d @ rest)" using bit80 None by simp
    from parse_frame_step [OF P(1) max this] u show ?thesis
      by (simp add: w op zero mask_zero frame_of_def)
  next
    case (Some m)
    then have m: "length m = 4" using assms(3) by auto
    define e where "e = the (websocket_apply_mask (Some d) (Some m))"
    have e: "length e = ?n" "websocket_apply_mask (Some e) (Some m) = Some d"
      using mask_twice [of d m] by (auto simp: e_def websocket_apply_mask_def)
    have w: "frame_wire fin opcode key d @ rest = h # b # bs @ (m @ e @ rest)"
      using f Some by (simp add: h_def mb_def e_def)
    have "(if b AND 0x80 \<noteq> 0 then take_exact 4 (m @ e @ rest) else Some ([0, 0, 0, 0], m @ e @ rest))
        = Some (m, e @ rest)" using bit80 Some m by (simp add: take_exact_append)
    from parse_frame_step [OF P(1) max this] u e show ?thesis
      by (simp add: w op zero frame_of_def)
  qed
qed

section \<open>The sender writes the layout\<close>

lemma low_byte: "(ucast (x AND 0xFF) :: u8) = ucast (x :: u64)"
proof -
  have m: "(0xFF :: u64) = mask 8" by (simp add: mask_eq_exp_minus_1)
  show ?thesis
    unfolding m by (rule bit_word_eqI) (auto simp: bit_simps)
qed

lemma header_eq:
  "ws_frame_header opcode len = (0x80 OR (opcode AND 0x0F)) # frame_length_field 0 (unat len)"
proof -
  have small: "len \<le> 125 \<longleftrightarrow> unat len \<le> 125" "len \<le> 0xFFFF \<longleftrightarrow> unat len \<le> 0xFFFF"
    by (simp_all add: word_le_nat_alt)
  have one: "(word_of_nat (unat len) :: u8) = ucast len" by simp
  have two: "be_bytes 2 (word_of_nat (unat len) :: u16) = [ucast (drop_bit 8 len), ucast len]"
    by (simp add: be_bytes_def mem_bytes_def upt_rec numeral_2_eq_2)
      (auto intro!: bit_word_eqI simp: bit_simps)
  have eight: "be_bytes 8 (word_of_nat (unat len) :: u64) =
      map (\<lambda>i. ucast (drop_bit (56 - 8 * i) len)) [0 ..< 8]"
    by (simp add: be_bytes_def mem_bytes_def upt_rec)
  show ?thesis
    unfolding ws_frame_header_def frame_length_field_def small low_byte two eight one by simp
qed

lemma send_frame_outcome:
  assumes "unat len \<le> length payload" and "ws_send_frame io opcode payload len = (rc, io')"
  shows "rc = 0 \<and> io_out io' = io_out io @ frame_wire True (opcode AND 0x0F) None (take (unat len) payload) \<or>
     rc = -1 \<and> (\<exists>k < length (frame_wire True (opcode AND 0x0F) None (take (unat len) payload)).
        io_out io' = io_out io @ take k (frame_wire True (opcode AND 0x0F) None (take (unat len) payload)))"
proof -
  let ?d = "take (unat len) payload" and ?h = "ws_frame_header opcode len"
  have w: "frame_wire True (opcode AND 0x0F) None ?d = ?h @ ?d"
    using assms(1) by (simp add: header_eq min_def)
  obtain r1 io1 where c1: "write_all io ?h = (r1, io1)" by fastforce
  obtain r2 io2 where c2: "write_all io1 ?d = (r2, io2)" by fastforce
  note o1 = write_all_outcome [OF c1] and o2 = write_all_outcome [OF c2]
  have d: "len = 0 \<longleftrightarrow> ?d = []" using assms(1) by (auto simp: unat_eq_0)
  consider "r1 \<noteq> 0" | "r1 = 0" "len = 0" | "r1 = 0" "len \<noteq> 0" by blast
  then show ?thesis
  proof cases
    case 1
    then have "rc = -1" "io' = io1" using assms(2) c1 by (simp_all add: ws_send_frame_def)
    moreover obtain k where "k < length ?h" "io_out io1 = io_out io @ take k ?h" using o1 1 by auto
    ultimately show ?thesis unfolding w by (intro disjI2 conjI exI [of _ k]) auto
  next
    case 2
    then have "rc = 0" "io' = io1" using assms(2) c1 by (simp_all add: ws_send_frame_def)
    with o1 2 d show ?thesis unfolding w by simp
  next
    case 3
    then have rc: "rc = (if r2 \<noteq> 0 then -1 else 0)" "io' = io2"
      using assms(2) c1 c2 by (auto simp: ws_send_frame_def word_gt_0 split: if_splits)
    have h: "io_out io1 = io_out io @ ?h" using o1 3 by simp
    from o2 show ?thesis
    proof (elim disjE conjE exE)
      assume "r2 = 0" "io_out io2 = io_out io1 @ ?d"
      with rc h show ?thesis unfolding w by simp
    next
      fix k assume "r2 = -1" "k < length ?d" "io_out io2 = io_out io1 @ take k ?d"
      with rc h show ?thesis unfolding w by (intro disjI2 conjI exI [of _ "length ?h + k"]) auto
    qed
  qed
qed

section \<open>Properties\<close>

text \<open>
  C14: A frame laid out as the standard says, masked with any key or not, with at most 64 KiB of
  payload, is read back as its opcode, its final flag and its unmasked payload, however the
  transport cuts the bytes, as long as it goes on; what follows the frame stays unread, so the
  next frame is read the same way.
\<close>

theorem frame_read_back:
  assumes "unat opcode < 16" and "length d \<le> WS_MAX_FRAME_PAYLOAD"
    and "key = None \<or> (\<exists>m. key = Some m \<and> length m = 4)"
    and "io_in io = frame_wire fin opcode key d @ rest" and "reads_ready io (length (io_in io))"
  shows "\<exists>io'. ws_read_frame True io = (Some (frame_of fin opcode d), io') \<and>
     io_in io' = rest \<and> reads_ready io' (length rest)"
proof -
  have "parse_frame (io_in io) = Some (frame_of fin opcode d, rest)"
    unfolding assms(4) by (rule parse_frame_wire [OF assms(1-3)])
  then show ?thesis using read_frame_alive [OF assms(5)] by metis
qed

definition sample_io :: "bytes \<Rightarrow> ws_io" where
  "sample_io b = \<lparr>io_in = b, io_out = [], io_reads = replicate (length b) 1, io_writes = replicate 64 3\<rparr>"

theorem frame_read_back_witness:
  "\<exists>io'. ws_read_frame True (sample_io (frame_wire True 1 (Some [9, 8, 7, 6]) [1, 2, 3, 4, 5] @ [42])) =
     (Some (frame_of True 1 [1, 2, 3, 4, 5]), io') \<and> io_in io' = [42]"
  using frame_read_back [of 1 "[1, 2, 3, 4, 5]" "Some [9, 8, 7, 6]"
      "sample_io (frame_wire True 1 (Some [9, 8, 7, 6]) [1, 2, 3, 4, 5] @ [42])" True "[42]"]
  by (auto simp: WS_MAX_FRAME_PAYLOAD_def sample_io_def reads_ready_def)

text \<open>
  C15: The reader refines a function of the bytes: whatever the transport does, a frame that is
  returned is the one those bytes hold and exactly its bytes are used up, so two transports that
  deliver the same bytes in different pieces never give different frames.
\<close>

theorem frame_reading_refines:
  assumes "ws_read_frame mem io = (Some f, io')"
  shows "parse_frame (io_in io) = Some (f, io_in io') \<and>
     unat (fr_payload_len f) \<le> WS_MAX_FRAME_PAYLOAD \<and>
     (case fr_payload f of None \<Rightarrow> fr_payload_len f = 0
      | Some d \<Rightarrow> length d = unat (fr_payload_len f) \<and> d \<noteq> [])"
proof -
  have P: "parse_frame (io_in io) = Some (f, io_in io')" by (rule read_frame_refines [OF assms])
  then obtain h b1 len b2 key b3 d where d: "take_exact (unat len) b3 = Some (d, io_in io')"
    and len: "\<not> WS_MAX_FRAME_PAYLOAD < unat len"
    and f: "f = \<lparr>fr_opcode = h ! 0 AND 0x0F, fr_fin = (h ! 0 AND 0x80 \<noteq> 0), fr_payload_len = len,
       fr_payload = (if len = 0 then None else websocket_apply_mask (Some d) (Some key))\<rparr>"
    by (auto simp: parse_frame_def bind_eq_Some_conv split: if_splits)
  have "length d = unat len" using take_exact_length [OF d] by simp
  then show ?thesis
    using P len f by (auto simp: websocket_apply_mask_def unat_eq_0)
qed

theorem frame_reading_refines_witness:
  "\<exists>f io'. ws_read_frame True (sample_io (frame_wire True 1 None [7])) = (Some f, io') \<and>
     parse_frame (frame_wire True 1 None [7]) = Some (f, io_in io')"
proof -
  have "parse_frame (io_in (sample_io (frame_wire True 1 None [7]))) = Some (frame_of True 1 [7], [])"
    using parse_frame_wire [of 1 "[7]" None True "[]"] by (simp add: sample_io_def WS_MAX_FRAME_PAYLOAD_def)
  moreover have "reads_ready (sample_io (frame_wire True 1 None [7]))
      (length (io_in (sample_io (frame_wire True 1 None [7]))))"
    by (simp add: sample_io_def reads_ready_def)
  ultimately obtain io' where
    "ws_read_frame True (sample_io (frame_wire True 1 None [7])) = (Some (frame_of True 1 [7]), io')"
    using read_frame_alive by metis
  with frame_reading_refines [OF this] show ?thesis by (auto simp: sample_io_def)
qed

text \<open>
  A frame that announces more than 64 KiB is refused on its header: at most ten bytes are
  read, and no memory is asked for.
\<close>

theorem oversized_frame_refused:
  assumes "take_exact 2 (io_in io) = Some (h, r1)" and "parse_len (h ! 1 AND 0x7F) r1 = Some (len, r2)"
    and "WS_MAX_FRAME_PAYLOAD < unat len" and "ws_read_frame mem io = (f, io')"
  shows "f = None \<and> ws_read_frame (\<not> mem) io = (f, io') \<and> (\<exists>c. length c \<le> 10 \<and> io_in io = c @ io_in io')"
proof (cases "read_exact io 2")
  case (Pair hd io1)
  show ?thesis
  proof (cases hd)
    case None
    with Pair read_exact_None [of io 2 io1] assms(4) show ?thesis
      by (auto simp: ws_read_frame_def intro: less_imp_le_nat less_trans) 
  next
    case (Some h')
    have h': "h' = h" "io_in io1 = r1" "io_in io = h @ r1" "length h = 2"
      using read_exact_take [OF Pair [unfolded Some]] assms(1) take_exact_length [OF assms(1)] by simp_all
    obtain l io2 where l: "ws_read_len io1 (ucast (h ! 1 AND 0x7F)) = (l, io2)" by fastforce
    have big: "l = None \<or> l = Some len"
      using read_len_refines [of io1 "h ! 1 AND 0x7F" _ io2] l assms(2) h'(2) by (cases l) auto
    have used: "\<exists>c. length c \<le> 8 \<and> r1 = c @ io_in io2"
    proof (cases l)
      case None
      with l show ?thesis
        using read_exact_None [of io1 2 io2] read_exact_None [of io1 8 io2] h'(2)
        by (auto simp: ws_read_len_def split: if_splits prod.splits option.splits)
    next
      case (Some n)
      with l show ?thesis
        using read_exact_Some [of io1 2 _ io2] read_exact_Some [of io1 8 _ io2] h'(2)
        by (auto simp: ws_read_len_def split: if_splits prod.splits option.splits)
    qed
    then obtain c where "length c \<le> 8" "r1 = c @ io_in io2" by blast
    then have "length (h @ c) \<le> 10 \<and> io_in io = (h @ c) @ io_in io2" using h' by simp
    moreover have "f = None" "io' = io2" "ws_read_frame (\<not> mem) io = (f, io')"
      using assms(3,4) Pair Some h'(1) l big by (auto simp: ws_read_frame_def Let_def)
    ultimately show ?thesis by blast
  qed
qed

theorem oversized_frame_refused_witness:
  "fst (ws_read_frame True (sample_io ([0x82, 127] @ be_bytes 8 (0x10001 :: u64) @ [1, 2, 3]))) = None"
proof -
  let ?io = "sample_io ([0x82, 127] @ be_bytes 8 (0x10001 :: u64) @ [1, 2, 3])"
  have b: "(127 :: u8) AND 0x7F = 127" by simp
  have h: "take_exact 2 (io_in ?io) = Some ([0x82, 127], be_bytes 8 (0x10001 :: u64) @ [1, 2, 3])"
    by (simp add: sample_io_def take_exact_two)
  have "parse_len ([0x82, 127 :: u8] ! 1 AND 0x7F) (be_bytes 8 (0x10001 :: u64) @ [1, 2, 3]) =
      Some (0x10001, [1, 2, 3])"
    by (simp add: parse_len_def take_exact_append load_be)
  moreover obtain f io' where "ws_read_frame True ?io = (f, io')" by fastforce
  ultimately show ?thesis
    using oversized_frame_refused [OF h, where len = "0x10001" and ?r2.0 = "[1, 2, 3]" and mem = True] by (simp add: WS_MAX_FRAME_PAYLOAD_def)
qed

text \<open>
  Sending a frame: on success the peer gets exactly the standard layout of a final unmasked
  frame with the low four bits of the opcode, and a reader of those bytes gets the payload back;
  on failure the peer has got a proper prefix of it, never anything else.
\<close>

theorem frame_sent:
  assumes "unat len \<le> length payload" and "unat len \<le> WS_MAX_FRAME_PAYLOAD"
    and "ws_send_frame io opcode payload len = (rc, io')"
    and "w = frame_wire True (opcode AND 0x0F) None (take (unat len) payload)"
  shows "(rc = 0 \<and> io_out io' = io_out io @ w \<or>
      rc = -1 \<and> (\<exists>k < length w. io_out io' = io_out io @ take k w)) \<and>
    parse_frame w = Some (frame_of True (opcode AND 0x0F) (take (unat len) payload), [])"
proof -
  have m: "(0x0F :: u8) = mask 4" by (simp add: mask_eq_exp_minus_1)
  have "unat (opcode AND 0x0F) = take_bit 4 (unat opcode)"
    unfolding m take_bit_eq_mask [symmetric] by (simp add: unsigned_take_bit_eq)
  then have "unat (opcode AND 0x0F) < 16"
    using take_bit_nat_less_exp [of 4 "unat opcode"] by simp
  then have "parse_frame w = Some (frame_of True (opcode AND 0x0F) (take (unat len) payload), [])"
    using assms(1,2) parse_frame_wire [of "opcode AND 0x0F" "take (unat len) payload" None True "[]"]
    by (simp add: assms(4) min_def)
  with send_frame_outcome [OF assms(1,3)] assms(4) show ?thesis by simp
qed

theorem frame_sent_witness:
  "\<exists>rc io'. ws_send_frame (sample_io []) 0xA [1, 2, 3] 3 = (rc, io') \<and>
     parse_frame (frame_wire True 10 None [1, 2, 3]) = Some (frame_of True 10 [1, 2, 3], [])"
proof -
  obtain rc io' where s: "ws_send_frame (sample_io []) 0xA [1, 2, 3] 3 = (rc, io')" by fastforce
  from frame_sent [OF _ _ s refl] s show ?thesis by (simp add: WS_MAX_FRAME_PAYLOAD_def)
qed

end
