(* ===== verification/C_String.thy ===== *)
theory C_String
  imports Prelude
begin

text \<open>
  C strings and the library functions the program uses on them. A C string is the list of its
  bytes before the terminator; a buffer of bytes is read as one by \<open>c_string\<close>. Character classes
  are those of the C locale.
\<close>

definition chars :: "string \<Rightarrow> bytes" where
  "chars s = map of_char s"

definition c_string :: "bytes \<Rightarrow> bytes" where
  "c_string buf = takeWhile (\<lambda>b. b \<noteq> 0) buf"

definition isspace :: "u8 \<Rightarrow> bool" where
  "isspace b \<longleftrightarrow> b = 32 \<or> 9 \<le> b \<and> b \<le> 13"

definition tolower :: "u8 \<Rightarrow> u8" where
  "tolower b = (if 65 \<le> b \<and> b \<le> 90 then b + 32 else b)"

text \<open>\<open>strcasecmp (a, b) == 0\<close> and \<open>strncasecmp (a, b, n) == 0\<close>\<close>

definition strcaseeq :: "bytes \<Rightarrow> bytes \<Rightarrow> bool" where
  "strcaseeq a b \<longleftrightarrow> map tolower a = map tolower b"

definition strncaseeq :: "bytes \<Rightarrow> bytes \<Rightarrow> nat \<Rightarrow> bool" where
  "strncaseeq a b n \<longleftrightarrow> map tolower (take n a) = map tolower (take n b)"

text \<open>\<open>strchr\<close>: the rest of the string from the first occurrence on.\<close>

definition strchr :: "bytes \<Rightarrow> u8 \<Rightarrow> bytes option" where
  "strchr s c = (let r = dropWhile (\<lambda>b. b \<noteq> c) s in if r = [] then None else Some r)"

text \<open>\<open>strstr\<close>: the rest of the string from the first occurrence on.\<close>

fun strstr :: "bytes \<Rightarrow> bytes \<Rightarrow> bytes option" where
  "strstr s p =
     (if take (length p) s = p then Some s
      else case s of [] \<Rightarrow> None | _ # s' \<Rightarrow> strstr s' p)"

declare strstr.simps [simp del]

text \<open>
  Repeated \<open>strtok_r\<close> with one delimiter: the non-empty pieces between delimiters, in order.
\<close>

function strtok :: "u8 \<Rightarrow> bytes \<Rightarrow> bytes list" where
  "strtok d s =
     (let s' = dropWhile (\<lambda>b. b = d) s
      in if s' = [] then []
         else takeWhile (\<lambda>b. b \<noteq> d) s' # strtok d (dropWhile (\<lambda>b. b \<noteq> d) s'))"
  by pat_completeness auto
termination
proof (relation "measure (\<lambda>(d, s). length s)")
  fix d and s s' :: bytes
  assume s': "s' = dropWhile (\<lambda>b. b = d) s" and ne: "s' \<noteq> []"
  have "hd s' \<noteq> d" using hd_dropWhile [of "\<lambda>b. b = d" s] ne s' by simp
  then have "length (dropWhile (\<lambda>b. b \<noteq> d) s') < length s'"
    using ne by (cases s') (auto intro: le_imp_less_Suc length_dropWhile_le)
  also have "\<dots> \<le> length s" unfolding s' by (rule length_dropWhile_le)
  finally show "((d, dropWhile (\<lambda>b. b \<noteq> d) s'), d, s) \<in> measure (\<lambda>(d, s). length s)" by simp
qed simp

declare strtok.simps [simp del]

text \<open>\<open>%ns\<close> of \<open>sscanf\<close>: skip white space, then one to \<open>n\<close> other characters; the word and the rest.\<close>

definition scan_word :: "nat \<Rightarrow> bytes \<Rightarrow> (bytes \<times> bytes) option" where
  "scan_word n s =
     (let s' = dropWhile isspace s; w = take n (takeWhile (\<lambda>b. \<not> isspace b) s')
      in if w = [] then None else Some (w, drop (length w) s'))"

section \<open>Lemmas\<close>

lemma c_string_no_nul: "0 \<notin> set (c_string s)"
  by (auto simp: c_string_def dest: set_takeWhileD)

lemma c_string_id: "0 \<notin> set s \<Longrightarrow> c_string s = s"
  by (auto simp: c_string_def takeWhile_eq_all_conv)

lemma tolower_idem: "tolower (tolower b) = tolower b"
proof (cases "65 \<le> b \<and> b \<le> 90")
  case True
  then have "unat b + 32 < 2 ^ LENGTH(8)" by (simp add: word_le_nat_alt)
  then have "unat (b + 32) = unat b + 32" by (simp add: unat_word_ariths)
  then have "\<not> b + 32 \<le> 90" using True by (simp add: word_le_nat_alt)
  with True show ?thesis by (simp add: tolower_def)
next
  case False
  then show ?thesis by (simp add: tolower_def)
qed

lemma tolower_other:
  assumes "c < 65 \<or> 122 < c"
  shows "tolower b = c \<longleftrightarrow> b = c"
proof (cases "65 \<le> b \<and> b \<le> 90")
  case True
  then have "unat b + 32 < 2 ^ LENGTH(8)" by (simp add: word_le_nat_alt)
  then have "unat (b + 32) = unat b + 32" by (simp add: unat_word_ariths)
  with True assms show ?thesis by (auto simp: tolower_def word_le_nat_alt word_less_nat_alt)
next
  case False
  then have "tolower b = b" by (auto simp: tolower_def)
  then show ?thesis by simp
qed

lemma set_tolower: "c < 65 \<or> 122 < c \<Longrightarrow> c \<in> tolower ` S \<longleftrightarrow> c \<in> S"
  using tolower_other by (metis imageE image_eqI)

lemma strcaseeq_refl [simp]: "strcaseeq a a"
  by (simp add: strcaseeq_def)

lemma strcaseeq_lower [simp]: "strcaseeq (map tolower a) b = strcaseeq a b"
  by (simp add: strcaseeq_def comp_def tolower_idem)

lemma strtok_Nil: "strtok d [] = []"
  by (simp add: strtok.simps)

lemma strtok_delim: "strtok d (d # s) = strtok d s"
  by (subst (1 2) strtok.simps) simp

lemma strtok_token:
  assumes "t \<noteq> []" and "d \<notin> set t"
  shows "strtok d (t @ d # s) = t # strtok d s" and "strtok d t = [t]"
proof -
  have t: "dropWhile (\<lambda>b. b = d) (t @ r) = t @ r" for r using assms by (cases t) auto
  have mem: "b \<noteq> d" if "b \<in> set t" for b using assms(2) that by auto
  have all: "takeWhile (\<lambda>b. b \<noteq> d) (t @ d # s) = t" "dropWhile (\<lambda>b. b \<noteq> d) (t @ d # s) = d # s"
    using mem by (simp_all add: takeWhile_append2 dropWhile_append2)
  show "strtok d (t @ d # s) = t # strtok d s"
    by (subst strtok.simps) (simp add: Let_def t all assms(1) strtok_delim)
  have "takeWhile (\<lambda>b. b \<noteq> d) t = t" "dropWhile (\<lambda>b. b \<noteq> d) t = []"
    using mem by (simp_all add: takeWhile_eq_all_conv)
  then show "strtok d t = [t]"
    using t [of "[]"] assms(1)
    by (subst strtok.simps) (simp add: Let_def strtok_Nil del: dropWhile_eq_Nil_conv)
qed

lemma strtok_pieces: "t \<in> set (strtok d s) \<Longrightarrow> t \<noteq> [] \<and> d \<notin> set t \<and> set t \<subseteq> set s"
proof (induction d s rule: strtok.induct)
  case (1 d s)
  let ?s = "dropWhile (\<lambda>b. b = d) s"
  show ?case
  proof (cases "?s = []")
    case True
    then have "strtok d s = []" by (subst strtok.simps) (simp del: dropWhile_eq_Nil_conv)
    with "1.prems" show ?thesis by simp
  next
    case False
    then have hd: "hd ?s \<noteq> d" using hd_dropWhile [of "\<lambda>b. b = d" s] by simp
    have sub: "set ?s \<subseteq> set s" by (meson set_dropWhileD subsetI)
    have "strtok d s = takeWhile (\<lambda>b. b \<noteq> d) ?s # strtok d (dropWhile (\<lambda>b. b \<noteq> d) ?s)"
      using False by (subst strtok.simps) (simp add: Let_def del: dropWhile_eq_Nil_conv)
    with "1.prems" consider "t = takeWhile (\<lambda>b. b \<noteq> d) ?s"
      | "t \<in> set (strtok d (dropWhile (\<lambda>b. b \<noteq> d) ?s))"
      by auto
    then show ?thesis
    proof cases
      case 1
      then have "t \<noteq> []" using hd False by (cases ?s) auto
      moreover have "d \<notin> set t" and "set t \<subseteq> set s"
        unfolding 1 using sub by (auto dest: set_takeWhileD)
      ultimately show ?thesis by simp
    next
      case 2
      with "1.IH" [OF refl False 2] sub show ?thesis by (meson set_dropWhileD subset_iff)
    qed
  qed
qed

lemma scan_word_token:
  assumes "t \<noteq> []" and "length t \<le> n" and "\<forall>b \<in> set t. \<not> isspace b" and "s = [] \<or> isspace (hd s)"
  shows "scan_word n (t @ s) = Some (t, s)"
proof -
  have "dropWhile isspace (t @ s) = t @ s" using assms(1,3) by (cases t) auto
  moreover have "takeWhile (\<lambda>b. \<not> isspace b) (t @ s) = t"
    using assms(3,4) by (cases s) (auto simp: takeWhile_append2 takeWhile_eq_all_conv)
  moreover have "0 < n" using assms(1,2) by (cases t) auto
  ultimately show ?thesis using assms(1,2) by (simp add: scan_word_def Let_def)
qed

lemma scan_word_space: "isspace b \<Longrightarrow> scan_word n (b # s) = scan_word n s"
  by (simp add: scan_word_def)

lemma scan_word_bounds:
  "scan_word n s = Some (w, r) \<Longrightarrow> 0 < length w \<and> length w \<le> n \<and> set w \<subseteq> set s \<and> set r \<subseteq> set s
     \<and> (\<forall>b \<in> set w. \<not> isspace b)"
  by (auto simp: scan_word_def Let_def split: if_splits
      dest!: in_set_takeD in_set_dropD dest: set_takeWhileD set_dropWhileD)

section \<open>Searching\<close>

lemma find_upt_Some:
  "find P [a..<b] = Some i \<longleftrightarrow> a \<le> i \<and> i < b \<and> P i \<and> (\<forall>j. a \<le> j \<and> j < i \<longrightarrow> \<not> P j)"
proof
  assume "find P [a..<b] = Some i"
  then obtain k where k: "k < b - a" "P (a + k)" "i = a + k" "\<forall>j<k. \<not> P (a + j)"
    by (auto simp: find_Some_iff)
  have "\<not> P j" if "a \<le> j" "j < i" for j
    using k(4) [rule_format, of "j - a"] that k(3) by auto
  then show "a \<le> i \<and> i < b \<and> P i \<and> (\<forall>j. a \<le> j \<and> j < i \<longrightarrow> \<not> P j)"
    using k by auto
next
  assume r: "a \<le> i \<and> i < b \<and> P i \<and> (\<forall>j. a \<le> j \<and> j < i \<longrightarrow> \<not> P j)"
  then show "find P [a..<b] = Some i"
    unfolding find_Some_iff by (intro exI [of _ "i - a"]) auto
qed

lemma strstr_Some:
  "strstr s p = Some r \<longleftrightarrow> (\<exists>k \<le> length s. r = drop k s \<and> take (length p) r = p \<and>
      (\<forall>j < k. take (length p) (drop j s) \<noteq> p))"
proof (induction s p rule: strstr.induct)
  case (1 s p)
  show ?case
  proof (cases "take (length p) s = p")
    case True
    then have "strstr s p = Some s" by (simp add: strstr.simps)
    moreover have zero: "k = 0" if "\<forall>j < k. take (length p) (drop j s) \<noteq> p" for k
      using that [rule_format, of 0] True by (cases k) auto
    have "(\<exists>k \<le> length s. r = drop k s \<and> take (length p) r = p \<and>
        (\<forall>j < k. take (length p) (drop j s) \<noteq> p)) \<longleftrightarrow> r = s" (is "?L \<longleftrightarrow> ?R")
    proof
      assume ?L
      then obtain k where k: "r = drop k s" "\<forall>j < k. take (length p) (drop j s) \<noteq> p" by blast
      with zero [OF k(2)] show ?R by simp
    qed (use True in \<open>auto intro: exI [of _ 0]\<close>)
    ultimately show ?thesis by auto
  next
    case False
    show ?thesis
    proof (cases s)
      case Nil
      then show ?thesis using False by (auto simp: strstr.simps)
    next
      case (Cons b t)
      have "strstr s p = strstr t p" using False Cons by (subst strstr.simps) simp
      moreover have "(\<exists>k \<le> length s. r = drop k s \<and> take (length p) r = p \<and>
            (\<forall>j < k. take (length p) (drop j s) \<noteq> p)) \<longleftrightarrow>
          (\<exists>k \<le> length t. r = drop k t \<and> take (length p) r = p \<and>
            (\<forall>j < k. take (length p) (drop j t) \<noteq> p))" (is "?L \<longleftrightarrow> ?R")
      proof
        assume ?L
        then obtain k where k: "k \<le> length s" "r = drop k s" "take (length p) r = p"
          "\<forall>j < k. take (length p) (drop j s) \<noteq> p" by blast
        from k(2,3) False obtain m where "k = Suc m" by (cases k) auto
        with k Cons show ?R by (intro exI [of _ m]) fastforce
      next
        assume ?R
        then obtain k where k: "k \<le> length t" "r = drop k t" "take (length p) r = p"
          "\<forall>j < k. take (length p) (drop j t) \<noteq> p" by blast
        have "take (length p) (drop j s) \<noteq> p" if "j < Suc k" for j
          using that k(4) False Cons by (cases j) auto
        with k Cons show ?L by (intro exI [of _ "Suc k"]) auto
      qed
      ultimately show ?thesis using 1 [OF False Cons] by simp
    qed
  qed
qed

lemma strstr_found: "strstr (p @ s) p = Some (p @ s)"
  by (simp add: strstr.simps)

lemma strstr_skip:
  assumes "c \<notin> set l"
  shows "strstr (l @ s) (c # p) = strstr s (c # p)"
  using assms
proof (induction l)
  case (Cons a l)
  then show ?case by (subst append_Cons, subst strstr.simps) auto
qed simp

lemma strchr_Some:
  assumes "c \<notin> set l"
  shows "strchr (l @ c # s) c = Some (c # s)"
proof -
  have "dropWhile (\<lambda>b. b \<noteq> c) (l @ c # s) = c # s"
    using assms by (subst dropWhile_append2) auto
  then show ?thesis by (simp add: strchr_def)
qed

lemma strchr_SomeD:
  assumes "strchr s c = Some r"
  shows "s = takeWhile (\<lambda>b. b \<noteq> c) s @ r" and "hd r = c" and "r \<noteq> []"
proof -
  have r: "r = dropWhile (\<lambda>b. b \<noteq> c) s" "r \<noteq> []"
    using assms by (auto simp: strchr_def Let_def split: if_splits)
  then show "s = takeWhile (\<lambda>b. b \<noteq> c) s @ r" "r \<noteq> []" by simp_all
  show "hd r = c" using r hd_dropWhile [of "\<lambda>b. b \<noteq> c" s] by simp
qed

section \<open>Lines\<close>

fun join_lines :: "bytes \<Rightarrow> bytes list \<Rightarrow> bytes" where
  "join_lines sep [] = []"
| "join_lines sep [l] = l"
| "join_lines sep (l # ls) = l @ sep @ join_lines sep ls"

lemma join_lines_Cons: "ls \<noteq> [] \<Longrightarrow> join_lines sep (l # ls) = l @ sep @ join_lines sep ls"
  by (cases ls) simp_all

lemma concat_lines: "ls \<noteq> [] \<Longrightarrow> concat (map (\<lambda>l. l @ sep) ls) = join_lines sep ls @ sep"
  by (induction sep ls rule: join_lines.induct) simp_all

lemma strtok_lines: "list_all (\<lambda>l. l \<noteq> [] \<and> d \<notin> set l) ls \<Longrightarrow> strtok d (join_lines [d] ls) = ls"
  by (induction "[d]" ls rule: join_lines.induct) (simp_all add: strtok_Nil strtok_token)

lemma filter_lines: "filter P (join_lines sep ls) = join_lines (filter P sep) (map (filter P) ls)"
  by (induction sep ls rule: join_lines.induct) simp_all

lemma set_join_lines: "set (join_lines sep ls) \<subseteq> set sep \<union> \<Union> (set ` set ls)"
  by (induction sep ls rule: join_lines.induct) auto

end
