(* ===== verification/C_Number.thy ===== *)
theory C_Number
  imports C_String
begin

text \<open>
  Numbers in C text: what \<open>%d\<close>, \<open>%u\<close> and \<open>%llu\<close> of \<open>snprintf\<close> print, what \<open>snprintf\<close> leaves in a
  buffer that is too small, and \<open>strtol\<close> and \<open>strtoull\<close> with their white space, sign, prefix and
  clamping. Reading a printed number gives it back.
\<close>

section \<open>Printing\<close>

fun dec_nat :: "nat \<Rightarrow> bytes" where
  "dec_nat n = (if n < 10 then [48 + word_of_nat n] else dec_nat (n div 10) @ [48 + word_of_nat (n mod 10)])"

declare dec_nat.simps [simp del]

definition dec_int :: "int \<Rightarrow> bytes" where
  "dec_int i = (if i < 0 then 45 # dec_nat (nat (- i)) else dec_nat (nat i))"

text \<open>What \<open>snprintf (buf, n, ...)\<close> leaves in \<open>buf\<close>; the return value is the length of \<open>text\<close>.\<close>

definition snprintf :: "nat \<Rightarrow> bytes \<Rightarrow> bytes" where
  "snprintf n text = take (n - 1) text"

text \<open>Conversion of a \<open>long\<close> to \<open>int\<close>, and to an unsigned 32-bit integer.\<close>

definition to_int :: "int \<Rightarrow> int" where
  "to_int v = sint (word_of_int v :: u32)"

section \<open>Reading\<close>

definition digit_value :: "nat \<Rightarrow> u8 \<Rightarrow> nat option" where
  "digit_value base b =
     (let v = (if 48 \<le> b \<and> b \<le> 57 then Some (unat b - 48)
               else if 97 \<le> b \<and> b \<le> 122 then Some (unat b - 87)
               else if 65 \<le> b \<and> b \<le> 90 then Some (unat b - 55) else None)
      in case v of None \<Rightarrow> None | Some d \<Rightarrow> if d < base then Some d else None)"

abbreviation is_digit :: "nat \<Rightarrow> u8 \<Rightarrow> bool" where
  "is_digit base b \<equiv> digit_value base b \<noteq> None"

definition number_value :: "nat \<Rightarrow> bytes \<Rightarrow> nat" where
  "number_value base ds = foldl (\<lambda>v b. base * v + the (digit_value base b)) 0 ds"

definition drop_prefix :: "nat \<Rightarrow> bytes \<Rightarrow> bytes" where
  "drop_prefix base s =
     (if base = 16 \<and> 3 \<le> length s \<and> s ! 0 = 48 \<and> (s ! 1 = 120 \<or> s ! 1 = 88) \<and> is_digit 16 (s ! 2)
      then drop 2 s else s)"

text \<open>
  The sign, the magnitude and the rest; \<open>None\<close> when no digit is found, in which case the end pointer
  is the start of the string.
\<close>

definition strto :: "nat \<Rightarrow> bytes \<Rightarrow> (bool \<times> nat \<times> bytes) option" where
  "strto base s =
     (let s1 = dropWhile isspace s;
          neg = (s1 \<noteq> [] \<and> hd s1 = 45);
          s2 = (if s1 \<noteq> [] \<and> (hd s1 = 45 \<or> hd s1 = 43) then tl s1 else s1);
          s3 = drop_prefix base s2;
          ds = takeWhile (is_digit base) s3
      in if ds = [] then None
         else Some (neg, number_value base ds, dropWhile (is_digit base) s3))"

definition strtol :: "nat \<Rightarrow> bytes \<Rightarrow> int option" where
  "strtol base s =
     (case strto base s of
        None \<Rightarrow> None
      | Some (neg, m, r) \<Rightarrow> Some (max (- (2 ^ 63)) (min (2 ^ 63 - 1) (if neg then - int m else int m))))"

definition strtoull :: "nat \<Rightarrow> bytes \<Rightarrow> u64 option" where
  "strtoull base s =
     (case strto base s of
        None \<Rightarrow> None
      | Some (neg, m, r) \<Rightarrow>
          Some (if 2 ^ 64 \<le> m then - 1 else if neg then - word_of_nat m else word_of_nat m))"

section \<open>Printed numbers\<close>

lemma digit_small:
  assumes "d < 10" and "10 \<le> base"
  shows "digit_value base (48 + word_of_nat d) = Some d"
proof -
  have "unat (48 + word_of_nat d :: u8) = 48 + d"
    using assms by (simp add: unat_word_ariths unat_of_nat)
  then show ?thesis using assms by (simp add: digit_value_def word_le_nat_alt)
qed

lemma digit_not: "\<not> is_digit 10 32 \<and> \<not> is_digit 10 44 \<and> \<not> is_digit 10 45 \<and> \<not> is_digit 10 125 \<and> \<not> is_digit 10 34"
  by (simp add: digit_value_def)

lemma digit_not_space: "is_digit 10 b \<Longrightarrow> \<not> isspace b \<and> b \<noteq> 45 \<and> b \<noteq> 43 \<and> b \<noteq> 0 \<and> b \<noteq> 34"
  by (auto simp: digit_value_def isspace_def word_le_nat_alt Let_def split: if_splits)

lemma dec_nat_digits: "list_all (is_digit 10) (dec_nat n) \<and> dec_nat n \<noteq> []"
proof (induction n rule: dec_nat.induct)
  case (1 n)
  then show ?case
    by (cases "n < 10") (simp_all add: dec_nat.simps [of n] digit_small)
qed

lemma number_snoc: "number_value base (ds @ [b]) = base * number_value base ds + the (digit_value base b)"
  by (simp add: number_value_def)

lemma number_dec: "number_value 10 (dec_nat n) = n"
proof (induction n rule: dec_nat.induct)
  case (1 n)
  show ?case
  proof (cases "n < 10")
    case True
    then show ?thesis by (simp add: dec_nat.simps [of n] number_value_def digit_small)
  next
    case False
    with 1 show ?thesis by (simp add: dec_nat.simps [of n] number_snoc digit_small)
  qed
qed

lemma strto_dec_nat:
  assumes "rest = [] \<or> \<not> is_digit 10 (hd rest)"
  shows "strto 10 (dec_nat n @ rest) = Some (False, n, rest)"
    and "strto 10 (45 # dec_nat n @ rest) = Some (True, n, rest)"
proof -
  have all: "\<And>b. b \<in> set (dec_nat n) \<Longrightarrow> is_digit 10 b" and ne: "dec_nat n \<noteq> []"
    using dec_nat_digits [of n] by (auto simp: list_all_iff)
  have tw: "takeWhile (is_digit 10) (dec_nat n @ rest) = dec_nat n"
    and dw: "dropWhile (is_digit 10) (dec_nat n @ rest) = rest"
    using assms all by (cases rest; simp add: takeWhile_append2 dropWhile_append2)+
  obtain b t where b: "dec_nat n @ rest = b # t" "is_digit 10 b"
    using ne all by (cases "dec_nat n") auto
  have b': "\<not> isspace b" "b \<noteq> 45" "b \<noteq> 43" using digit_not_space [OF b(2)] by simp_all
  have p: "drop_prefix 10 s = s" for s by (simp add: drop_prefix_def)
  show "strto 10 (dec_nat n @ rest) = Some (False, n, rest)"
    using tw dw b b' ne by (simp add: strto_def p number_dec Let_def)
  have "\<not> isspace 45" by (simp add: isspace_def)
  then show "strto 10 (45 # dec_nat n @ rest) = Some (True, n, rest)"
    using tw dw ne by (simp add: strto_def p number_dec Let_def)
qed

lemma strtol_dec:
  assumes "rest = [] \<or> \<not> is_digit 10 (hd rest)" and "- (2 ^ 63) \<le> i" and "i < 2 ^ 63"
  shows "strtol 10 (dec_int i @ rest) = Some i"
  using assms by (auto simp: strtol_def dec_int_def strto_dec_nat)

lemma strtoull_dec:
  assumes "rest = [] \<or> \<not> is_digit 10 (hd rest)"
  shows "strtoull 10 (dec_nat (unat w) @ rest) = Some w"
proof -
  have "unat (w :: u64) < 2 ^ 64" using unsigned_less [of w, where ?'a = nat] by simp
  then show ?thesis using assms by (simp add: strtoull_def strto_dec_nat)
qed

lemma to_int_id: "- (2 ^ 31) \<le> i \<Longrightarrow> i < 2 ^ 31 \<Longrightarrow> to_int i = i"
  unfolding to_int_def by (subst signed_of_int) (simp add: signed_take_bit_int_eq_self)

lemma length_dec_nat: "n < 10 ^ k \<Longrightarrow> 0 < k \<Longrightarrow> length (dec_nat n) \<le> k"
proof (induction n arbitrary: k rule: dec_nat.induct)
  case (1 n)
  show ?case
  proof (cases "n < 10")
    case True
    then show ?thesis using "1.prems" by (simp add: dec_nat.simps [of n])
  next
    case False
    then obtain j where k: "k = Suc j" "0 < j" using "1.prems" by (cases k; cases "k - 1") auto
    then have "n div 10 < 10 ^ j" using "1.prems" by (simp add: less_mult_imp_div_less mult.commute)
    from "1.IH" [OF False this k(2)] k False show ?thesis by (simp add: dec_nat.simps [of n])
  qed
qed

lemma strto_plus:
  assumes "rest = [] \<or> \<not> is_digit 10 (hd rest)"
  shows "strto 10 (43 # dec_nat n @ rest) = Some (False, n, rest)"
proof -
  have "\<not> isspace 43" by (simp add: isspace_def)
  moreover obtain b t where b: "dec_nat n @ rest = b # t" "\<not> isspace b" "b \<noteq> 45" "b \<noteq> 43"
    using dec_nat_digits [of n] digit_not_space by (cases "dec_nat n") (auto simp: list_all_iff)
  ultimately show ?thesis
    using strto_dec_nat(1) [OF assms, of n] by (simp add: strto_def Let_def split: if_splits)
qed

end
