(* ===== verification/Ws_Media.thy ===== *)
theory Ws_Media
  imports Ws_Frame C_Number Engine_Delivery
begin

text \<open>
  Files sent to a client in \<open>src/server/websocket.c\<close>: \<open>send_ws_file\<close>, which sends a whole file as
  one binary frame, and \<open>send_video_chunk\<close>, which cuts a part of a file into QUIC packets. The
  packet loop takes the call that sends a packet as an argument; the reference is the list of
  packets \<open>chunk_packets\<close>, sent until one fails.
\<close>

section \<open>Files\<close>

text \<open>
  What the file system answers for a path: the size \<open>stat\<close> gives (\<open>None\<close> when it fails), whether
  \<open>fopen\<close> and \<open>fseek\<close> succeed, what \<open>ftell\<close> gives at the end, and the bytes \<open>fread\<close> can deliver.
\<close>

record file_view =
  fv_stat :: "int option"
  fv_open :: bool
  fv_seek :: bool
  fv_tell :: int
  fv_data :: bytes

definition segment_header :: "bytes \<Rightarrow> u32 \<Rightarrow> bytes" where
  "segment_header magic index =
     take 4 magic @ [ucast (drop_bit 24 index AND 0xFF), ucast (drop_bit 16 index AND 0xFF),
       ucast (drop_bit 8 index AND 0xFF), ucast (index AND 0xFF)]"

definition send_ws_file :: "bool \<Rightarrow> (bytes \<Rightarrow> file_view) \<Rightarrow> ws_io \<Rightarrow> bytes \<Rightarrow> bytes \<Rightarrow> u32 \<Rightarrow> int \<times> ws_io" where
  "send_ws_file mem fs io path magic index =
     (let f = fs path
      in if \<not> fv_open f then (-1, io)
         else if \<not> fv_seek f then (-1, io)
         else if fv_tell f \<le> 0 then (-1, io)
         else if \<not> mem then (-1, io)
         else
           let fsize = nat (fv_tell f); got = take fsize (fv_data f); total = fsize + 8
           in if length got \<noteq> fsize then (-1, io)
              else ws_send_frame io 2 (segment_header magic index @ got) (word_of_nat total))"

section \<open>A part of a video as QUIC packets\<close>

definition chunk_packet :: "u64 \<Rightarrow> u32 \<Rightarrow> u32 \<Rightarrow> u32 \<Rightarrow> bytes \<Rightarrow> quic_packet" where
  "chunk_packet cid sid pn off buffer =
     \<lparr>pk_flags = QUIC_FLAG_DATA, pk_connection_id = cid, pk_packet_number = pn, pk_stream_id = sid,
      pk_offset = off, pk_length = word_of_nat (length buffer), pk_payload = Some buffer\<rparr>"

text \<open>
  The loop: \<open>fsize\<close> is the file size cut to 32 bits, \<open>data\<close> what \<open>fread\<close> will deliver next. The
  result is the return code, the state of the sender and the next packet number.
\<close>

function chunk_loop :: "('s \<Rightarrow> quic_packet \<Rightarrow> int \<times> 's) \<Rightarrow> u64 \<Rightarrow> u32 \<Rightarrow> u32 \<Rightarrow> u32 \<Rightarrow> 's \<Rightarrow> bytes \<Rightarrow> u32 \<Rightarrow>
    u32 \<Rightarrow> u32 \<Rightarrow> int \<times> 's \<times> u32" where
  "chunk_loop send cid sid fsize offset s data remaining sent_bytes pn =
     (if 0 < remaining \<and> sent_bytes + offset < fsize then
        let to_read = (if QUIC_MAX_PAYLOAD < unat remaining then QUIC_MAX_PAYLOAD else unat remaining);
            buffer = take to_read data; n = word_of_nat (length buffer)
        in if buffer = [] then (0, s, pn)
           else
             let pkt = chunk_packet cid sid pn (offset + sent_bytes) buffer; (rc, s) = send s pkt
             in if rc \<noteq> 0 then (-1, s, pn + 1)
                else
                  let sent_bytes = sent_bytes + n
                  in if fsize \<le> sent_bytes + offset then (0, s, pn + 1)
                     else chunk_loop send cid sid fsize offset s (drop to_read data)
                            (if n \<le> remaining then remaining - n else 0) sent_bytes (pn + 1)
      else (0, s, pn))"
  by pat_completeness auto
termination
proof (relation "measure (\<lambda>(send, cid, sid, fsize, offset, s, data, remaining, sent, pn). unat remaining)", goal_cases)
  case 1
  then show ?case by simp
next
  case (2 send cid sid fsize offset s data remaining sent pn to_read buffer n pkt p rc s' sent')
  have le: "length buffer \<le> unat remaining" and pos: "0 < length buffer"
    using 2 by (auto split: if_splits)
  then have "length buffer < 2 ^ 32" using unsigned_less [of remaining, where ?'a = nat] by simp
  then have n: "unat n = length buffer" using 2(4) by (simp add: unat_of_nat take_bit_nat_eq_self)
  then have "n \<le> remaining" using le by (simp add: word_le_nat_alt)
  then have "unat (remaining - n) = unat remaining - length buffer" using n by (simp add: unat_sub)
  moreover have "unat remaining - length buffer < unat remaining" using le pos by linarith
  ultimately show ?case using \<open>n \<le> remaining\<close> by simp
qed

declare chunk_loop.simps [simp del]

text \<open>The engine as a sender; each packet takes the next two readings of the clock.\<close>

definition engine_send :: "world \<Rightarrow> (nat \<Rightarrow> int) \<Rightarrow> quic_engine \<times> nat \<Rightarrow> quic_packet \<Rightarrow> int \<times> (quic_engine \<times> nat)" where
  "engine_send w clk s pkt =
     (let (rc, e) = quic_engine_send_to_connection w (\<lambda>i. clk (2 * snd s + i)) (fst s) pkt
      in (rc, (e, snd s + 1)))"

text \<open>\<open>next_packet_number\<close> is read and written through its pointer.\<close>

definition send_video_chunk :: "world \<Rightarrow> (nat \<Rightarrow> int) \<Rightarrow> (bytes \<Rightarrow> file_view) \<Rightarrow> quic_engine option \<Rightarrow> u64 \<Rightarrow> u32 \<Rightarrow>
    bytes \<Rightarrow> u32 \<Rightarrow> u32 \<Rightarrow> u32 \<Rightarrow> int \<times> quic_engine option \<times> u32" where
  "send_video_chunk w clk fs engine cid sid file_path offset len next_packet_number =
     (case engine of
        None \<Rightarrow> (-1, engine, next_packet_number)
      | Some e \<Rightarrow>
          let f = fs file_path
          in case fv_stat f of
               None \<Rightarrow> (-1, engine, next_packet_number)
             | Some st_size \<Rightarrow>
                 let fsize = word_of_int st_size
                 in if fsize \<le> offset then (-1, engine, next_packet_number)
                    else if \<not> fv_open f then (-1, engine, next_packet_number)
                    else if \<not> fv_seek f then (-1, engine, next_packet_number)
                    else
                      let (rc, s, pn) = chunk_loop (engine_send w clk) cid sid fsize offset (e, 0)
                            (drop (unat offset) (fv_data f)) len 0 next_packet_number
                      in (rc, Some (fst s), pn))"

section \<open>The reference\<close>

text \<open>The packets that carry \<open>data\<close> from position \<open>pos\<close> on, in pieces of at most 16 KiB.\<close>

function chunk_packets :: "u64 \<Rightarrow> u32 \<Rightarrow> bytes \<Rightarrow> nat \<Rightarrow> u32 \<Rightarrow> quic_packet list" where
  "chunk_packets cid sid data pos pn =
     (if data = [] then []
      else chunk_packet cid sid pn (word_of_nat pos) (take QUIC_MAX_PAYLOAD data)
             # chunk_packets cid sid (drop QUIC_MAX_PAYLOAD data) (pos + QUIC_MAX_PAYLOAD) (pn + 1))"
  by pat_completeness auto
termination
  by (relation "measure (\<lambda>(cid, sid, data, pos, pn). length data)") (auto simp: QUIC_MAX_PAYLOAD_def)

declare chunk_packets.simps [simp del]

lemma chunk_packets_Nil [simp]: "chunk_packets cid sid [] pos pn = []"
  by (simp add: chunk_packets.simps)

text \<open>Sending a list of packets until one fails: the code, the state, how many were tried.\<close>

fun send_all :: "('s \<Rightarrow> quic_packet \<Rightarrow> int \<times> 's) \<Rightarrow> 's \<Rightarrow> quic_packet list \<Rightarrow> int \<times> 's \<times> nat" where
  "send_all send s [] = (0, s, 0)"
| "send_all send s (p # ps) =
     (let (rc, s) = send s p
      in if rc \<noteq> 0 then (-1, s, 1) else let (rc, s, k) = send_all send s ps in (rc, s, k + 1))"

lemma small_nat: "n < 2 ^ 32 \<Longrightarrow> unat (word_of_nat n :: u32) = n"
  by (simp add: unat_of_nat take_bit_nat_eq_self)

text \<open>
  The loop sends the packets of the reference: \<open>pos\<close> is the position reached, \<open>fsize\<close> the true size
  of the file, and \<open>data\<close> its bytes from \<open>pos\<close> on.
\<close>

lemma chunk_loop_sends:
  assumes "length data + pos = fsize" and "fsize < 2 ^ 32" and "unat (sent + offset) = pos"
  shows "chunk_loop send cid sid (word_of_nat fsize) offset s data remaining sent pn =
     (let (rc, s', k) = send_all send s (chunk_packets cid sid (take (unat remaining) data) pos pn)
      in (rc, s', pn + word_of_nat k))"
  using assms
proof (induction "unat remaining" arbitrary: s data remaining sent pn pos rule: less_induct)
  case less
  let ?fsz = "word_of_nat fsize :: u32"
  let ?take = "if QUIC_MAX_PAYLOAD < unat remaining then QUIC_MAX_PAYLOAD else unat remaining"
  let ?buf = "take ?take data"
  have usize: "unat ?fsz = fsize" using less.prems(2) by (rule small_nat)
  have lt: "sent + offset < ?fsz \<longleftrightarrow> data \<noteq> []"
    using less.prems usize by (auto simp: word_less_nat_alt)
  show ?case
  proof (cases "0 < remaining \<and> data \<noteq> []")
    case False
    then have "take (unat remaining) data = []" by (auto simp: word_gt_0 unat_eq_0)
    then have "chunk_packets cid sid (take (unat remaining) data) pos pn = []" by (simp only: chunk_packets_Nil)
    then show ?thesis
      using False lt by (subst chunk_loop.simps) auto
  next
    case True
    then have rem: "0 < unat remaining" by (simp add: word_less_nat_alt)
    then have take0: "0 < ?take" by (simp add: QUIC_MAX_PAYLOAD_def)
    then have buf: "?buf \<noteq> []" using True by simp
    have first: "take QUIC_MAX_PAYLOAD (take (unat remaining) data) = ?buf" by (simp add: min_def)
    define n where "n = (word_of_nat (length ?buf) :: u32)"
    have lb: "length ?buf \<le> unat remaining" by (simp add: min_def)
    then have un: "unat n = length ?buf" and le: "n \<le> remaining"
      using unsigned_less [of remaining, where ?'a = nat]
      by (simp_all add: n_def small_nat word_le_nat_alt)
    have urem: "unat (remaining - n) = unat remaining - length ?buf" using un le by (simp add: unat_sub)
    have off: "offset + sent = word_of_nat pos"
      using less.prems(3) by (metis add.commute of_nat_unat ucast_id)
    define rest where "rest = drop QUIC_MAX_PAYLOAD (take (unat remaining) data)"
    have pk: "chunk_packets cid sid (take (unat remaining) data) pos pn =
        chunk_packet cid sid pn (offset + sent) ?buf # chunk_packets cid sid rest (pos + QUIC_MAX_PAYLOAD) (pn + 1)"
      using True rem by (subst chunk_packets.simps) (simp add: off first rest_def unat_eq_0 word_gt_0)
    have pos': "pos + length ?buf \<le> fsize" using less.prems(1) by simp
    have next_pos: "unat (sent + n + offset) = pos + length ?buf"
    proof -
      have "sent + n + offset = (sent + offset) + n" by (simp add: ac_simps)
      then show ?thesis
        using less.prems(2,3) pos' un by (simp only:) (subst unat_word_ariths(1), simp)
    qed
    obtain rc s1 where call: "send s (chunk_packet cid sid pn (offset + sent) ?buf) = (rc, s1)" by fastforce
    have unfold: "chunk_loop send cid sid ?fsz offset s data remaining sent pn =
        (if rc \<noteq> 0 then (-1, s1, pn + 1)
         else if ?fsz \<le> sent + n + offset then (0, s1, pn + 1)
         else chunk_loop send cid sid ?fsz offset s1 (drop ?take data) (remaining - n) (sent + n) (pn + 1))"
      using True lt buf le call by (subst chunk_loop.simps) (simp add: Let_def n_def)
    consider "rc \<noteq> 0" | "rc = 0" "length ?buf = length data" | "rc = 0" "length ?buf < length data" by fastforce
    then show ?thesis
    proof cases
      case 1
      then show ?thesis by (simp add: unfold pk call)
    next
      case 2
      then have "?fsz \<le> sent + n + offset" using next_pos usize less.prems(1) by (simp add: word_le_nat_alt)
      moreover have "rest = []" using 2(2) by (auto simp: rest_def split: if_splits)
      moreover have "send s (chunk_packet cid sid pn (offset + sent) data) = (rc, s1)"
        using call 2(2) by simp
      ultimately show ?thesis using 2 by (simp add: unfold pk)
    next
      case 3
      then have full: "length ?buf = ?take" by auto
      have "\<not> ?fsz \<le> sent + n + offset" using next_pos usize less.prems(1) 3 by (simp add: word_le_nat_alt)
      then have step: "chunk_loop send cid sid ?fsz offset s data remaining sent pn =
          chunk_loop send cid sid ?fsz offset s1 (drop ?take data) (remaining - n) (sent + n) (pn + 1)"
        using 3 by (simp add: unfold)
      have "unat (remaining - n) < unat remaining" using urem full take0 lb by linarith
      moreover have "length (drop ?take data) + (pos + length ?buf) = fsize"
        using less.prems(1) full 3 by simp
      ultimately have IH: "chunk_loop send cid sid ?fsz offset s1 (drop ?take data) (remaining - n) (sent + n) (pn + 1) =
          (let (rc, s', k) = send_all send s1 (chunk_packets cid sid (take (unat (remaining - n)) (drop ?take data))
             (pos + length ?buf) (pn + 1)) in (rc, s', pn + 1 + word_of_nat k))"
        using less.prems(2) next_pos by (intro less.hyps) simp_all
      have "chunk_packets cid sid (take (unat (remaining - n)) (drop ?take data)) (pos + length ?buf) (pn + 1) =
          chunk_packets cid sid rest (pos + QUIC_MAX_PAYLOAD) (pn + 1)"
      proof (cases "QUIC_MAX_PAYLOAD < unat remaining")
        case True
        with full urem show ?thesis by (simp add: rest_def drop_take)
      next
        case False
        with full urem show ?thesis by (simp add: rest_def)
      qed
      then show ?thesis
        using 3 step IH by (simp add: pk call split: prod.split)
    qed
  qed
qed

section \<open>The packets carry the file\<close>

lemma chunk_packets_carry:
  assumes "file = pre @ data @ post" and "length pre = pos" and "length file < 2 ^ 32"
    and "p \<in> set (chunk_packets cid sid data pos pn)"
  shows "packet_ok p \<and> carries (\<lambda>_ i. file ! i) (arrival_of p) \<and> pk_stream_id p = sid \<and>
     pk_connection_id p = cid \<and> pk_flags p = QUIC_FLAG_DATA"
  using assms
proof (induction cid sid data pos pn arbitrary: pre rule: chunk_packets.induct)
  case (1 cid sid data pos pn)
  let ?d = "take QUIC_MAX_PAYLOAD data"
  have ne: "data \<noteq> []" using "1.prems"(4) by auto
  then have pk: "chunk_packets cid sid data pos pn = chunk_packet cid sid pn (word_of_nat pos) ?d
      # chunk_packets cid sid (drop QUIC_MAX_PAYLOAD data) (pos + QUIC_MAX_PAYLOAD) (pn + 1)"
    by (subst chunk_packets.simps) simp
  have small: "pos + length data < 2 ^ 32" using "1.prems"(1-3) by simp
  then have un: "unat (word_of_nat pos :: u32) = pos" "unat (word_of_nat (length ?d) :: u32) = length ?d"
    by (simp_all add: small_nat)
  have len: "length ?d \<le> QUIC_MAX_PAYLOAD" "0 < length ?d" using ne by (simp_all add: QUIC_MAX_PAYLOAD_def)
  show ?case
  proof (cases "p = chunk_packet cid sid pn (word_of_nat pos) ?d")
    case True
    have nz: "(word_of_nat (length ?d) :: u32) \<noteq> 0" using un(2) len(2) by (metis less_irrefl unat_0)
    have "?d = map (\<lambda>i. file ! i) [pos ..< pos + length ?d]"
      using "1.prems"(1,2) by (intro nth_equalityI) (auto simp: nth_append)
    moreover have "pos + length ?d < 2 ^ 32" using small by simp
    ultimately show ?thesis
      using un len nz
      by (simp add: True chunk_packet_def packet_ok_def packet_body_def carries_def arrival_of_def
          arrival_ok_def QUIC_MAX_PAYLOAD_def)
  next
    case False
    then have m: "p \<in> set (chunk_packets cid sid (drop QUIC_MAX_PAYLOAD data) (pos + QUIC_MAX_PAYLOAD) (pn + 1))"
      using "1.prems"(4) pk by simp
    then have "drop QUIC_MAX_PAYLOAD data \<noteq> []" by auto
    then have "length ?d = QUIC_MAX_PAYLOAD" by simp
    then have "length (pre @ ?d) = pos + QUIC_MAX_PAYLOAD" "file = (pre @ ?d) @ drop QUIC_MAX_PAYLOAD data @ post"
      using "1.prems"(1,2) by simp_all
    from "1.IH" [OF ne this(2,1) "1.prems"(3) m] show ?thesis .
  qed
qed

lemma chunk_packets_cover:
  assumes "pos + length data < 2 ^ 32"
  shows "{pos ..< pos + length data} \<subseteq> ranges_of sid (map arrival_of (chunk_packets cid sid data pos pn))"
  using assms
proof (induction cid sid data pos pn rule: chunk_packets.induct)
  case (1 cid sid data pos pn)
  show ?case
  proof (cases "data = []")
    case False
    let ?d = "take QUIC_MAX_PAYLOAD data" and ?t = "drop QUIC_MAX_PAYLOAD data"
    have pk: "chunk_packets cid sid data pos pn = chunk_packet cid sid pn (word_of_nat pos) ?d
        # chunk_packets cid sid ?t (pos + QUIC_MAX_PAYLOAD) (pn + 1)"
      using False by (subst chunk_packets.simps) simp
    have un: "unat (word_of_nat pos :: u32) = pos" "unat (word_of_nat (length ?d) :: u32) = length ?d"
      using "1.prems" by (simp_all add: small_nat)
    have head: "arrival_range (ar_off (arrival_of (chunk_packet cid sid pn (word_of_nat pos) ?d)))
        (ar_len (arrival_of (chunk_packet cid sid pn (word_of_nat pos) ?d))) = {pos ..< pos + length ?d}"
      using un by (simp add: arrival_range_def arrival_of_def chunk_packet_def)
    have tail: "{pos + QUIC_MAX_PAYLOAD ..< pos + QUIC_MAX_PAYLOAD + length ?t} \<subseteq>
        ranges_of sid (map arrival_of (chunk_packets cid sid ?t (pos + QUIC_MAX_PAYLOAD) (pn + 1)))"
    proof (cases "QUIC_MAX_PAYLOAD < length data")
      case True
      then show ?thesis using "1.prems" by (intro "1.IH" [OF False]) simp
    qed simp
    have "{pos ..< pos + length data} \<subseteq> {pos ..< pos + length ?d} \<union>
        {pos + QUIC_MAX_PAYLOAD ..< pos + QUIC_MAX_PAYLOAD + length ?t}" by auto
    moreover have "ar_sid (arrival_of (chunk_packet cid sid pn (word_of_nat pos) ?d)) = sid"
      by (simp add: arrival_of_def chunk_packet_def)
    ultimately show ?thesis
      unfolding pk using head tail by (simp add: ranges_of_Cons) blast
  qed simp
qed

lemma chunk_sends:
  assumes "fv_stat (fs path) = Some (int (length (fv_data (fs path))))" and "fv_open (fs path)" and "fv_seek (fs path)"
    and "length (fv_data (fs path)) < 2 ^ 32" and "unat offset < length (fv_data (fs path))"
  shows "send_video_chunk w clk fs (Some e) cid sid path offset len pn =
     (let (rc, s, k) = send_all (engine_send w clk) (e, 0)
            (chunk_packets cid sid (take (unat len) (drop (unat offset) (fv_data (fs path)))) (unat offset) pn)
      in (rc, Some (fst s), pn + word_of_nat k))"
proof -
  let ?n = "length (fv_data (fs path))"
  have w: "(word_of_int (int ?n) :: u32) = word_of_nat ?n" by simp
  have "unat (word_of_nat ?n :: u32) = ?n" using assms(4) by (rule small_nat)
  then have "\<not> (word_of_nat ?n :: u32) \<le> offset" using assms(5) by (simp add: word_le_nat_alt)
  moreover have "chunk_loop (engine_send w clk) cid sid (word_of_nat ?n) offset (e, 0)
      (drop (unat offset) (fv_data (fs path))) len 0 pn =
      (let (rc, s, k) = send_all (engine_send w clk) (e, 0)
            (chunk_packets cid sid (take (unat len) (drop (unat offset) (fv_data (fs path)))) (unat offset) pn)
       in (rc, s, pn + word_of_nat k))"
    using assms(4,5) by (intro chunk_loop_sends) simp_all
  ultimately show ?thesis
    using assms(1-3) by (simp add: send_video_chunk_def w split: prod.split)
qed

section \<open>Properties\<close>

text \<open>
  C26:: A chunk request sends exactly the requested part of the file: the packets of at most 16 KiB that
  carry it, with consecutive numbers and offsets, in order until one fails, and the next packet
  number moves on by the number of packets tried.
\<close>

theorem video_chunk_sent:
  assumes "fv_stat (fs path) = Some (int (length (fv_data (fs path))))" and "fv_open (fs path)" and "fv_seek (fs path)"
    and "length (fv_data (fs path)) < 2 ^ 32" and "unat offset < length (fv_data (fs path))"
  shows "send_video_chunk w clk fs (Some e) cid sid path offset len pn =
     (let (rc, s, k) = send_all (engine_send w clk) (e, 0)
            (chunk_packets cid sid (take (unat len) (drop (unat offset) (fv_data (fs path)))) (unat offset) pn)
      in (rc, Some (fst s), pn + word_of_nat k))"
  by (rule chunk_sends [where fs = fs and path = path, OF assms])

definition sample_file :: "bytes \<Rightarrow> file_view" where
  "sample_file path = \<lparr>fv_stat = Some 3, fv_open = True, fv_seek = True, fv_tell = 3, fv_data = [10, 20, 30]\<rparr>"

theorem video_chunk_sent_witness:
  "\<forall>w clk e. send_video_chunk w clk sample_file (Some e) 7 1 [] 1 8 5 =
     (let (rc, s, k) = send_all (engine_send w clk) (e, 0) [chunk_packet 7 1 5 1 [20, 30]]
      in (rc, Some (fst s), 5 + word_of_nat k))"
proof -
  have "chunk_packets 7 1 [20, 30] 1 5 = [chunk_packet 7 1 5 1 [20, 30]]"
    by (subst chunk_packets.simps) (simp add: QUIC_MAX_PAYLOAD_def)
  then show ?thesis
    using video_chunk_sent [of sample_file "[]" 1 _ _ _ 7 1 8 5] by (simp add: sample_file_def)
qed

end
