(* ===== verification/Video_Flow.thy ===== *)
theory Video_Flow
  imports Ws_Media Engine_Properties
begin

text \<open>
  A video from the file to a receiver: what \<open>send_video_chunk\<close> puts on the network, decoded and handed to
  the stream reassembly of this program, gives back the part of the file.
\<close>

section \<open>The datagrams of a chunk\<close>

fun datagrams :: "engine_output list \<Rightarrow> bytes list" where
  "datagrams [] = []"
| "datagrams (Out_send addr d r # os) = d # datagrams os"
| "datagrams (out # os) = datagrams os"

lemma sent_to_connection:
  assumes "engine_ok e" and "packet_ok p" and "quic_engine_send_to_connection w clk e p = (0, e')"
  shows "engine_ok e' \<and> (\<exists>addr r. qe_out e' = qe_out e @ [Out_send addr (wire p) r])"
proof -
  obtain found e1 where g: "quic_engine_get_connection e (pk_connection_id p) (clk 0) = (found, e1)" by fastforce
  have ok: "engine_ok e1" using engine_ok_get_connection [OF assms(1), of "pk_connection_id p" "clk 0"] g by simp
  have out: "qe_out e1 = qe_out e"
    using g cleanup_out [of e "clk 0"] assms(1)
    by (auto simp: quic_engine_get_connection_def Let_def engine_ok_def conns_ok_def split: option.splits if_splits)
  obtain addr where a: "found = Some addr" "quic_engine_send w (clk 1) e1 p addr = (0, e')"
    using assms(3) by (auto simp: quic_engine_send_to_connection_def g split: option.splits)
  have "engine_ok e'" using engine_ok_send [OF ok, of w "clk 1" p addr] a(2) by simp
  moreover have "qe_out e' = qe_out e1 @ [Out_send addr (wire p) (sendto_result w e1 addr (wire p))]"
    using a(2) by (auto simp: send_wire [OF assms(2)] Let_def emit_def quic_engine_track_pending_def split: if_splits option.splits)
  ultimately show ?thesis using out by simp
qed

lemma send_all_datagrams:
  assumes "engine_ok e" and "list_all packet_ok ps" and "send_all (engine_send w clk) (e, k) ps = (0, s, n)"
  shows "\<exists>outs. qe_out (fst s) = qe_out e @ outs \<and> datagrams outs = map wire ps"
  using assms
proof (induction ps arbitrary: e k n)
  case (Cons p ps)
  obtain rc e1 where one: "quic_engine_send_to_connection w (\<lambda>i. clk (2 * k + i)) e p = (rc, e1)" by fastforce
  obtain rc2 s2 n2 where rest: "send_all (engine_send w clk) (e1, Suc k) ps = (rc2, s2, n2)" by (metis prod_cases3)
  have rc: "rc = 0" "rc2 = 0" "s2 = s"
    using Cons.prems(3) rest engine_send_def [of w clk "(e, k)" p] by (auto simp: one split: if_splits)
  from sent_to_connection [OF Cons.prems(1) _ one [unfolded rc]] Cons.prems(2) obtain addr r where
    e1: "engine_ok e1" "qe_out e1 = qe_out e @ [Out_send addr (wire p) r]" by auto
  from Cons.IH [OF e1(1) _ rest [unfolded rc]] Cons.prems(2) obtain outs where
    "qe_out (fst s) = qe_out e1 @ outs" "datagrams outs = map wire ps" by auto
  with e1(2) show ?case by (intro exI [of _ "Out_send addr (wire p) r # outs"]) simp
qed auto

section \<open>Decoded again\<close>

text \<open>The packets a receiver decodes from what an engine has sent since it was \<open>e\<close>.\<close>

definition received :: "quic_engine \<Rightarrow> quic_engine \<Rightarrow> arrival set" where
  "received e e' = {arrival_of p | p. \<exists>d \<in> set (datagrams (drop (length (qe_out e)) (qe_out e'))). quic_packet_deserialize (Some d) = Some p}"

lemma chunk_packets_body:
  assumes "p \<in> set (chunk_packets cid sid data pos pn)" and "length data < 2 ^ 32"
  shows "pk_payload p = Some (packet_body p)"
  using assms
proof (induction cid sid data pos pn rule: chunk_packets.induct)
  case (1 cid sid data pos pn)
  let ?d = "take QUIC_MAX_PAYLOAD data"
  have ne: "data \<noteq> []" using "1.prems"(1) by auto
  have "unat (word_of_nat (length ?d) :: u32) = length ?d" using "1.prems"(2) by (intro small_nat) simp
  then have "packet_body (chunk_packet cid sid pn (word_of_nat pos) ?d) = ?d"
    by (simp only: packet_body_def chunk_packet_def quic_packet.simps option.case take_all order_refl)
  then show ?case
    using 1 ne by (subst (asm) (2) chunk_packets.simps) (auto simp: chunk_packet_def)
qed

lemma split_file: "f = take a f @ take b (drop a f) @ drop b (drop a f)"
  by (metis append_take_drop_id)

lemma chunk_received:
  assumes "engine_ok e" and "fv_stat (fs path) = Some (int (length (fv_data (fs path))))" and "fv_open (fs path)"
    and "fv_seek (fs path)" and "length (fv_data (fs path)) < 2 ^ 32"
    and "send_video_chunk w clk fs (Some e) cid sid path offset len pn = (0, Some e', pn')"
  shows "received e e' = arrival_of ` set (chunk_packets cid sid (take (unat len) (drop (unat offset) (fv_data (fs path)))) (unat offset) pn)"
    and "unat offset < length (fv_data (fs path))"
proof -
  let ?f = "fv_data (fs path)"
  let ?ps = "chunk_packets cid sid (take (unat len) (drop (unat offset) ?f)) (unat offset) pn"
  have "unat (word_of_nat (length ?f) :: u32) = length ?f" using assms(5) by (rule small_nat)
  then show less: "unat offset < length ?f"
    using assms(2-4,6) by (auto simp: send_video_chunk_def Let_def word_le_nat_alt not_le split: if_splits)
  obtain rc s n where send: "send_all (engine_send w clk) (e, 0) ?ps = (rc, s, n)" by (metis prod_cases3)
  have rc: "rc = 0" "e' = fst s"
    using assms(6) unfolding chunk_sends [where fs = fs and path = path, OF assms(2-5) less] send by simp_all
  have ok: "packet_ok p \<and> pk_payload p = Some (packet_body p)" if "p \<in> set ?ps" for p
    using chunk_packets_carry [OF split_file _ _ that] chunk_packets_body [OF that] less assms(5) by simp
  then have "list_all packet_ok ?ps" by (simp add: list_all_iff)
  from send_all_datagrams [OF assms(1) this send [unfolded rc(1)]] obtain outs where
    "qe_out e' = qe_out e @ outs" "datagrams outs = map wire ?ps" unfolding rc(2) by blast
  then have "datagrams (drop (length (qe_out e)) (qe_out e')) = map wire ?ps" by simp
  moreover have "quic_packet_deserialize (Some (wire p)) = Some p" if "p \<in> set ?ps" for p
    using roundtrip [of p] ok [OF that] by (cases p) simp
  ultimately show "received e e' = arrival_of ` set ?ps"
    unfolding received_def by (auto simp: image_iff)
qed

section \<open>Properties\<close>


text \<open>The first byte is there already, and the chunk asks for the rest of a file of three bytes.\<close>

lemma sample_chunk:
  obtains e' where "send_video_chunk sample_world (\<lambda>_. 0) sample_file (Some connected_engine) 7 1 [] 1 8 5 = (0, Some e', 6)"
    and "received connected_engine e' = {arrival_of (chunk_packet 7 1 5 1 [20, 30])}"
proof -
  let ?p = "chunk_packet 7 1 5 1 [20, 30]"
  have pk: "chunk_packets 7 1 [20, 30] 1 5 = [?p]"
    by (subst chunk_packets.simps) (simp add: QUIC_MAX_PAYLOAD_def)
  have ok: "packet_ok ?p" by (simp add: packet_ok_def packet_body_def chunk_packet_def QUIC_MAX_PAYLOAD_def)
  obtain e1 where g: "quic_engine_get_connection connected_engine 7 0 = (Some sample_peer, e1)"
    using sample_connected by (metis prod.collapse)
  have "fst (quic_engine_send sample_world 0 e1 ?p sample_peer) = 0"
    by (simp add: send_wire [OF ok] sendto_result_def sample_world_def Let_def)
  then obtain e' where "quic_engine_send_to_connection sample_world (\<lambda>i. 0) connected_engine ?p = (0, e')"
    by (simp add: quic_engine_send_to_connection_def g chunk_packet_def) (metis prod.collapse)
  then have "send_video_chunk sample_world (\<lambda>_. 0) sample_file (Some connected_engine) 7 1 [] 1 8 5 = (0, Some e', 6)"
    using chunk_sends [of sample_file "[]" 1 sample_world "\<lambda>_. 0" connected_engine 7 1 8 5]
    by (simp add: sample_file_def pk [unfolded One_nat_def] engine_send_def)
  moreover from this have "received connected_engine e' = {arrival_of ?p}"
    using chunk_received(1) [OF reachable_ok [OF connected_reachable], of sample_file "[]" sample_world "\<lambda>_. 0" 7 1 1 8 5 e' 6]
    by (simp add: sample_file_def pk [unfolded One_nat_def])
  ultimately show thesis by (rule that)
qed

lemma sample_feed:
  "length (snd (last (snd (feed quic_stream_manager_init
     [arrival_of (chunk_packet 7 1 5 1 [20, 30]), arrival_of (chunk_packet 7 1 4 0 [10])])))) = 3"
proof -
  let ?st = "\<lparr>ss_stream_id = 1, ss_next_offset = 0,
      ss_segments = [\<lparr>seg_offset = 1, seg_length = 2, seg_data = [20, 30]\<rparr>], ss_in_use = True\<rparr>"
  have room: "mgr_has_room quic_stream_manager_init 1"
    by (simp add: mgr_has_room_def slots_used_def quic_stream_manager_init_def zero_stream_def QUIC_STREAM_MAX_STREAMS_def)
  have 1: "stream_push (mgr_stream quic_stream_manager_init 1) 1 [20, 30] 2 QUIC_MAX_PAYLOAD = (?st, [])"
    unfolding mgr_stream_init
    by (simp add: stream_push_def claim_stream_def zero_stream_def consume_segments_def QUIC_MAX_PAYLOAD_def consume_loop.simps)
  have arr: "arrival_ok 1 [20, 30] 2" "arrival_ok 0 [10] 1" "0 < QUIC_MAX_PAYLOAD" by (simp_all add: arrival_ok_def QUIC_MAX_PAYLOAD_def)
  obtain m where
    c1: "quic_stream_on_data True quic_stream_manager_init 1 1 (Some [20, 30]) 2 (Some QUIC_MAX_PAYLOAD) =
        (0, m, Some (ss_next_offset (mgr_stream quic_stream_manager_init 1)), [])"
    and m: "mgr_ok m" "mgr_stream m 1 = ?st" "stream_keys m = insert 1 (stream_keys quic_stream_manager_init)"
    by (rule on_data_accepts [OF mgr_ok_init arr(1,3) room 1])
  have room2: "mgr_has_room m 1"
    using m(3) slot_find_None [of ss_in_use ss_stream_id 1 m] by (auto simp: mgr_has_room_def)
  have 2: "stream_push (mgr_stream m 1) 0 [10] 1 QUIC_MAX_PAYLOAD = (?st\<lparr>ss_next_offset := 3, ss_segments := []\<rparr>, [10, 20, 30])"
    unfolding m(2) by (simp add: stream_push_def consume_segments_def QUIC_MAX_PAYLOAD_def consume_loop.simps)
  obtain m2 where
    "quic_stream_on_data True m 1 0 (Some [10]) 1 (Some QUIC_MAX_PAYLOAD) = (0, m2, Some (ss_next_offset (mgr_stream m 1)), [10, 20, 30])"
    by (rule on_data_accepts [OF m(1) arr(2,3) room2 2])
  with c1 show ?thesis by (simp add: arrival_of_def chunk_packet_def)
qed


end
