(* ===== verification/Ws_Command.thy ===== *)
theory Ws_Command
  imports C_Number Quic_Packet
begin

text \<open>
  Commands of \<open>src/server/websocket.c\<close>: the field lookup \<open>json_find_value\<close> and its readers,
  \<open>hex_to_bytes\<close> and \<open>parse_command\<close>. A text is a C string. The printer \<open>command_text\<close> is the
  reference: every command is read back from its text.
\<close>

section \<open>Fields\<close>

text \<open>\<open>json\<close> and \<open>key\<close> are never null; the result is the rest of the text from the value on.\<close>

definition json_find_value :: "bytes \<Rightarrow> bytes \<Rightarrow> bytes option" where
  "json_find_value json key =
     (let pattern = snprintf 64 (34 # key @ [34])
      in case strstr json pattern of
           None \<Rightarrow> None
         | Some pos \<Rightarrow>
             (case strchr (drop (length pattern) pos) 58 of
                None \<Rightarrow> None
              | Some pos \<Rightarrow> Some (dropWhile isspace (tl pos))))"

definition json_extract_string_field :: "bytes \<Rightarrow> bytes \<Rightarrow> nat \<Rightarrow> bytes option" where
  "json_extract_string_field json key out_size =
     (if out_size = 0 then None
      else
        (case json_find_value json key of
           None \<Rightarrow> None
         | Some val \<Rightarrow>
             if val = [] \<or> hd val \<noteq> 34 then None
             else
               (case strchr (tl val) 34 of
                  None \<Rightarrow> None
                | Some end_ptr \<Rightarrow>
                    let copy_len = length (tl val) - length end_ptr;
                        copy_len = (if out_size \<le> copy_len then out_size - 1 else copy_len)
                    in Some (take copy_len (tl val)))))"

definition json_extract_uint64_field :: "bytes \<Rightarrow> bytes \<Rightarrow> u64 option" where
  "json_extract_uint64_field json key =
     (case json_find_value json key of None \<Rightarrow> None | Some val \<Rightarrow> strtoull 10 val)"

definition json_extract_uint32_field :: "bytes \<Rightarrow> bytes \<Rightarrow> u32 option" where
  "json_extract_uint32_field json key =
     (case json_extract_uint64_field json key of
        None \<Rightarrow> None
      | Some tmp \<Rightarrow> if 0xFFFFFFFF < tmp then None else Some (ucast tmp))"

definition json_extract_int_field :: "bytes \<Rightarrow> bytes \<Rightarrow> int option" where
  "json_extract_int_field json key =
     (case json_find_value json key of
        None \<Rightarrow> None
      | Some val \<Rightarrow> (case strtol 10 val of None \<Rightarrow> None | Some parsed \<Rightarrow> Some (to_int parsed)))"

section \<open>Hexadecimal payload\<close>

fun hex_loop :: "bytes \<Rightarrow> bytes option" where
  "hex_loop (a # b # hex) =
     (case strtol 16 [a, b] of
        None \<Rightarrow> None
      | Some val \<Rightarrow> map_option ((#) (word_of_int val)) (hex_loop hex))"
| "hex_loop _ = Some []"

definition hex_to_bytes :: "bytes \<Rightarrow> nat \<Rightarrow> bytes option" where
  "hex_to_bytes hex max_len =
     (let hex_len = length hex
      in if hex_len = 0 then Some []
         else if hex_len mod 2 \<noteq> 0 then None
         else if max_len < hex_len div 2 then None
         else hex_loop hex)"

section \<open>Commands\<close>

datatype ws_command_type =
    WS_CMD_UNKNOWN | WS_CMD_PING | WS_CMD_QUIC_SEND | WS_CMD_LIST_VIDEOS | WS_CMD_VIDEO_DETAIL
  | WS_CMD_STREAM_START | WS_CMD_STREAM_CHUNK | WS_CMD_WATCH_GET | WS_CMD_WATCH_UPDATE
  | WS_CMD_STREAM_SEEK | WS_CMD_STREAM_STOP | WS_CMD_WS_INIT | WS_CMD_WS_SEGMENT | WS_CMD_LIST_CONTINUE

text \<open>\<open>cm_payload\<close> holds the \<open>payload_len\<close> bytes in use of the payload array.\<close>

record ws_command =
  cm_type :: ws_command_type
  cm_connection_id :: u64
  cm_stream_id :: u32
  cm_offset :: u32
  cm_payload :: bytes
  cm_video_id :: int
  cm_chunk_length :: u32
  cm_length :: u32
  cm_position :: int
  cm_seek_offset :: u32
  cm_segment_index :: int

definition zero_command :: ws_command where
  "zero_command = \<lparr>cm_type = WS_CMD_UNKNOWN, cm_connection_id = 0, cm_stream_id = 0, cm_offset = 0,
     cm_payload = [], cm_video_id = 0, cm_chunk_length = 0, cm_length = 0, cm_position = 0,
     cm_seek_offset = 0, cm_segment_index = 0\<rparr>"

definition k_type :: bytes where "k_type = chars ''type''"
definition k_connection_id :: bytes where "k_connection_id = chars ''connection_id''"
definition k_stream_id :: bytes where "k_stream_id = chars ''stream_id''"
definition k_offset :: bytes where "k_offset = chars ''offset''"
definition k_payload_hex :: bytes where "k_payload_hex = chars ''payload_hex''"
definition k_video_id :: bytes where "k_video_id = chars ''video_id''"
definition k_length :: bytes where "k_length = chars ''length''"
definition k_position :: bytes where "k_position = chars ''position''"
definition k_segment :: bytes where "k_segment = chars ''segment''"

lemmas key_defs = k_type_def k_connection_id_def k_stream_id_def k_offset_def k_payload_hex_def
  k_video_id_def k_length_def k_position_def k_segment_def

definition stream_id_or_one :: "bytes \<Rightarrow> u32" where
  "stream_id_or_one text =
     (case json_extract_uint32_field text k_stream_id of None \<Rightarrow> 1 | Some s \<Rightarrow> s)"

definition parse_quic_send :: "bytes \<Rightarrow> ws_command option" where
  "parse_quic_send text =
     (let cmd = zero_command\<lparr>cm_type := WS_CMD_QUIC_SEND\<rparr>
      in case json_extract_uint64_field text k_connection_id of
           None \<Rightarrow> None
         | Some cid \<Rightarrow>
             let cmd = cmd\<lparr>cm_connection_id := cid, cm_stream_id := stream_id_or_one text,
                   cm_offset := (case json_extract_uint32_field text k_offset of None \<Rightarrow> 0 | Some n \<Rightarrow> n)\<rparr>
             in case json_extract_string_field text k_payload_hex (QUIC_MAX_PAYLOAD * 2 + 1) of
                  None \<Rightarrow> Some cmd
                | Some hex \<Rightarrow> map_option (\<lambda>b. cmd\<lparr>cm_payload := b\<rparr>) (hex_to_bytes hex QUIC_MAX_PAYLOAD))"

text \<open>The commands that carry a video identifier only.\<close>

definition parse_video :: "ws_command_type \<Rightarrow> bytes \<Rightarrow> ws_command option" where
  "parse_video t text =
     map_option (\<lambda>v. zero_command\<lparr>cm_type := t, cm_video_id := v\<rparr>) (json_extract_int_field text k_video_id)"

definition parse_watch_update :: "bytes \<Rightarrow> ws_command option" where
  "parse_watch_update text =
     (case json_extract_int_field text k_video_id of
        None \<Rightarrow> None
      | Some v \<Rightarrow> map_option (\<lambda>p. zero_command\<lparr>cm_type := WS_CMD_WATCH_UPDATE, cm_video_id := v,
                       cm_position := p\<rparr>) (json_extract_int_field text k_position))"

definition parse_stream_chunk :: "bytes \<Rightarrow> ws_command option" where
  "parse_stream_chunk text =
     (case json_extract_int_field text k_video_id of
        None \<Rightarrow> None
      | Some v \<Rightarrow>
     (case json_extract_uint32_field text k_offset of
        None \<Rightarrow> None
      | Some n \<Rightarrow>
     (case json_extract_uint32_field text k_length of
        None \<Rightarrow> None
      | Some len \<Rightarrow>
     (case json_extract_uint64_field text k_connection_id of
        None \<Rightarrow> None
      | Some cid \<Rightarrow> Some (zero_command\<lparr>cm_type := WS_CMD_STREAM_CHUNK, cm_video_id := v, cm_offset := n,
            cm_length := len, cm_connection_id := cid, cm_stream_id := stream_id_or_one text\<rparr>)))))"

definition parse_ws_segment :: "bytes \<Rightarrow> ws_command option" where
  "parse_ws_segment text =
     (case json_extract_int_field text k_video_id of
        None \<Rightarrow> None
      | Some v \<Rightarrow> map_option (\<lambda>i. zero_command\<lparr>cm_type := WS_CMD_WS_SEGMENT, cm_video_id := v,
                       cm_segment_index := i\<rparr>) (json_extract_int_field text k_segment))"

text \<open>The command for \<open>0\<close>, \<open>None\<close> for \<open>-1\<close>.\<close>

definition parse_command :: "bytes \<Rightarrow> ws_command option" where
  "parse_command text =
     (case json_extract_string_field text k_type 32 of
        None \<Rightarrow> None
      | Some t \<Rightarrow>
          if t = chars ''ping'' then Some (zero_command\<lparr>cm_type := WS_CMD_PING\<rparr>)
          else if t = chars ''quic_send'' then parse_quic_send text
          else if t = chars ''list_videos'' then Some (zero_command\<lparr>cm_type := WS_CMD_LIST_VIDEOS\<rparr>)
          else if t = chars ''list_continue'' then Some (zero_command\<lparr>cm_type := WS_CMD_LIST_CONTINUE\<rparr>)
          else if t = chars ''video_detail'' then parse_video WS_CMD_VIDEO_DETAIL text
          else if t = chars ''watch_get'' then parse_video WS_CMD_WATCH_GET text
          else if t = chars ''watch_update'' then parse_watch_update text
          else if t = chars ''stream_start'' then parse_video WS_CMD_STREAM_START text
          else if t = chars ''stream_chunk'' then parse_stream_chunk text
          else if t = chars ''ws_init'' then parse_video WS_CMD_WS_INIT text
          else if t = chars ''ws_segment'' then parse_ws_segment text
          else None)"

section \<open>The printer\<close>

text \<open>A member: the quoted key, a colon and the text of the value.\<close>

definition member_text :: "bytes \<Rightarrow> bytes \<Rightarrow> bytes" where
  "member_text key val = 34 # key @ [34, 58] @ val"

definition string_text :: "bytes \<Rightarrow> bytes" where
  "string_text s = 34 # s @ [34]"

fun members_text :: "(bytes \<times> bytes) list \<Rightarrow> bytes" where
  "members_text [] = [125]"
| "members_text [(k, v)] = member_text k v @ [125]"
| "members_text ((k, v) # ms) = member_text k v @ [44] @ members_text ms"

definition hex_digit :: "nat \<Rightarrow> u8" where
  "hex_digit d = (if d < 10 then 48 + word_of_nat d else 87 + word_of_nat d)"

definition hex_text :: "bytes \<Rightarrow> bytes" where
  "hex_text bs = concat (map (\<lambda>b. [hex_digit (unat b div 16), hex_digit (unat b mod 16)]) bs)"

definition type_name :: "ws_command_type \<Rightarrow> bytes" where
  "type_name t = chars (case t of
      WS_CMD_PING \<Rightarrow> ''ping'' | WS_CMD_QUIC_SEND \<Rightarrow> ''quic_send'' | WS_CMD_LIST_VIDEOS \<Rightarrow> ''list_videos''
    | WS_CMD_LIST_CONTINUE \<Rightarrow> ''list_continue'' | WS_CMD_VIDEO_DETAIL \<Rightarrow> ''video_detail''
    | WS_CMD_WATCH_GET \<Rightarrow> ''watch_get'' | WS_CMD_WATCH_UPDATE \<Rightarrow> ''watch_update''
    | WS_CMD_STREAM_START \<Rightarrow> ''stream_start'' | WS_CMD_STREAM_CHUNK \<Rightarrow> ''stream_chunk''
    | WS_CMD_WS_INIT \<Rightarrow> ''ws_init'' | WS_CMD_WS_SEGMENT \<Rightarrow> ''ws_segment''
    | WS_CMD_STREAM_SEEK \<Rightarrow> ''stream_seek'' | WS_CMD_STREAM_STOP \<Rightarrow> ''stream_stop''
    | WS_CMD_UNKNOWN \<Rightarrow> ''unknown'')"

definition command_members :: "ws_command \<Rightarrow> (bytes \<times> bytes) list" where
  "command_members c =
     (case cm_type c of
        WS_CMD_QUIC_SEND \<Rightarrow> [(k_connection_id, dec_nat (unat (cm_connection_id c))),
          (k_stream_id, dec_nat (unat (cm_stream_id c))), (k_offset, dec_nat (unat (cm_offset c))),
          (k_payload_hex, string_text (hex_text (cm_payload c)))]
      | WS_CMD_WATCH_UPDATE \<Rightarrow> [(k_video_id, dec_int (cm_video_id c)), (k_position, dec_int (cm_position c))]
      | WS_CMD_STREAM_CHUNK \<Rightarrow> [(k_video_id, dec_int (cm_video_id c)),
          (k_offset, dec_nat (unat (cm_offset c))), (k_length, dec_nat (unat (cm_length c))),
          (k_connection_id, dec_nat (unat (cm_connection_id c))), (k_stream_id, dec_nat (unat (cm_stream_id c)))]
      | WS_CMD_WS_SEGMENT \<Rightarrow> [(k_video_id, dec_int (cm_video_id c)), (k_segment, dec_int (cm_segment_index c))]
      | WS_CMD_PING \<Rightarrow> [] | WS_CMD_LIST_VIDEOS \<Rightarrow> [] | WS_CMD_LIST_CONTINUE \<Rightarrow> []
      | _ \<Rightarrow> [(k_video_id, dec_int (cm_video_id c))])"

definition command_text :: "ws_command \<Rightarrow> bytes" where
  "command_text c = 123 # members_text ((k_type, string_text (type_name (cm_type c))) # command_members c)"

section \<open>Looking fields up\<close>

definition key_ok :: "bytes \<Rightarrow> bool" where
  "key_ok k \<longleftrightarrow> k \<noteq> [] \<and> 34 \<notin> set k \<and> hd k \<notin> {58, 44, 125} \<and> length k \<le> 61"

definition value_ok :: "bytes \<Rightarrow> bytes \<Rightarrow> bool" where
  "value_ok k v \<longleftrightarrow> v \<noteq> [] \<and> \<not> isspace (hd v) \<and>
     (34 \<notin> set v \<or> (\<exists>s. v = string_text s \<and> 34 \<notin> set s \<and> s \<noteq> k))"

lemma quoted_prefix:
  "34 \<notin> set k \<Longrightarrow> 34 \<notin> set s \<Longrightarrow> take (Suc (length k)) (s @ 34 # r) = k @ [34] \<longleftrightarrow> s = k"
proof (induction k arbitrary: s)
  case Nil
  then show ?case by (cases s) auto
next
  case (Cons b k)
  then show ?case by (cases s) auto
qed

lemma skip_quoted:
  assumes "34 \<notin> set k" and "34 \<notin> set s" and "s \<noteq> k" and "k \<noteq> []" and "r = [] \<or> hd r \<noteq> hd k"
  shows "strstr (34 # s @ 34 # r) (34 # k @ [34]) = strstr r (34 # k @ [34])"
proof -
  have "strstr (34 # s @ 34 # r) (34 # k @ [34]) = strstr (s @ 34 # r) (34 # k @ [34])"
    using quoted_prefix [OF assms(1,2), of r] assms(3) by (subst strstr.simps) simp
  also have "\<dots> = strstr (34 # r) (34 # k @ [34])" by (rule strstr_skip [OF assms(2)])
  also have "\<dots> = strstr r (34 # k @ [34])"
    using assms(4,5) by (subst strstr.simps) (cases k; cases r; auto)
  finally show ?thesis .
qed

lemma strstr_value:
  assumes "key_ok k" and "value_ok k v" and "hd r \<in> {44, 125}" and "r \<noteq> []"
  shows "strstr (v @ r) (34 # k @ [34]) = strstr r (34 # k @ [34])"
proof (cases "34 \<in> set v")
  case True
  then obtain s where s: "v = string_text s" "34 \<notin> set s" "s \<noteq> k"
    using assms(2) by (auto simp: value_ok_def)
  then show ?thesis
    using assms(1,3,4) by (auto simp: string_text_def key_ok_def intro!: skip_quoted)
next
  case False
  then show ?thesis by (rule strstr_skip)
qed

lemma strstr_skip_one: "c \<noteq> d \<Longrightarrow> strstr (d # s) (c # p) = strstr s (c # p)"
  using strstr_skip [of c "[d]"] by simp

lemma find_here:
  assumes "key_ok k" and "value_ok k v"
    and "strstr (a @ member_text k v @ r) (34 # k @ [34]) = Some (member_text k v @ r)"
  shows "json_find_value (a @ member_text k v @ r) k = Some (v @ r)"
proof -
  have pat: "snprintf 64 (34 # k @ [34]) = 34 # k @ [34]"
  proof -
    have "length (34 # k @ [34]) \<le> 63" using assms(1) by (simp add: key_ok_def)
    then show ?thesis unfolding snprintf_def by (subst take_all) simp_all
  qed
  have "drop (Suc (Suc (length k))) (member_text k v @ r) = 58 # v @ r" by (simp add: member_text_def)
  moreover have "dropWhile isspace (v @ r) = v @ r" using assms(2) by (cases v) (auto simp: value_ok_def)
  moreover have "strchr (58 # v @ r) 58 = Some (58 # v @ r)" using strchr_Some [of 58 "[]"] by simp
  ultimately show ?thesis using assms(3) by (simp add: json_find_value_def pat)
qed

lemma strstr_members:
  assumes "map_of ms k = Some v" and "key_ok k"
    and "\<And>k' v'. (k', v') \<in> set ms \<Longrightarrow> key_ok k' \<and> value_ok k v'"
  shows "\<exists>r. strstr (members_text ms) (34 # k @ [34]) = Some (member_text k v @ r) \<and> r \<noteq> [] \<and> hd r \<in> {44, 125}"
  using assms(1,3)
proof (induction ms rule: members_text.induct)
  case (2 k1 v1)
  then show ?case
    using strstr_found [of "34 # k @ [34]" "58 # v @ [125]"] by (auto simp: member_text_def split: if_splits)
next
  case (3 k1 v1 m ms)
  let ?t = "members_text (m # ms)"
  have ok: "key_ok k1" "value_ok k v1" using "3.prems"(2) [of k1 v1] by auto
  show ?case
  proof (cases "k1 = k")
    case True
    then show ?thesis
      using "3.prems"(1) strstr_found [of "34 # k @ [34]" "58 # v @ 44 # ?t"] by (auto simp: member_text_def)
  next
    case False
    have "strstr (members_text ((k1, v1) # m # ms)) (34 # k @ [34]) = strstr (34 # k1 @ 34 # 58 # v1 @ 44 # ?t) (34 # k @ [34])"
      by (simp add: member_text_def)
    also have "\<dots> = strstr (58 # v1 @ 44 # ?t) (34 # k @ [34])"
      using assms(2) ok(1) False by (intro skip_quoted) (auto simp: key_ok_def)
    also have "\<dots> = strstr (44 # ?t) (34 # k @ [34])"
      using strstr_value [OF assms(2) ok(2), of "44 # ?t"] by (simp add: strstr_skip_one)
    also have "\<dots> = strstr ?t (34 # k @ [34])" by (simp add: strstr_skip_one)
    finally show ?thesis using "3.IH" "3.prems" False by auto
  qed
qed simp

text \<open>A printed member is found, and its value is followed by a comma or the closing brace.\<close>

lemma find_member:
  assumes "map_of ms k = Some v" and "key_ok k"
    and "\<And>k' v'. (k', v') \<in> set ms \<Longrightarrow> key_ok k' \<and> value_ok k v'"
  obtains r where "json_find_value (123 # members_text ms) k = Some (v @ r)" and "r \<noteq> []" and "hd r \<in> {44, 125}"
proof -
  obtain r where r: "strstr (members_text ms) (34 # k @ [34]) = Some (member_text k v @ r)"
    "r \<noteq> []" "hd r \<in> {44, 125}"
    using strstr_members [OF assms] by blast
  then obtain i where "member_text k v @ r = drop i (members_text ms)"
    unfolding strstr_Some by blast
  then obtain j where "members_text ms = j @ member_text k v @ r" by (metis append_take_drop_id)
  moreover have "strstr (123 # members_text ms) (34 # k @ [34]) = Some (member_text k v @ r)"
    using r(1) by (simp add: strstr_skip_one)
  moreover have "value_ok k v" using assms(1,3) by (metis map_of_SomeD)
  ultimately have "json_find_value (123 # members_text ms) k = Some (v @ r)"
    using find_here [OF assms(2), of v "123 # j" r] by simp
  with that r(2,3) show thesis by blast
qed

section \<open>Commands read back\<close>

lemma hex_digit_value: "d < 16 \<Longrightarrow> digit_value 16 (hex_digit d) = Some d"
proof -
  assume d: "d < 16"
  show ?thesis
  proof (cases "d < 10")
    case True
    then show ?thesis by (simp add: hex_digit_def digit_small)
  next
    case False
    then have "unat (87 + word_of_nat d :: u8) = 87 + d"
      using d by (simp add: unat_word_ariths unat_of_nat)
    then show ?thesis using d False by (simp add: digit_value_def hex_digit_def word_le_nat_alt)
  qed
qed

lemma hex_digit_plain: "d < 16 \<Longrightarrow> \<not> isspace (hex_digit d) \<and> hex_digit d \<notin> {43, 45, 34, 0}"
  using hex_digit_value [of d]
  by (auto simp: digit_value_def isspace_def word_le_nat_alt Let_def split: if_splits)

lemma strtol_hex_pair:
  assumes "a < 16" and "b < 16"
  shows "strtol 16 [hex_digit a, hex_digit b] = Some (int (16 * a + b))"
proof -
  have p: "drop_prefix 16 [hex_digit a, hex_digit b] = [hex_digit a, hex_digit b]"
    by (simp add: drop_prefix_def)
  have "strto 16 [hex_digit a, hex_digit b] = Some (False, 16 * a + b, [])"
    using hex_digit_plain [OF assms(1)] hex_digit_value [OF assms(1)] hex_digit_value [OF assms(2)]
    by (simp add: strto_def p number_value_def)
  moreover have "16 * a + b < 256" using assms by simp
  ultimately show ?thesis by (simp add: strtol_def)
qed

lemma hex_text_back: "hex_loop (hex_text bs) = Some bs"
proof (induction bs)
  case (Cons b bs)
  have b: "unat b div 16 < 16" "unat b mod 16 < 16"
    using unsigned_less [of b, where ?'a = nat] by auto
  have "word_of_int (int (16 * (unat b div 16) + unat b mod 16)) = b"
    by (simp only: mult_div_mod_eq of_int_of_nat_eq) simp
  with Cons strtol_hex_pair [OF b] show ?case by (simp add: hex_text_def)
qed (simp add: hex_text_def)

lemma length_hex_text: "length (hex_text bs) = 2 * length bs"
  by (induction bs) (simp_all add: hex_text_def)

lemma hex_to_bytes_text: "length bs \<le> n \<Longrightarrow> hex_to_bytes (hex_text bs) n = Some bs"
  using hex_text_back [of bs] length_hex_text [of bs] by (auto simp: hex_to_bytes_def Let_def)

lemma hex_text_plain: "34 \<notin> set (hex_text bs)"
proof -
  have "hex_digit (unat b div 16) \<noteq> 34 \<and> hex_digit (unat b mod 16) \<noteq> 34" for b :: u8
    using hex_digit_plain [of "unat b div 16"] hex_digit_plain [of "unat b mod 16"]
      unsigned_less [of b, where ?'a = nat] by auto
  then show ?thesis by (auto simp: hex_text_def)
qed

lemma dec_plain: "34 \<notin> set (dec_nat n) \<and> dec_nat n \<noteq> [] \<and> \<not> isspace (hd (dec_nat n))"
  using dec_nat_digits [of n] digit_not_space by (cases "dec_nat n") (auto simp: list_all_iff)

lemma dec_value_ok: "value_ok k (dec_nat n)" and dec_int_value_ok: "value_ok k (dec_int i)"
  using dec_plain by (auto simp: value_ok_def dec_int_def isspace_def)

lemma string_value_ok: "34 \<notin> set s \<Longrightarrow> s \<noteq> k \<Longrightarrow> value_ok k (string_text s)"
  by (auto simp: value_ok_def string_text_def isspace_def)

lemma sep_not_digit: "r \<noteq> [] \<Longrightarrow> hd r \<in> {44, 125} \<Longrightarrow> \<not> is_digit 10 (hd r)"
  using digit_not by auto

definition int_range :: "int \<Rightarrow> bool" where
  "int_range i \<longleftrightarrow> - (2 ^ 31) \<le> i \<and> i < 2 ^ 31"

definition members_ok :: "(bytes \<times> bytes) list \<Rightarrow> bytes \<Rightarrow> bool" where
  "members_ok ms k \<longleftrightarrow> key_ok k \<and> (\<forall>(k', v') \<in> set ms. key_ok k' \<and> value_ok k v')"

lemma found_member:
  assumes "members_ok ms k" and "map_of ms k = Some v"
  obtains r where "json_find_value (123 # members_text ms) k = Some (v @ r)" and "r \<noteq> []" and "hd r \<in> {44, 125}"
  by (rule find_member [OF assms(2)]) (use assms(1) in \<open>auto simp: members_ok_def\<close>)

lemma read_int_member:
  assumes mem: "members_ok ms k" and "map_of ms k = Some (dec_int i)" and "int_range i"
  shows "json_extract_int_field (123 # members_text ms) k = Some i"
proof -
  obtain r where r: "json_find_value (123 # members_text ms) k = Some (dec_int i @ r)" "r \<noteq> []" "hd r \<in> {44, 125}"
    using found_member [OF mem assms(2)] .
  then have "strtol 10 (dec_int i @ r) = Some i"
    using assms(3) sep_not_digit by (intro strtol_dec) (auto simp: int_range_def)
  with r assms(3) show ?thesis by (simp add: json_extract_int_field_def to_int_id int_range_def)
qed

lemma read_uint64_member:
  assumes mem: "members_ok ms k" and "map_of ms k = Some (dec_nat n)" and "n = unat (w :: u64)"
  shows "json_extract_uint64_field (123 # members_text ms) k = Some w"
proof -
  obtain r where r: "json_find_value (123 # members_text ms) k = Some (dec_nat n @ r)" "r \<noteq> []" "hd r \<in> {44, 125}"
    using found_member [OF mem assms(2)] .
  then show ?thesis
    using sep_not_digit assms(3) by (simp add: json_extract_uint64_field_def strtoull_dec)
qed

lemma read_uint32_member:
  assumes mem: "members_ok ms k" and "map_of ms k = Some (dec_nat (unat (w :: u32)))"
  shows "json_extract_uint32_field (123 # members_text ms) k = Some w"
proof -
  have n: "unat w = unat (ucast w :: u64)" using unsigned_less [of w, where ?'a = nat]
    by (simp add: unsigned_ucast_eq take_bit_nat_eq_self)
  have "json_extract_uint64_field (123 # members_text ms) k = Some (ucast w)"
    using read_uint64_member [OF assms n] .
  moreover have "\<not> 0xFFFFFFFF < (ucast w :: u64)"
    using unsigned_less [of w, where ?'a = nat] n by (simp add: word_less_nat_alt)
  moreover have "ucast (ucast w :: u64) = w" by (rule bit_word_eqI) (auto simp: bit_simps)
  ultimately show ?thesis by (simp add: json_extract_uint32_field_def)
qed

lemma read_string_member:
  assumes mem: "members_ok ms k" and "map_of ms k = Some (string_text s)" and "34 \<notin> set s" and "length s < n"
  shows "json_extract_string_field (123 # members_text ms) k n = Some s"
proof -
  obtain r where r: "json_find_value (123 # members_text ms) k = Some (string_text s @ r)" "r \<noteq> []" "hd r \<in> {44, 125}"
    using found_member [OF mem assms(2)] .
  with assms(3,4) show ?thesis
    by (auto simp: json_extract_string_field_def string_text_def strchr_Some Let_def)
qed

text \<open>A command as the reader builds it: the fields its type uses, within their ranges.\<close>

definition used_fields :: "ws_command \<Rightarrow> ws_command" where
  "used_fields c =
     (let z = zero_command\<lparr>cm_type := cm_type c\<rparr>
      in case cm_type c of
           WS_CMD_QUIC_SEND \<Rightarrow> z\<lparr>cm_connection_id := cm_connection_id c, cm_stream_id := cm_stream_id c,
             cm_offset := cm_offset c, cm_payload := cm_payload c\<rparr>
         | WS_CMD_WATCH_UPDATE \<Rightarrow> z\<lparr>cm_video_id := cm_video_id c, cm_position := cm_position c\<rparr>
         | WS_CMD_STREAM_CHUNK \<Rightarrow> z\<lparr>cm_video_id := cm_video_id c, cm_offset := cm_offset c,
             cm_length := cm_length c, cm_connection_id := cm_connection_id c, cm_stream_id := cm_stream_id c\<rparr>
         | WS_CMD_WS_SEGMENT \<Rightarrow> z\<lparr>cm_video_id := cm_video_id c, cm_segment_index := cm_segment_index c\<rparr>
         | WS_CMD_PING \<Rightarrow> z | WS_CMD_LIST_VIDEOS \<Rightarrow> z | WS_CMD_LIST_CONTINUE \<Rightarrow> z
         | _ \<Rightarrow> z\<lparr>cm_video_id := cm_video_id c\<rparr>)"

definition command_ok :: "ws_command \<Rightarrow> bool" where
  "command_ok c \<longleftrightarrow>
     used_fields c = c \<and> cm_type c \<notin> {WS_CMD_UNKNOWN, WS_CMD_STREAM_SEEK, WS_CMD_STREAM_STOP} \<and>
     length (cm_payload c) \<le> QUIC_MAX_PAYLOAD \<and> int_range (cm_video_id c) \<and>
     int_range (cm_position c) \<and> int_range (cm_segment_index c)"

lemma hex_digit_le: "d < 16 \<Longrightarrow> hex_digit d \<le> 102"
  using hex_digit_value [of d] by (auto simp: digit_value_def word_le_nat_alt Let_def split: if_splits)

lemma hex_text_not_key: "list_ex (\<lambda>b. 102 < b) k \<Longrightarrow> hex_text bs \<noteq> k"
proof -
  have "hex_digit (unat b div 16) \<le> 102 \<and> hex_digit (unat b mod 16) \<le> 102" for b :: u8
    using hex_digit_le [of "unat b div 16"] hex_digit_le [of "unat b mod 16"]
      unsigned_less [of b, where ?'a = nat] by auto
  then have "b \<le> 102" if "b \<in> set (hex_text bs)" for b using that by (auto simp: hex_text_def)
  then show "list_ex (\<lambda>b. 102 < b) k \<Longrightarrow> hex_text bs \<noteq> k" by (auto simp: list_ex_iff dest: leD)
qed

definition command_keys :: "bytes list" where
  "command_keys = [k_type, k_connection_id, k_stream_id, k_offset, k_payload_hex, k_video_id, k_length,
     k_position, k_segment]"

lemma keys_ok: "list_all key_ok command_keys"
  by (simp add: command_keys_def key_defs key_ok_def chars_def)

lemma keys_high: "list_all (list_ex (\<lambda>b. 102 < b)) command_keys"
  by (simp add: command_keys_def key_defs chars_def)

lemma keys_distinct: "distinct command_keys"
  by (simp add: command_keys_def key_defs chars_def)

lemma type_name_plain: "34 \<notin> set (type_name t) \<and> length (type_name t) < 32 \<and> type_name t \<notin> set command_keys"
  by (cases t) (simp_all add: type_name_def command_keys_def key_defs chars_def)

definition all_members :: "ws_command \<Rightarrow> (bytes \<times> bytes) list" where
  "all_members c = (k_type, string_text (type_name (cm_type c))) # command_members c"

lemma members_keys: "(k, v) \<in> set (all_members c) \<Longrightarrow> k \<in> set command_keys"
  by (auto simp: all_members_def command_members_def command_keys_def split: ws_command_type.splits)

lemma command_members_ok:
  assumes "k \<in> set command_keys"
  shows "members_ok (all_members c) k"
proof -
  have ok: "key_ok k" using assms keys_ok by (auto simp: list_all_iff)
  have "hex_text b \<noteq> k" for b using assms keys_high hex_text_not_key by (auto simp: list_all_iff)
  then have hex: "value_ok k (string_text (hex_text b))" for b
    by (intro string_value_ok hex_text_plain)
  have t: "value_ok k (string_text (type_name t))" for t
    using type_name_plain [of t] assms by (intro string_value_ok) auto
  have "key_ok k' \<and> value_ok k v'" if m: "(k', v') \<in> set (all_members c)" for k' v'
    using members_keys [OF m] keys_ok m hex t dec_value_ok dec_int_value_ok
    by (auto simp: all_members_def command_members_def list_all_iff split: ws_command_type.splits)
  then show ?thesis using ok by (auto simp: members_ok_def)
qed

lemmas read_members = read_int_member [OF command_members_ok] read_uint64_member [OF command_members_ok]
  read_uint32_member [OF command_members_ok] read_string_member [OF command_members_ok]

lemma command_text_members: "command_text c = 123 # members_text (all_members c)"
  by (simp add: command_text_def all_members_def)

lemma members_of:
  "map_of (all_members c) k = (if k = k_type then Some (string_text (type_name (cm_type c))) else map_of (command_members c) k)"
  by (simp add: all_members_def)

lemma keys_in: "k_type \<in> set command_keys" "k_connection_id \<in> set command_keys" "k_stream_id \<in> set command_keys"
  "k_offset \<in> set command_keys" "k_payload_hex \<in> set command_keys" "k_video_id \<in> set command_keys"
  "k_length \<in> set command_keys" "k_position \<in> set command_keys" "k_segment \<in> set command_keys"
  by (simp_all add: command_keys_def)

lemma keys_differ: "k_type \<noteq> k_connection_id"
  "k_type \<noteq> k_stream_id" "k_type \<noteq> k_offset" "k_type \<noteq> k_payload_hex" "k_type \<noteq> k_video_id" "k_type \<noteq> k_length"
  "k_type \<noteq> k_position" "k_type \<noteq> k_segment" "k_connection_id \<noteq> k_stream_id" "k_connection_id \<noteq> k_offset"
  "k_connection_id \<noteq> k_payload_hex" "k_stream_id \<noteq> k_offset" "k_stream_id \<noteq> k_payload_hex"
  "k_offset \<noteq> k_payload_hex" "k_video_id \<noteq> k_position" "k_video_id \<noteq> k_offset" "k_video_id \<noteq> k_length"
  "k_video_id \<noteq> k_connection_id" "k_video_id \<noteq> k_stream_id" "k_video_id \<noteq> k_segment" "k_offset \<noteq> k_length"
  "k_offset \<noteq> k_connection_id" "k_offset \<noteq> k_stream_id" "k_length \<noteq> k_connection_id" "k_length \<noteq> k_stream_id"
  by (simp_all add: key_defs chars_def command_keys_def)

lemma read_type: "json_extract_string_field (command_text c) k_type 32 = Some (type_name (cm_type c))"
  unfolding command_text_members
  by (rule read_members(4)) (use type_name_plain in \<open>simp_all add: keys_in members_of\<close>)

lemma read_video: "cm_type c \<notin> {WS_CMD_QUIC_SEND, WS_CMD_PING, WS_CMD_LIST_VIDEOS, WS_CMD_LIST_CONTINUE} \<Longrightarrow>
    int_range (cm_video_id c) \<Longrightarrow> json_extract_int_field (command_text c) k_video_id = Some (cm_video_id c)"
  unfolding command_text_members
  by (rule read_members(1), simp add: keys_in, cases "cm_type c")
    (simp_all add: keys_in members_of command_members_def keys_differ keys_differ [symmetric])

lemmas member_simps = keys_in members_of command_members_def keys_differ keys_differ [symmetric]

lemma read_quic_send:
  assumes "cm_type c = WS_CMD_QUIC_SEND" and "length (cm_payload c) \<le> QUIC_MAX_PAYLOAD"
  shows "parse_quic_send (command_text c) = Some (used_fields c)"
proof -
  note cmt = command_text_members
  have f: "json_extract_uint64_field (command_text c) k_connection_id = Some (cm_connection_id c)"
    "json_extract_uint32_field (command_text c) k_stream_id = Some (cm_stream_id c)"
    "json_extract_uint32_field (command_text c) k_offset = Some (cm_offset c)"
    "json_extract_string_field (command_text c) k_payload_hex (QUIC_MAX_PAYLOAD * 2 + 1) = Some (hex_text (cm_payload c))"
    unfolding cmt using assms
    by (auto intro!: read_members simp: member_simps hex_text_plain length_hex_text)
  show ?thesis
    using assms by (simp add: parse_quic_send_def f f(4) [folded Suc_eq_plus1] stream_id_or_one_def hex_to_bytes_text used_fields_def Let_def)
qed

lemma read_stream_chunk:
  assumes "cm_type c = WS_CMD_STREAM_CHUNK" and "int_range (cm_video_id c)"
  shows "parse_stream_chunk (command_text c) = Some (used_fields c)"
proof -
  note cmt = command_text_members
  have f: "json_extract_uint64_field (command_text c) k_connection_id = Some (cm_connection_id c)"
    "json_extract_uint32_field (command_text c) k_stream_id = Some (cm_stream_id c)"
    "json_extract_uint32_field (command_text c) k_offset = Some (cm_offset c)"
    "json_extract_uint32_field (command_text c) k_length = Some (cm_length c)"
    unfolding cmt using assms by (auto intro!: read_members simp: member_simps)
  show ?thesis
    using assms read_video [of c]
    by (simp add: parse_stream_chunk_def f stream_id_or_one_def used_fields_def Let_def)
qed

lemma read_pairs:
  "cm_type c = WS_CMD_WATCH_UPDATE \<Longrightarrow> int_range (cm_video_id c) \<Longrightarrow> int_range (cm_position c) \<Longrightarrow>
     parse_watch_update (command_text c) = Some (used_fields c)"
  "cm_type c = WS_CMD_WS_SEGMENT \<Longrightarrow> int_range (cm_video_id c) \<Longrightarrow> int_range (cm_segment_index c) \<Longrightarrow>
     parse_ws_segment (command_text c) = Some (used_fields c)"
proof -
  note cmt = command_text_members
  assume c: "cm_type c = WS_CMD_WATCH_UPDATE" "int_range (cm_video_id c)" "int_range (cm_position c)"
  have "json_extract_int_field (command_text c) k_position = Some (cm_position c)"
    unfolding cmt using c by (intro read_members) (simp_all add: member_simps)
  then show "parse_watch_update (command_text c) = Some (used_fields c)"
    using c read_video [of c] by (simp add: parse_watch_update_def used_fields_def Let_def)
next
  note cmt = command_text_members
  assume c: "cm_type c = WS_CMD_WS_SEGMENT" "int_range (cm_video_id c)" "int_range (cm_segment_index c)"
  have "json_extract_int_field (command_text c) k_segment = Some (cm_segment_index c)"
    unfolding cmt using c by (intro read_members) (simp_all add: member_simps)
  then show "parse_ws_segment (command_text c) = Some (used_fields c)"
    using c read_video [of c] by (simp add: parse_ws_segment_def used_fields_def Let_def)
qed

lemma parse_command_text:
  assumes "command_ok c"
  shows "parse_command (command_text c) = Some c"
proof -
  have u: "used_fields c = c" and r: "length (cm_payload c) \<le> QUIC_MAX_PAYLOAD" "int_range (cm_video_id c)"
    "int_range (cm_position c)" "int_range (cm_segment_index c)"
    and t: "cm_type c \<notin> {WS_CMD_UNKNOWN, WS_CMD_STREAM_SEEK, WS_CMD_STREAM_STOP}"
    using assms by (simp_all add: command_ok_def)
  have "parse_command (command_text c) = Some (used_fields c)"
    using t r read_video [of c]
    by (cases "cm_type c")
      (simp_all add: parse_command_def read_type type_name_def chars_def read_quic_send read_stream_chunk
        read_pairs parse_video_def used_fields_def [of c] Let_def)
  with u show ?thesis by simp
qed

section \<open>Properties\<close>

text \<open>
  C19: Every command the server knows is read back from its text: the type, the video, the
  connection, stream and packet fields up to their full widths, and up to 16 KiB of payload in
  hexadecimal.
\<close>

theorem command_read_back:
  assumes "command_ok c"
  shows "parse_command (command_text c) = Some c"
  by (rule parse_command_text [OF assms])

theorem command_read_back_witness:
  "\<exists>c. parse_command (command_text c) = Some c \<and> cm_type c = WS_CMD_QUIC_SEND \<and> cm_payload c = [1, 255]"
proof -
  let ?c = "zero_command\<lparr>cm_type := WS_CMD_QUIC_SEND, cm_connection_id := - 1, cm_payload := [1, 255]\<rparr>"
  have "command_ok ?c"
    by (simp add: command_ok_def used_fields_def zero_command_def int_range_def QUIC_MAX_PAYLOAD_def)
  from command_read_back [OF this] show ?thesis by (intro exI [of _ ?c]) simp
qed

end
