(* ===== verification/Database.thy ===== *)
theory Database
  imports C_Number
begin

text \<open>
  \<open>src/db/database.c\<close>. The SQL engine is not part of the program: a database is a value of type
  \<open>'db\<close> and the calls of the SQLite interface are the fields of the record \<open>sqlite\<close>, an argument of
  every function. A statement that is stepped once is one call of \<open>sq_step\<close> with its text and the
  values bound to it. A context is \<open>None\<close> when the context pointer or its connection is null (the
  functions treat both alike); other pointers that may be null are options. Diagnostics on the
  standard error stream and \<open>sqlite3_finalize\<close> are left out.
\<close>

section \<open>The interface of the engine\<close>

datatype sql_value = SqlInt int | SqlText bytes | SqlNull

text \<open>What \<open>sqlite3_column_int\<close> and \<open>sqlite3_column_text\<close> return for a column.\<close>

record sql_cell =
  cell_int :: int
  cell_text :: "bytes option"

text \<open>
  \<open>sq_step\<close> is the first \<open>sqlite3_step\<close>: the result code, the columns of the row, and the database
  afterwards; \<open>sq_rows\<close> is stepping to the end: the rows and the last code.
\<close>

record 'db sqlite =
  sq_open :: "bytes \<Rightarrow> int \<times> 'db"
  sq_prepare :: "'db \<Rightarrow> bytes \<Rightarrow> int"
  sq_step :: "'db \<Rightarrow> bytes \<Rightarrow> sql_value list \<Rightarrow> int \<times> sql_cell list \<times> 'db"
  sq_rows :: "'db \<Rightarrow> bytes \<Rightarrow> sql_value list \<Rightarrow> sql_cell list list \<times> int"
  sq_exec :: "'db \<Rightarrow> bytes \<Rightarrow> int \<times> 'db"
  sq_rowid :: "'db \<Rightarrow> int"

definition SQLITE_OK :: int where "SQLITE_OK = 0"
definition SQLITE_NOTFOUND :: int where "SQLITE_NOTFOUND = 12"
definition SQLITE_MISUSE :: int where "SQLITE_MISUSE = 21"
definition SQLITE_ROW :: int where "SQLITE_ROW = 100"
definition SQLITE_DONE :: int where "SQLITE_DONE = 101"

lemmas sqlite_codes = SQLITE_OK_def SQLITE_NOTFOUND_def SQLITE_MISUSE_def SQLITE_ROW_def SQLITE_DONE_def

definition quotes :: string where "quotes = [CHR 0x27, CHR 0x27]"

section \<open>Records\<close>

definition DB_MAX_USERNAME :: nat where "DB_MAX_USERNAME = 64"
definition DB_MAX_NICKNAME :: nat where "DB_MAX_NICKNAME = 64"
definition DB_MAX_TITLE :: nat where "DB_MAX_TITLE = 128"
definition DB_MAX_DESCRIPTION :: nat where "DB_MAX_DESCRIPTION = 512"
definition DB_MAX_PATH :: nat where "DB_MAX_PATH = 260"
definition DB_MAX_TIMESTAMP :: nat where "DB_MAX_TIMESTAMP = 32"

record db_session =
  se_id :: int
  se_user_id :: int
  se_session_id :: bytes
  se_created_at :: bytes
  se_expires_at :: bytes

record db_user =
  us_id :: int
  us_username :: bytes
  us_nickname :: bytes
  us_password_hash :: bytes
  us_role :: bytes
  us_created_at :: bytes

record db_video =
  vi_id :: int
  vi_title :: bytes
  vi_description :: bytes
  vi_file_path :: bytes
  vi_thumbnail_path :: bytes
  vi_segment_path :: bytes
  vi_duration :: int
  vi_upload_date :: bytes

record db_watch_history =
  wh_id :: int
  wh_user_id :: int
  wh_video_id :: int
  wh_last_position :: int
  wh_updated_at :: bytes

section \<open>Statements\<close>

definition copy_column_text :: "sql_cell list \<Rightarrow> nat \<Rightarrow> nat \<Rightarrow> bytes" where
  "copy_column_text row column dest_size =
     (case cell_text (row ! column) of None \<Rightarrow> [] | Some t \<Rightarrow> take (dest_size - 1) t)"

definition exec_sql :: "'db sqlite \<Rightarrow> 'db \<Rightarrow> bytes \<Rightarrow> int \<times> 'db" where
  "exec_sql sq db sql = sq_exec sq db sql"

definition bind_optional_text :: "bytes option \<Rightarrow> sql_value" where
  "bind_optional_text t = (case t of Some s \<Rightarrow> SqlText s | None \<Rightarrow> SqlNull)"

text \<open>Prepare, bind, step once, and turn \<open>SQLITE_DONE\<close> into \<open>SQLITE_OK\<close>: what every update does.\<close>

definition run_update :: "'db sqlite \<Rightarrow> 'db \<Rightarrow> bytes \<Rightarrow> sql_value list \<Rightarrow> int \<times> 'db" where
  "run_update sq db sql vals =
     (let rc = sq_prepare sq db sql
      in if rc \<noteq> SQLITE_OK then (rc, db)
         else
           let (rc, row, db') = sq_step sq db sql vals
           in (if rc = SQLITE_DONE then SQLITE_OK else rc, db'))"

text \<open>The same for an insertion that reports the new identifier.\<close>

definition run_insert :: "'db sqlite \<Rightarrow> 'db \<Rightarrow> bytes \<Rightarrow> sql_value list \<Rightarrow> int \<times> int option \<times> 'db" where
  "run_insert sq db sql vals =
     (let rc = sq_prepare sq db sql
      in if rc \<noteq> SQLITE_OK then (rc, None, db)
         else
           let (rc, row, db') = sq_step sq db sql vals
           in if rc = SQLITE_DONE then (SQLITE_OK, Some (to_int (sq_rowid sq db')), db') else (rc, None, db'))"

text \<open>The same for a query of one row, which is given when there is one.\<close>

definition run_query :: "'db sqlite \<Rightarrow> 'db \<Rightarrow> bytes \<Rightarrow> sql_value list \<Rightarrow> int \<times> sql_cell list option \<times> 'db" where
  "run_query sq db sql vals =
     (let rc = sq_prepare sq db sql
      in if rc \<noteq> SQLITE_OK then (rc, None, db)
         else
           let (rc, row, db') = sq_step sq db sql vals
           in if rc = SQLITE_ROW then (SQLITE_OK, Some row, db')
              else (if rc = SQLITE_DONE then SQLITE_NOTFOUND else rc, None, db'))"

section \<open>Opening and the schema\<close>

definition sql_foreign_keys :: bytes where
  "sql_foreign_keys =
     chars (''PRAGMA foreign_keys = ON;'')"

definition db_init :: "'db sqlite \<Rightarrow> bytes \<Rightarrow> int \<times> 'db option" where
  "db_init sq db_path =
     (let (rc, db) = sq_open sq db_path
      in if rc \<noteq> SQLITE_OK then (rc, None)
         else let (rc, db) = exec_sql sq db sql_foreign_keys in (rc, Some db))"

definition db_close :: "'db option \<Rightarrow> 'db option" where
  "db_close ctx = None"

definition sql_schema :: bytes where
  "sql_schema = chars (
     ''CREATE TABLE IF NOT EXISTS users (''
     @ '' id INTEGER PRIMARY KEY AUTOINCREMENT,''
     @ '' username TEXT NOT NULL UNIQUE,''
     @ '' nickname TEXT NOT NULL,''
     @ '' password_hash TEXT NOT NULL,''
     @ '' role TEXT NOT NULL DEFAULT 'user' CHECK(role IN ('user','admin')),''
     @ '' created_at DATETIME DEFAULT CURRENT_TIMESTAMP''
     @ '');''
     @ ''CREATE TABLE IF NOT EXISTS sessions (''
     @ '' id INTEGER PRIMARY KEY AUTOINCREMENT,''
     @ '' user_id INTEGER NOT NULL,''
     @ '' session_id TEXT NOT NULL UNIQUE,''
     @ '' created_at DATETIME DEFAULT CURRENT_TIMESTAMP,''
     @ '' expires_at DATETIME NOT NULL,''
     @ '' FOREIGN KEY(user_id) REFERENCES users(id) ON DELETE CASCADE''
     @ '');''
     @ ''CREATE TABLE IF NOT EXISTS videos (''
     @ '' id INTEGER PRIMARY KEY AUTOINCREMENT,''
     @ '' title TEXT NOT NULL,''
     @ '' description TEXT,''
     @ '' file_path TEXT NOT NULL,''
     @ '' thumbnail_path TEXT,''
     @ '' segment_path TEXT,''
     @ '' duration INTEGER DEFAULT 0,''
     @ '' upload_date DATETIME DEFAULT CURRENT_TIMESTAMP''
     @ '');''
     @ ''CREATE TABLE IF NOT EXISTS watch_history (''
     @ '' id INTEGER PRIMARY KEY AUTOINCREMENT,''
     @ '' user_id INTEGER NOT NULL,''
     @ '' video_id INTEGER NOT NULL,''
     @ '' last_position INTEGER NOT NULL DEFAULT 0,''
     @ '' updated_at DATETIME DEFAULT CURRENT_TIMESTAMP,''
     @ '' UNIQUE(user_id, video_id),''
     @ '' FOREIGN KEY(user_id) REFERENCES users(id) ON DELETE CASCADE,''
     @ '' FOREIGN KEY(video_id) REFERENCES videos(id) ON DELETE CASCADE''
     @ '');'')"

definition sql_table_info :: bytes where
  "sql_table_info =
     chars (''PRAGMA table_info(users);'')"

definition sql_add_role :: bytes where
  "sql_add_role =
     chars (''ALTER TABLE users ADD COLUMN role TEXT NOT NULL DEFAULT 'user' CHECK(role IN ('user','admin'));'')"

text \<open>The loop over the columns of the table stops at the first one named \<open>role\<close>.\<close>

definition ensure_users_role_column :: "'db sqlite \<Rightarrow> 'db \<Rightarrow> int \<times> 'db" where
  "ensure_users_role_column sq db =
     (let rc = sq_prepare sq db sql_table_info
      in if rc \<noteq> SQLITE_OK then (rc, db)
         else
           let (rows, last) = sq_rows sq db sql_table_info [];
               has_role = list_ex (\<lambda>row. case cell_text (row ! 1) of None \<Rightarrow> False
                            | Some n \<Rightarrow> strcaseeq n (chars ''role'')) rows;
               rc = (if has_role then SQLITE_ROW else last)
           in if rc \<noteq> SQLITE_DONE \<and> rc \<noteq> SQLITE_ROW then (rc, db)
              else if has_role then (SQLITE_OK, db)
              else exec_sql sq db sql_add_role)"

definition db_initialize_schema :: "'db sqlite \<Rightarrow> 'db option \<Rightarrow> int \<times> 'db option" where
  "db_initialize_schema sq ctx =
     (case ctx of
        None \<Rightarrow> (SQLITE_MISUSE, ctx)
      | Some db \<Rightarrow>
          let (rc, db) = exec_sql sq db sql_schema
          in if rc \<noteq> SQLITE_OK then (rc, Some db)
             else let (rc, db) = ensure_users_role_column sq db in (rc, Some db))"

section \<open>Users\<close>

definition sql_insert_user :: bytes where
  "sql_insert_user =
     chars (''INSERT INTO users (username, nickname, password_hash, role) VALUES (?, ?, ?, ?);'')"

text \<open>The result code, the new identifier when there is one, and the context.\<close>

definition db_create_user :: "'db sqlite \<Rightarrow> 'db option \<Rightarrow> bytes option \<Rightarrow> bytes option \<Rightarrow> bytes option \<Rightarrow>
    bytes option \<Rightarrow> int \<times> int option \<times> 'db option" where
  "db_create_user sq ctx username nickname password_hash role =
     (case (ctx, username, nickname, password_hash) of
        (Some db, Some u, Some n, Some h) \<Rightarrow>
          let role_value = (case role of None \<Rightarrow> chars ''user'' | Some r \<Rightarrow> if r = [] then chars ''user'' else r);
              (rc, new_id, db) = run_insert sq db sql_insert_user [SqlText u, SqlText n, SqlText h, SqlText role_value]
          in (rc, new_id, Some db)
      | _ \<Rightarrow> (SQLITE_MISUSE, None, ctx))"

definition user_of_row :: "sql_cell list \<Rightarrow> db_user" where
  "user_of_row row =
     \<lparr>us_id = cell_int (row ! 0),
      us_username = copy_column_text row 1 DB_MAX_USERNAME,
      us_nickname = copy_column_text row 2 DB_MAX_NICKNAME,
      us_password_hash = copy_column_text row 3 DB_MAX_PATH,
      us_role = copy_column_text row 4 16,
      us_created_at = copy_column_text row 5 DB_MAX_TIMESTAMP\<rparr>"

definition sql_user_by_name :: bytes where
  "sql_user_by_name =
     chars (''SELECT id, username, nickname, password_hash, role, IFNULL(created_at, '' @ quotes @ '') FROM users WHERE username = ?;'')"

definition sql_user_by_id :: bytes where
  "sql_user_by_id =
     chars (''SELECT id, username, nickname, password_hash, role, IFNULL(created_at, '' @ quotes @ '') FROM users WHERE id = ?;'')"

definition sql_delete_user :: bytes where
  "sql_delete_user =
     chars (''DELETE FROM users WHERE id = ?;'')"

text \<open>A query function gives the record when it fills it in.\<close>

definition db_get_user_by_username :: "'db sqlite \<Rightarrow> 'db option \<Rightarrow> bytes option \<Rightarrow> int \<times> db_user option \<times> 'db option" where
  "db_get_user_by_username sq ctx username =
     (case (ctx, username) of
        (Some db, Some u) \<Rightarrow>
          let (rc, row, db) = run_query sq db sql_user_by_name [SqlText u]
          in (rc, map_option user_of_row row, Some db)
      | _ \<Rightarrow> (SQLITE_MISUSE, None, ctx))"

definition db_get_user_by_id :: "'db sqlite \<Rightarrow> 'db option \<Rightarrow> int \<Rightarrow> int \<times> db_user option \<times> 'db option" where
  "db_get_user_by_id sq ctx user_id =
     (case ctx of
        Some db \<Rightarrow>
          let (rc, row, db) = run_query sq db sql_user_by_id [SqlInt user_id]
          in (rc, map_option user_of_row row, Some db)
      | None \<Rightarrow> (SQLITE_MISUSE, None, ctx))"

definition db_delete_user_by_id :: "'db sqlite \<Rightarrow> 'db option \<Rightarrow> int \<Rightarrow> int \<times> 'db option" where
  "db_delete_user_by_id sq ctx user_id =
     (case ctx of
        None \<Rightarrow> (SQLITE_MISUSE, ctx)
      | Some db \<Rightarrow> apsnd Some (run_update sq db sql_delete_user [SqlInt user_id]))"

section \<open>Videos\<close>

definition sql_insert_video :: bytes where
  "sql_insert_video =
     chars (''INSERT INTO videos (title, description, file_path, thumbnail_path, segment_path, duration) VALUES (?, ?, ?, ?, ?, ?);'')"

definition db_create_video :: "'db sqlite \<Rightarrow> 'db option \<Rightarrow> bytes option \<Rightarrow> bytes option \<Rightarrow> bytes option \<Rightarrow>
    bytes option \<Rightarrow> bytes option \<Rightarrow> int \<Rightarrow> int \<times> int option \<times> 'db option" where
  "db_create_video sq ctx title description file_path thumbnail_path segment_path duration =
     (case (ctx, title, file_path) of
        (Some db, Some t, Some f) \<Rightarrow>
          let (rc, new_id, db) = run_insert sq db sql_insert_video [SqlText t, bind_optional_text description, SqlText f,
                bind_optional_text thumbnail_path, bind_optional_text segment_path, SqlInt duration]
          in (rc, new_id, Some db)
      | _ \<Rightarrow> (SQLITE_MISUSE, None, ctx))"

definition sql_video_by_id :: bytes where
  "sql_video_by_id =
     chars (''SELECT id, title, IFNULL(description,'' @ quotes @ ''), file_path, IFNULL(thumbnail_path,'' @ quotes @ ''), IFNULL(segment_path,'' @ quotes @ ''), IFNULL(duration,0), IFNULL(upload_date,'' @ quotes @ '') FROM videos WHERE id = ?;'')"

definition sql_delete_video :: bytes where
  "sql_delete_video =
     chars (''DELETE FROM videos WHERE id = ?;'')"

definition sql_update_segment :: bytes where
  "sql_update_segment =
     chars (''UPDATE videos SET segment_path = ? WHERE id = ?;'')"

definition sql_update_video :: bytes where
  "sql_update_video =
     chars (''UPDATE videos SET title = ?, description = ? WHERE id = ?;'')"

definition video_of_row :: "sql_cell list \<Rightarrow> db_video" where
  "video_of_row row =
     \<lparr>vi_id = cell_int (row ! 0),
      vi_title = copy_column_text row 1 DB_MAX_TITLE,
      vi_description = copy_column_text row 2 DB_MAX_DESCRIPTION,
      vi_file_path = copy_column_text row 3 DB_MAX_PATH,
      vi_thumbnail_path = copy_column_text row 4 DB_MAX_PATH,
      vi_segment_path = copy_column_text row 5 DB_MAX_PATH,
      vi_duration = cell_int (row ! 6),
      vi_upload_date = copy_column_text row 7 DB_MAX_TIMESTAMP\<rparr>"

definition db_get_video_by_id :: "'db sqlite \<Rightarrow> 'db option \<Rightarrow> int \<Rightarrow> int \<times> db_video option \<times> 'db option" where
  "db_get_video_by_id sq ctx video_id =
     (case ctx of
        Some db \<Rightarrow>
          let (rc, row, db) = run_query sq db sql_video_by_id [SqlInt video_id]
          in (rc, map_option video_of_row row, Some db)
      | None \<Rightarrow> (SQLITE_MISUSE, None, ctx))"

definition db_delete_video_by_id :: "'db sqlite \<Rightarrow> 'db option \<Rightarrow> int \<Rightarrow> int \<times> 'db option" where
  "db_delete_video_by_id sq ctx video_id =
     (case ctx of
        None \<Rightarrow> (SQLITE_MISUSE, ctx)
      | Some db \<Rightarrow> apsnd Some (run_update sq db sql_delete_video [SqlInt video_id]))"

definition db_update_video_segment_path :: "'db sqlite \<Rightarrow> 'db option \<Rightarrow> int \<Rightarrow> bytes option \<Rightarrow> int \<times> 'db option" where
  "db_update_video_segment_path sq ctx video_id segment_path =
     (case (ctx, segment_path) of
        (Some db, Some p) \<Rightarrow> apsnd Some (run_update sq db sql_update_segment [SqlText p, SqlInt video_id])
      | _ \<Rightarrow> (SQLITE_MISUSE, ctx))"

definition db_update_video_metadata :: "'db sqlite \<Rightarrow> 'db option \<Rightarrow> int \<Rightarrow> bytes option \<Rightarrow> bytes option \<Rightarrow> int \<times> 'db option" where
  "db_update_video_metadata sq ctx video_id title description =
     (case ctx of
        None \<Rightarrow> (SQLITE_MISUSE, ctx)
      | Some db \<Rightarrow> apsnd Some (run_update sq db sql_update_video
          [SqlText (case title of None \<Rightarrow> [] | Some t \<Rightarrow> t),
           SqlText (case description of None \<Rightarrow> [] | Some d \<Rightarrow> d), SqlInt video_id]))"

section \<open>Watch history\<close>

definition sql_upsert_watch :: bytes where
  "sql_upsert_watch =
     chars (''INSERT INTO watch_history (user_id, video_id, last_position, updated_at) VALUES (?, ?, ?, CURRENT_TIMESTAMP) ON CONFLICT(user_id, video_id) DO UPDATE SET   last_position = excluded.last_position,   updated_at = CURRENT_TIMESTAMP;'')"

definition sql_get_watch :: bytes where
  "sql_get_watch =
     chars (''SELECT id, user_id, video_id, last_position, IFNULL(updated_at,'' @ quotes @ '') FROM watch_history WHERE user_id = ? AND video_id = ?;'')"

definition sql_delete_watch :: bytes where
  "sql_delete_watch =
     chars (''DELETE FROM watch_history WHERE user_id = ? AND video_id = ?;'')"

definition db_upsert_watch_history :: "'db sqlite \<Rightarrow> 'db option \<Rightarrow> int \<Rightarrow> int \<Rightarrow> int \<Rightarrow> int \<times> 'db option" where
  "db_upsert_watch_history sq ctx user_id video_id last_position =
     (case ctx of
        None \<Rightarrow> (SQLITE_MISUSE, ctx)
      | Some db \<Rightarrow> apsnd Some (run_update sq db sql_upsert_watch [SqlInt user_id, SqlInt video_id, SqlInt last_position]))"

definition watch_of_row :: "sql_cell list \<Rightarrow> db_watch_history" where
  "watch_of_row row =
     \<lparr>wh_id = cell_int (row ! 0), wh_user_id = cell_int (row ! 1), wh_video_id = cell_int (row ! 2),
      wh_last_position = cell_int (row ! 3), wh_updated_at = copy_column_text row 4 DB_MAX_TIMESTAMP\<rparr>"

definition db_get_watch_history :: "'db sqlite \<Rightarrow> 'db option \<Rightarrow> int \<Rightarrow> int \<Rightarrow> int \<times> db_watch_history option \<times> 'db option" where
  "db_get_watch_history sq ctx user_id video_id =
     (case ctx of
        Some db \<Rightarrow>
          let (rc, row, db) = run_query sq db sql_get_watch [SqlInt user_id, SqlInt video_id]
          in (rc, map_option watch_of_row row, Some db)
      | None \<Rightarrow> (SQLITE_MISUSE, None, ctx))"

definition db_delete_watch_history :: "'db sqlite \<Rightarrow> 'db option \<Rightarrow> int \<Rightarrow> int \<Rightarrow> int \<times> 'db option" where
  "db_delete_watch_history sq ctx user_id video_id =
     (case ctx of
        None \<Rightarrow> (SQLITE_MISUSE, ctx)
      | Some db \<Rightarrow> apsnd Some (run_update sq db sql_delete_watch [SqlInt user_id, SqlInt video_id]))"

section \<open>Sessions\<close>

definition sql_insert_session :: bytes where
  "sql_insert_session =
     chars (''INSERT INTO sessions (user_id, session_id, expires_at) VALUES (?, ?, datetime('now', ?));'')"

definition sql_get_session :: bytes where
  "sql_get_session =
     chars (''SELECT id, user_id, session_id, IFNULL(created_at,'' @ quotes @ ''), IFNULL(expires_at,'' @ quotes @ '') FROM sessions WHERE session_id = ? AND expires_at > datetime('now');'')"

definition sql_delete_session :: bytes where
  "sql_delete_session =
     chars (''DELETE FROM sessions WHERE session_id = ?;'')"

definition sql_delete_expired :: bytes where
  "sql_delete_expired =
     chars (''DELETE FROM sessions WHERE expires_at <= datetime('now');'')"

definition ttl_text :: "int \<Rightarrow> bytes" where
  "ttl_text ttl_seconds = snprintf 32 (chars ''+'' @ dec_int ttl_seconds @ chars '' seconds'')"

definition db_create_session :: "'db sqlite \<Rightarrow> 'db option \<Rightarrow> int \<Rightarrow> bytes option \<Rightarrow> int \<Rightarrow> int \<times> 'db option" where
  "db_create_session sq ctx user_id session_id ttl_seconds =
     (case (ctx, session_id) of
        (Some db, Some s) \<Rightarrow> apsnd Some (run_update sq db sql_insert_session
          [SqlInt user_id, SqlText s, SqlText (ttl_text ttl_seconds)])
      | _ \<Rightarrow> (SQLITE_MISUSE, ctx))"

definition session_of_row :: "sql_cell list \<Rightarrow> db_session" where
  "session_of_row row =
     \<lparr>se_id = cell_int (row ! 0), se_user_id = cell_int (row ! 1),
      se_session_id = copy_column_text row 2 65,
      se_created_at = copy_column_text row 3 DB_MAX_TIMESTAMP,
      se_expires_at = copy_column_text row 4 DB_MAX_TIMESTAMP\<rparr>"

definition db_get_session :: "'db sqlite \<Rightarrow> 'db option \<Rightarrow> bytes option \<Rightarrow> int \<times> db_session option \<times> 'db option" where
  "db_get_session sq ctx session_id =
     (case (ctx, session_id) of
        (Some db, Some s) \<Rightarrow>
          let (rc, row, db) = run_query sq db sql_get_session [SqlText s]
          in (rc, map_option session_of_row row, Some db)
      | _ \<Rightarrow> (SQLITE_MISUSE, None, ctx))"

definition db_delete_session :: "'db sqlite \<Rightarrow> 'db option \<Rightarrow> bytes option \<Rightarrow> int \<times> 'db option" where
  "db_delete_session sq ctx session_id =
     (case (ctx, session_id) of
        (Some db, Some s) \<Rightarrow> apsnd Some (run_update sq db sql_delete_session [SqlText s])
      | _ \<Rightarrow> (SQLITE_MISUSE, ctx))"

definition db_delete_expired_sessions :: "'db sqlite \<Rightarrow> 'db option \<Rightarrow> int \<times> 'db option" where
  "db_delete_expired_sessions sq ctx =
     (case ctx of
        None \<Rightarrow> (SQLITE_MISUSE, ctx)
      | Some db \<Rightarrow> apsnd Some (exec_sql sq db sql_delete_expired))"

end
