(* ===== verification/Ws_Handler.thy ===== *)
theory Ws_Handler
  imports Ws_Command Ws_Media Database
begin

text \<open>
  Answering a command in \<open>src/server/websocket.c\<close>: \<open>send_json_response\<close>, the context with its
  functions \<open>websocket_context_init\<close> and \<open>websocket_context_destroy\<close>, and \<open>handle_text_frame\<close>, one
  definition per command. The record \<open>ws_env\<close> is everything outside the server: the SQL engine, the
  file system, the memory allocator, the network and the clock of the QUIC engine, and what
  \<open>video_probe_duration\<close> followed by \<open>%.2f\<close> prints for a path. Diagnostics on the standard error
  stream are left out; a critical section of the context's lock is one step.
\<close>

section \<open>The context\<close>

record 'db ws_context =
  wc_quic_engine :: "quic_engine option"
  wc_db :: "'db option"
  wc_next_packet_number :: u32
  wc_segment_sent_ok :: u64
  wc_segment_sent_fail :: u64

record 'db ws_env =
  en_sq :: "'db sqlite"
  en_fs :: "bytes \<Rightarrow> file_view"
  en_mem :: bool
  en_world :: world
  en_clk :: "nat \<Rightarrow> int"
  en_duration :: "bytes \<Rightarrow> bytes"

text \<open>A null context is \<open>None\<close>.\<close>

definition websocket_context_init :: "quic_engine option \<Rightarrow> 'db option \<Rightarrow> 'db ws_context option \<Rightarrow> 'db ws_context option" where
  "websocket_context_init engine db ctx =
     map_option (\<lambda>_. \<lparr>wc_quic_engine = engine, wc_db = db, wc_next_packet_number = 1,
       wc_segment_sent_ok = 0, wc_segment_sent_fail = 0\<rparr>) ctx"

definition websocket_context_destroy :: "'db ws_context option \<Rightarrow> 'db ws_context option" where
  "websocket_context_destroy ctx =
     map_option (\<lambda>_. \<lparr>wc_quic_engine = None, wc_db = None, wc_next_packet_number = 0,
       wc_segment_sent_ok = 0, wc_segment_sent_fail = 0\<rparr>) ctx"

section \<open>Replies\<close>

definition send_text :: "ws_io \<Rightarrow> bytes \<Rightarrow> int \<times> ws_io" where
  "send_text io t = ws_send_frame io 1 t (word_of_nat (length t))"

definition json_response_text :: "bytes \<Rightarrow> bytes \<Rightarrow> bytes \<Rightarrow> bytes" where
  \<open>json_response_text t status message =
     chars ''{"type":"'' @ t @ chars ''","status":"'' @ status @ chars ''","message":"'' @ message @ chars ''"}''\<close>

text \<open>The reply is cut to the buffer of 256 bytes.\<close>

definition send_json_response :: "ws_io \<Rightarrow> bytes option \<Rightarrow> bytes option \<Rightarrow> bytes option \<Rightarrow> int \<times> ws_io" where
  "send_json_response io t status message =
     (let payload = json_response_text (case t of None \<Rightarrow> chars ''event'' | Some s \<Rightarrow> s)
            (case status of None \<Rightarrow> chars ''ok'' | Some s \<Rightarrow> s) (case message of None \<Rightarrow> [] | Some m \<Rightarrow> m)
      in send_text io (snprintf 256 payload))"

definition reply :: "ws_io \<Rightarrow> string \<Rightarrow> string \<Rightarrow> string \<Rightarrow> int \<times> ws_io" where
  "reply io t status message = send_json_response io (Some (chars t)) (Some (chars status)) (Some (chars message))"

text \<open>A reply formatted into a buffer of \<open>n\<close> bytes.\<close>

definition send_bounded :: "ws_io \<Rightarrow> nat \<Rightarrow> bytes \<Rightarrow> int \<times> ws_io" where
  "send_bounded io n t =
     (if n \<le> length t then reply io ''error'' ''internal_error'' ''response-too-large'' else send_text io t)"

definition handle_ping :: "ws_io \<Rightarrow> int \<times> ws_io" where
  "handle_ping io = reply io ''pong'' ''ok'' ''alive''"

section \<open>Sending on a QUIC connection\<close>

definition state_name :: "quic_connection_state \<Rightarrow> string" where
  "state_name st = (case st of CONN_CONNECTING \<Rightarrow> ''connecting'' | CONN_CLOSED \<Rightarrow> ''closed''
     | CONN_IDLE \<Rightarrow> ''idle'' | CONN_CONNECTED \<Rightarrow> ''unknown'')"

definition handle_quic_send :: "'db ws_env \<Rightarrow> ws_io \<Rightarrow> 'db ws_context option \<Rightarrow> ws_command \<Rightarrow>
    int \<times> ws_io \<times> 'db ws_context option" where
  "handle_quic_send env io ctx cmd =
     (let answer = \<lambda>r c. (fst r, snd r, c)
      in case ctx of
        None \<Rightarrow> answer (reply io ''error'' ''unavailable'' ''quic-engine-missing'') ctx
      | Some c \<Rightarrow>
     (case wc_quic_engine c of
        None \<Rightarrow> answer (reply io ''error'' ''unavailable'' ''quic-engine-missing'') ctx
      | Some e \<Rightarrow>
     (case quic_engine_get_connection_state e (cm_connection_id cmd) of
        None \<Rightarrow> answer (reply io ''error'' ''connection-not-found'' ''quic-connection-not-found'') ctx
      | Some state \<Rightarrow>
          if state \<noteq> CONN_CONNECTED then
            answer (reply io ''error'' ''connection-not-ready'' (''quic-connection-not-ready('' @ state_name state @ '')'')) ctx
          else
            let packet = \<lparr>pk_flags = QUIC_FLAG_DATA, pk_connection_id = cm_connection_id cmd,
                  pk_packet_number = wc_next_packet_number c, pk_stream_id = cm_stream_id cmd,
                  pk_offset = cm_offset cmd, pk_length = word_of_nat (length (cm_payload cmd)),
                  pk_payload = Some (cm_payload cmd)\<rparr>;
                (rc, e) = quic_engine_send_to_connection (en_world env) (en_clk env) e packet;
                ctx = Some (c\<lparr>wc_next_packet_number := wc_next_packet_number c + 1, wc_quic_engine := Some e\<rparr>)
            in if rc \<noteq> 0 then answer (reply io ''error'' ''quic_send_failed'' ''connection-not-found'') ctx
               else answer (send_json_response io (Some (chars ''quic_send'')) (Some (chars ''ok''))
                 (Some (snprintf 128 (chars ''sent-pn-'' @ dec_nat (unat (pk_packet_number packet)))))) ctx)))"

section \<open>Listings\<close>

text \<open>
  The rows are appended to a buffer of \<open>n\<close> bytes that holds \<open>t\<close>; the loop stops when the buffer is
  full. \<open>None\<close> is a comma written outside the buffer.
\<close>

fun rows_loop :: "nat \<Rightarrow> ('row \<Rightarrow> bytes) \<Rightarrow> 'row list \<Rightarrow> bool \<Rightarrow> bytes \<Rightarrow> bytes option" where
  "rows_loop n item [] first t = Some t"
| "rows_loop n item (row # rows) first t =
     (if \<not> first \<and> n \<le> length t then None
      else
        let t = (if first then t else t @ [44]) @ item row
        in if n - 1 \<le> length t then Some t else rows_loop n item rows False t)"

definition column_text :: "sql_cell list \<Rightarrow> nat \<Rightarrow> bytes" where
  "column_text row i = (case cell_text (row ! i) of None \<Rightarrow> [] | Some s \<Rightarrow> s)"

definition video_item :: "sql_cell list \<Rightarrow> bytes" where
  \<open>video_item row =
     chars ''{"id":'' @ dec_int (cell_int (row ! 0)) @ chars '',"title":"'' @ column_text row 1
       @ chars ''","description":"'' @ column_text row 2 @ chars ''","thumbnail_path":"'' @ column_text row 3
       @ chars ''","duration":'' @ dec_int (cell_int (row ! 4)) @ chars ''}''\<close>

definition continue_item :: "sql_cell list \<Rightarrow> bytes" where
  \<open>continue_item row =
     chars ''{"id":'' @ dec_int (cell_int (row ! 0)) @ chars '',"title":"'' @ column_text row 1
       @ chars ''","description":"'' @ column_text row 2 @ chars ''","thumbnail_path":"'' @ column_text row 3
       @ chars ''","duration":'' @ dec_int (cell_int (row ! 4)) @ chars '',"position":'' @ dec_int (cell_int (row ! 5))
       @ chars ''}''\<close>

text \<open>The listing in a buffer of \<open>n\<close> bytes, or the error reply when it does not fit.\<close>

definition send_listing :: "ws_io \<Rightarrow> nat \<Rightarrow> bytes \<Rightarrow> ('row \<Rightarrow> bytes) \<Rightarrow> 'row list \<Rightarrow> (int \<times> ws_io) option" where
  "send_listing io n start item rows =
     map_option (\<lambda>t. if n - 2 \<le> length t then reply io ''error'' ''internal_error'' ''response-too-large''
                     else send_text io (t @ [93, 125])) (rows_loop n item rows True start)"

definition sql_list_videos :: bytes where
  "sql_list_videos = chars (''SELECT id, title, IFNULL(description,'' @ quotes @ ''), IFNULL(thumbnail_path,'' @ quotes @
     ''), IFNULL(duration,0) FROM videos ORDER BY id DESC LIMIT 20;'')"

definition sql_list_continue :: bytes where
  "sql_list_continue = chars (''SELECT v.id, v.title, IFNULL(v.description,'' @ quotes @ ''), IFNULL(v.thumbnail_path,'' @
     quotes @ ''), IFNULL(v.duration,0), w.last_position FROM watch_history w JOIN videos v ON w.video_id = v.id '' @
     ''WHERE w.user_id = ? AND w.last_position > 10 ORDER BY w.updated_at DESC LIMIT 10;'')"

definition handle_list_videos :: "'db ws_env \<Rightarrow> ws_io \<Rightarrow> 'db ws_context option \<Rightarrow> (int \<times> ws_io) option" where
  \<open>handle_list_videos env io ctx =
     (case Option.bind ctx wc_db of
        None \<Rightarrow> Some (reply io ''error'' ''unavailable'' ''db-missing'')
      | Some db \<Rightarrow>
          if sq_prepare (en_sq env) db sql_list_videos \<noteq> SQLITE_OK then
            Some (reply io ''error'' ''db_error'' ''list-failed'')
          else send_listing io 4096 (chars ''{"type":"videos","items":['') video_item
                 (fst (sq_rows (en_sq env) db sql_list_videos [])))\<close>

definition handle_list_continue :: "'db ws_env \<Rightarrow> ws_io \<Rightarrow> 'db ws_context option \<Rightarrow> int \<Rightarrow> (int \<times> ws_io) option" where
  \<open>handle_list_continue env io ctx user_id =
     (case Option.bind ctx wc_db of
        None \<Rightarrow> Some (reply io ''error'' ''unavailable'' ''db-missing'')
      | Some db \<Rightarrow>
          if user_id \<le> 0 then Some (reply io ''error'' ''unauthorized'' ''login-required'')
          else if sq_prepare (en_sq env) db sql_list_continue \<noteq> SQLITE_OK then
            Some (reply io ''error'' ''db_error'' ''list-continue-failed'')
          else send_listing io 4096 (chars ''{"type":"continue_videos","items":['') continue_item
                 (fst (sq_rows (en_sq env) db sql_list_continue [SqlInt user_id])))\<close>

section \<open>One video\<close>

text \<open>A reply formatted with \<open>snprintf\<close>, the context left as it is.\<close>

definition with_ctx :: "'db ws_context option \<Rightarrow> int \<times> ws_io \<Rightarrow> int \<times> ws_io \<times> 'db ws_context option" where
  "with_ctx ctx r = (fst r, snd r, ctx)"

definition set_db :: "'db ws_context option \<Rightarrow> 'db option \<Rightarrow> 'db ws_context option" where
  "set_db ctx db = map_option (\<lambda>c. c\<lparr>wc_db := db\<rparr>) ctx"

definition sql_video_detail :: bytes where
  "sql_video_detail = chars (''SELECT id, title, IFNULL(description,'' @ quotes @ ''), file_path, IFNULL(thumbnail_path,'' @
     quotes @ ''), IFNULL(duration,0), IFNULL(upload_date,'' @ quotes @ '') FROM videos WHERE id = ?;'')"

definition video_detail_text :: "int \<Rightarrow> sql_cell list \<Rightarrow> bytes" where
  \<open>video_detail_text video_id row =
     chars ''{"type":"video_detail","id":'' @ dec_int video_id @ chars '',"title":"'' @ column_text row 1
       @ chars ''","description":"'' @ column_text row 2 @ chars ''","file_path":"'' @ column_text row 3
       @ chars ''","thumbnail_path":"'' @ column_text row 4 @ chars ''","duration":'' @ dec_int (cell_int (row ! 5))
       @ chars '',"upload_date":"'' @ column_text row 6 @ chars ''"}''\<close>

definition handle_video_detail :: "'db ws_env \<Rightarrow> ws_io \<Rightarrow> 'db ws_context option \<Rightarrow> ws_command \<Rightarrow>
    int \<times> ws_io \<times> 'db ws_context option" where
  "handle_video_detail env io ctx cmd =
     (case Option.bind ctx wc_db of
        None \<Rightarrow> with_ctx ctx (reply io ''error'' ''unavailable'' ''db-missing'')
      | Some db \<Rightarrow>
          if sq_prepare (en_sq env) db sql_video_detail \<noteq> SQLITE_OK then
            with_ctx ctx (reply io ''error'' ''db_error'' ''detail-prepare-failed'')
          else
            let (rc, row, db) = sq_step (en_sq env) db sql_video_detail [SqlInt (cm_video_id cmd)];
                ctx = set_db ctx (Some db)
            in if rc \<noteq> SQLITE_ROW then with_ctx ctx (reply io ''error'' ''not_found'' ''video-not-found'')
               else with_ctx ctx (send_bounded io 1024 (video_detail_text (cm_video_id cmd) row)))"

definition VIDEO_BASE_PATH :: bytes where "VIDEO_BASE_PATH = chars ''data/videos''"

definition full_path :: "bytes \<Rightarrow> bytes" where
  "full_path file_path =
     (if file_path \<noteq> [] \<and> file_path ! 0 = 47 then take 511 file_path
      else snprintf 512 (VIDEO_BASE_PATH @ [47] @ file_path))"

definition stream_start_text :: "ws_command \<Rightarrow> int \<Rightarrow> bytes \<Rightarrow> bytes" where
  \<open>stream_start_text cmd st_size duration =
     chars ''{"type":"stream_start","status":"ok","id":'' @ dec_int (cm_video_id cmd)
       @ chars '',"total_bytes":'' @ dec_int st_size @ chars '',"chunk_size":'' @ dec_nat (unat (cm_chunk_length cmd))
       @ chars '',"duration":'' @ duration @ chars '',"connection_id":'' @ dec_nat (unat (cm_connection_id cmd))
       @ chars '',"stream_id":'' @ dec_nat (unat (cm_stream_id cmd)) @ chars ''}''\<close>

definition handle_stream_start :: "'db ws_env \<Rightarrow> ws_io \<Rightarrow> 'db ws_context option \<Rightarrow> ws_command \<Rightarrow>
    int \<times> ws_io \<times> 'db ws_context option" where
  "handle_stream_start env io ctx cmd =
     (if Option.bind ctx wc_db = None then with_ctx ctx (reply io ''error'' ''unavailable'' ''db-missing'')
      else
        let (rc, video, db) = db_get_video_by_id (en_sq env) (Option.bind ctx wc_db) (cm_video_id cmd);
            ctx = set_db ctx db
        in if rc \<noteq> SQLITE_OK then with_ctx ctx (reply io ''error'' ''not_found'' ''video-not-found'')
           else
             let path = full_path (vi_file_path (the video))
             in case fv_stat (en_fs env path) of
                  None \<Rightarrow> with_ctx ctx (reply io ''error'' ''not_found'' ''file-missing'')
                | Some st_size \<Rightarrow>
                    with_ctx ctx (send_bounded io 256 (stream_start_text cmd st_size (en_duration env path))))"

definition stream_chunk_text :: "ws_command \<Rightarrow> bytes" where
  \<open>stream_chunk_text cmd =
     chars ''{"type":"stream_chunk","status":"ok","offset":'' @ dec_nat (unat (cm_offset cmd))
       @ chars '',"length":'' @ dec_nat (unat (cm_length cmd)) @ chars ''}''\<close>

text \<open>
  The packet number is read before the packets are sent and written back after, and only when all
  of them were sent.
\<close>

definition handle_stream_chunk :: "'db ws_env \<Rightarrow> ws_io \<Rightarrow> 'db ws_context option \<Rightarrow> ws_command \<Rightarrow>
    int \<times> ws_io \<times> 'db ws_context option" where
  "handle_stream_chunk env io ctx cmd =
     (case ctx of
        None \<Rightarrow> with_ctx ctx (reply io ''error'' ''unavailable'' ''db-missing'')
      | Some c \<Rightarrow>
          if wc_db c = None then with_ctx ctx (reply io ''error'' ''unavailable'' ''db-missing'')
          else
            let (rc, video, db) = db_get_video_by_id (en_sq env) (wc_db c) (cm_video_id cmd);
                c = c\<lparr>wc_db := db\<rparr>
            in if rc \<noteq> SQLITE_OK then with_ctx (Some c) (reply io ''error'' ''not_found'' ''video-not-found'')
               else
                 let (rc, engine, next_pn) = send_video_chunk (en_world env) (en_clk env) (en_fs env) (wc_quic_engine c)
                       (cm_connection_id cmd) (cm_stream_id cmd) (full_path (vi_file_path (the video)))
                       (cm_offset cmd) (cm_length cmd) (wc_next_packet_number c);
                     c = c\<lparr>wc_quic_engine := engine\<rparr>
                 in if rc \<noteq> 0 then with_ctx (Some c) (reply io ''error'' ''stream_failed'' ''chunk-send-failed'')
                    else with_ctx (Some (c\<lparr>wc_next_packet_number := next_pn\<rparr>)) (send_bounded io 128 (stream_chunk_text cmd)))"

section \<open>Segments over the WebSocket\<close>

text \<open>The directory of a video's segments, and \<open>%05d\<close>.\<close>

definition segment_dir :: "int \<Rightarrow> bytes" where
  "segment_dir video_id = chars ''data/segments/'' @ dec_int video_id @ [47]"

definition pad5 :: "int \<Rightarrow> bytes" where
  "pad5 i = (if i < 0 then 45 # replicate (4 - length (dec_nat (nat (- i)))) 48 @ dec_nat (nat (- i))
             else replicate (5 - length (dec_nat (nat i))) 48 @ dec_nat (nat i))"

definition segment_path :: "int \<Rightarrow> int \<Rightarrow> bytes" where
  "segment_path video_id i = segment_dir video_id @ chars ''chunk-stream0-'' @ pad5 i @ chars ''.m4s''"

definition blank :: "u8 \<Rightarrow> bool" where
  "blank b \<longleftrightarrow> b = 32 \<or> b = 10 \<or> b = 13 \<or> b = 9"

definition info_content :: "bytes \<Rightarrow> bytes" where
  "info_content file_content =
     (let p = dropWhile blank (c_string file_content)
      in if p \<noteq> [] \<and> hd p = 123 then dropWhile blank (tl p) else p)"

text \<open>
  The loop that counts the segments, \<open>k\<close> of its 1000 iterations left; the count stays zero when no
  file is missing.
\<close>

fun count_segments :: "(nat \<Rightarrow> bool) \<Rightarrow> nat \<Rightarrow> nat \<Rightarrow> nat" where
  "count_segments present 0 i = 0"
| "count_segments present (Suc k) i = (if present i then count_segments present k (Suc i) else i)"

definition ws_init_text :: "int \<Rightarrow> nat \<Rightarrow> bytes" where
  \<open>ws_init_text duration total_segments =
     chars ''{"type":"ws_init","status":"ok","duration":'' @ dec_int duration
       @ chars '',"total_segments":'' @ dec_nat total_segments @ chars ''}''\<close>

definition init_fallback :: "'db ws_env \<Rightarrow> ws_io \<Rightarrow> 'db ws_context option \<Rightarrow> ws_command \<Rightarrow>
    int \<times> ws_io \<times> 'db ws_context option" where
  "init_fallback env io ctx cmd =
     (let (duration, ctx) =
           (if Option.bind ctx wc_db = None then (0, ctx)
            else
              let (rc, video, db) = db_get_video_by_id (en_sq env) (Option.bind ctx wc_db) (cm_video_id cmd)
              in (if rc = SQLITE_OK then vi_duration (the video) else 0, set_db ctx db));
          total_segments = count_segments
            (\<lambda>i. fv_stat (en_fs env (snprintf 256 (segment_path (cm_video_id cmd) (int i)))) \<noteq> None) 1000 0;
          resp = ws_init_text duration total_segments
      in with_ctx ctx (if length resp < 256 then send_text io resp else reply io ''ws_init'' ''ok'' ''init-sent''))"

definition handle_ws_init :: "'db ws_env \<Rightarrow> ws_io \<Rightarrow> 'db ws_context option \<Rightarrow> ws_command \<Rightarrow>
    int \<times> ws_io \<times> 'db ws_context option" where
  \<open>handle_ws_init env io ctx cmd =
     (let dir = segment_dir (cm_video_id cmd);
          (rc, io) = send_ws_file (en_mem env) (en_fs env) io (snprintf 512 (dir @ chars ''init-stream0.m4s'')) (chars ''INIT'') 0
      in if rc \<noteq> 0 then with_ctx ctx (reply io ''ws_segment'' ''error'' ''init-missing'')
         else
           let f = en_fs env (snprintf 512 (dir @ chars ''segment_info.json''))
           in if fv_open f \<and> 0 < fv_tell f \<and> fv_tell f < 1024 * 1024 \<and> en_mem env then
                with_ctx ctx (send_text io (chars ''{"type":"ws_init","status":"ok",''
                  @ info_content (take (nat (fv_tell f)) (fv_data f))))
              else init_fallback env io ctx cmd)\<close>

text \<open>The second attempt is made when the first fails.\<close>

definition segment_error_text :: "int \<Rightarrow> bytes" where
  \<open>segment_error_text i = chars ''{"type":"ws_segment","status":"error","segment":'' @ dec_int i
     @ chars '',"message":"segment-missing"}''\<close>

definition handle_ws_segment :: "'db ws_env \<Rightarrow> ws_io \<Rightarrow> 'db ws_context option \<Rightarrow> ws_command \<Rightarrow>
    int \<times> ws_io \<times> 'db ws_context option" where
  "handle_ws_segment env io ctx cmd =
     (let path = snprintf 512 (segment_path (cm_video_id cmd) (cm_segment_index cmd));
          send = (\<lambda>io. send_ws_file (en_mem env) (en_fs env) io path (chars ''SEGM'') (word_of_int (cm_segment_index cmd)));
          (rc, io) = send io;
          (rc, io) = (if rc = 0 then (rc, io) else send io)
      in if rc \<noteq> 0 then
           let ctx = map_option (\<lambda>c. c\<lparr>wc_segment_sent_fail := wc_segment_sent_fail c + 1\<rparr>) ctx;
               payload = segment_error_text (cm_segment_index cmd)
           in with_ctx ctx (if length payload < 160 then send_text io payload
                            else reply io ''ws_segment'' ''error'' ''segment-missing'')
         else with_ctx (map_option (\<lambda>c. c\<lparr>wc_segment_sent_ok := wc_segment_sent_ok c + 1\<rparr>) ctx)
                (reply io ''ws_segment'' ''ok'' ''segment-sent''))"

section \<open>Watch history\<close>

definition watch_get_text :: "int \<Rightarrow> int \<Rightarrow> int \<Rightarrow> bytes" where
  \<open>watch_get_text user_id video_id position =
     chars ''{"type":"watch_get","status":"ok","user_id":'' @ dec_int user_id @ chars '',"video_id":'' @ dec_int video_id
       @ chars '',"position":'' @ dec_int position @ chars ''}''\<close>

definition handle_watch_get :: "'db ws_env \<Rightarrow> ws_io \<Rightarrow> 'db ws_context option \<Rightarrow> ws_command \<Rightarrow> int \<Rightarrow>
    int \<times> ws_io \<times> 'db ws_context option" where
  "handle_watch_get env io ctx cmd user_id =
     (if Option.bind ctx wc_db = None then with_ctx ctx (reply io ''error'' ''unavailable'' ''db-missing'')
      else if user_id \<le> 0 then with_ctx ctx (reply io ''error'' ''unauthorized'' ''login-required'')
      else
        let (rc, hist, db) = db_get_watch_history (en_sq env) (Option.bind ctx wc_db) user_id (cm_video_id cmd);
            ctx = set_db ctx db
        in if rc \<noteq> SQLITE_OK then with_ctx ctx (reply io ''watch_get'' ''not_found'' ''history-missing'')
           else with_ctx ctx (send_bounded io 256 (watch_get_text user_id (cm_video_id cmd) (wh_last_position (the hist)))))"

definition watch_update_text :: "int \<Rightarrow> int \<Rightarrow> bytes" where
  \<open>watch_update_text user_id position =
     chars ''{"type":"watch_update","status":"ok","user_id":'' @ dec_int user_id @ chars '',"position":'' @ dec_int position
       @ chars ''}''\<close>

definition handle_watch_update :: "'db ws_env \<Rightarrow> ws_io \<Rightarrow> 'db ws_context option \<Rightarrow> ws_command \<Rightarrow> int \<Rightarrow>
    int \<times> ws_io \<times> 'db ws_context option" where
  "handle_watch_update env io ctx cmd user_id =
     (if Option.bind ctx wc_db = None then with_ctx ctx (reply io ''error'' ''unavailable'' ''db-missing'')
      else if user_id \<le> 0 then with_ctx ctx (reply io ''error'' ''unauthorized'' ''login-required'')
      else
        let (rc, db) = db_upsert_watch_history (en_sq env) (Option.bind ctx wc_db) user_id (cm_video_id cmd) (cm_position cmd);
            ctx = set_db ctx db
        in if rc \<noteq> SQLITE_OK then with_ctx ctx (reply io ''error'' ''db_error'' ''watch-update-failed'')
           else with_ctx ctx (send_bounded io 128 (watch_update_text user_id (cm_position cmd))))"

section \<open>A text frame\<close>

text \<open>\<open>None\<close> is a write outside the buffer of a listing.\<close>

definition handle_command :: "'db ws_env \<Rightarrow> ws_io \<Rightarrow> 'db ws_context option \<Rightarrow> ws_command \<Rightarrow> int \<Rightarrow>
    (int \<times> ws_io \<times> 'db ws_context option) option" where
  "handle_command env io ctx cmd user_id =
     (case cm_type cmd of
        WS_CMD_PING \<Rightarrow> Some (with_ctx ctx (handle_ping io))
      | WS_CMD_QUIC_SEND \<Rightarrow> Some (handle_quic_send env io ctx cmd)
      | WS_CMD_LIST_VIDEOS \<Rightarrow> map_option (with_ctx ctx) (handle_list_videos env io ctx)
      | WS_CMD_LIST_CONTINUE \<Rightarrow> map_option (with_ctx ctx) (handle_list_continue env io ctx user_id)
      | WS_CMD_VIDEO_DETAIL \<Rightarrow> Some (handle_video_detail env io ctx cmd)
      | WS_CMD_STREAM_START \<Rightarrow> Some (handle_stream_start env io ctx cmd)
      | WS_CMD_STREAM_CHUNK \<Rightarrow> Some (handle_stream_chunk env io ctx cmd)
      | WS_CMD_WS_INIT \<Rightarrow> Some (handle_ws_init env io ctx cmd)
      | WS_CMD_WS_SEGMENT \<Rightarrow> Some (handle_ws_segment env io ctx cmd)
      | WS_CMD_WATCH_GET \<Rightarrow> Some (handle_watch_get env io ctx cmd user_id)
      | WS_CMD_WATCH_UPDATE \<Rightarrow> Some (handle_watch_update env io ctx cmd user_id)
      | _ \<Rightarrow> Some (with_ctx ctx (reply io ''error'' ''bad_request'' ''unsupported'')))"

definition handle_text_frame :: "'db ws_env \<Rightarrow> ws_io \<Rightarrow> 'db ws_context option \<Rightarrow> ws_frame \<Rightarrow> int \<Rightarrow>
    (int \<times> ws_io \<times> 'db ws_context option) option" where
  "handle_text_frame env io ctx frame user_id =
     (case fr_payload frame of
        None \<Rightarrow> Some (with_ctx ctx (reply io ''error'' ''bad_request'' ''empty-payload''))
      | Some payload \<Rightarrow>
          if fr_payload_len frame = 0 then Some (with_ctx ctx (reply io ''error'' ''bad_request'' ''empty-payload''))
          else if \<not> en_mem env then Some (with_ctx ctx (reply io ''error'' ''internal_error'' ''alloc-failed''))
          else
            (case parse_command (c_string (take (unat (fr_payload_len frame)) payload)) of
               None \<Rightarrow> Some (with_ctx ctx (reply io ''error'' ''bad_request'' ''unknown-command''))
             | Some cmd \<Rightarrow> handle_command env io ctx cmd user_id))"

end
