(* ===== verification/Sha1.thy ===== *)
theory Sha1
  imports Prelude
begin

text \<open>
  SHA-1 as \<open>src/server/websocket.c\<close> computes it: a context with a 64-byte buffer that is filled
  byte by byte and compressed whenever it is full, and a final step that pads in place. The
  reference is the definition of the standard: the padded message cut into blocks, each block's
  message schedule given by its recurrence, and the round functions \<open>Ch\<close>, \<open>Parity\<close> and \<open>Maj\<close>.
  The theorems show that the two agree for every message, whatever the uninitialised buffer held.
\<close>

section \<open>The code\<close>

record sha1_ctx =
  s1_state :: "u32 list"
  s1_bitlen :: u64
  s1_data :: bytes
  s1_datalen :: nat

text \<open>The buffer is not initialised: it keeps what the memory of the local variable held.\<close>

definition sha1_init :: "sha1_ctx \<Rightarrow> sha1_ctx" where
  "sha1_init ctx = ctx\<lparr>s1_state := [0x67452301, 0xEFCDAB89, 0x98BADCFE, 0x10325476, 0xC3D2E1F0],
     s1_bitlen := 0, s1_datalen := 0\<rparr>"

definition leftrotate :: "u32 \<Rightarrow> nat \<Rightarrow> u32" where
  "leftrotate value bits = push_bit bits value OR drop_bit (32 - bits) value"

definition sha1_load :: "bytes \<Rightarrow> nat \<Rightarrow> u32" where
  "sha1_load data i = push_bit 24 (ucast (data ! (i * 4))) OR push_bit 16 (ucast (data ! (i * 4 + 1)))
     OR push_bit 8 (ucast (data ! (i * 4 + 2))) OR ucast (data ! (i * 4 + 3))"

definition sha1_extend :: "nat \<Rightarrow> u32 list \<Rightarrow> u32 list" where
  "sha1_extend i w = w @ [leftrotate (w ! (i - 3) XOR w ! (i - 8) XOR w ! (i - 14) XOR w ! (i - 16)) 1]"

definition sha1_schedule :: "bytes \<Rightarrow> u32 list" where
  "sha1_schedule data = fold sha1_extend [16 ..< 80] (map (sha1_load data) [0 ..< 16])"

fun sha1_round :: "u32 list \<Rightarrow> nat \<Rightarrow> u32 \<times> u32 \<times> u32 \<times> u32 \<times> u32 \<Rightarrow> u32 \<times> u32 \<times> u32 \<times> u32 \<times> u32" where
  "sha1_round w i (a, b, c, d, e) =
     (let (f, k) =
            (if i < 20 then ((b AND c) OR (NOT b AND d), 0x5A827999)
             else if i < 40 then (b XOR c XOR d, 0x6ED9EBA1)
             else if i < 60 then ((b AND c) OR (b AND d) OR (c AND d), 0x8F1BBCDC)
             else (b XOR c XOR d, 0xCA62C1D6));
          temp = leftrotate a 5 + f + e + k + w ! i
      in (temp, a, leftrotate b 30, c, d))"

definition sha1_transform :: "sha1_ctx \<Rightarrow> bytes \<Rightarrow> sha1_ctx" where
  "sha1_transform ctx data =
     (let w = sha1_schedule data; s = s1_state ctx;
          (a, b, c, d, e) = fold (sha1_round w) [0 ..< 80] (s ! 0, s ! 1, s ! 2, s ! 3, s ! 4)
      in ctx\<lparr>s1_state := [s ! 0 + a, s ! 1 + b, s ! 2 + c, s ! 3 + d, s ! 4 + e]\<rparr>)"

text \<open>\<open>ctx->data[ctx->datalen++] = b\<close>\<close>

definition sha1_push :: "u8 \<Rightarrow> sha1_ctx \<Rightarrow> sha1_ctx" where
  "sha1_push b ctx = ctx\<lparr>s1_data := (s1_data ctx)[s1_datalen ctx := b], s1_datalen := s1_datalen ctx + 1\<rparr>"

definition sha1_update_byte :: "u8 \<Rightarrow> sha1_ctx \<Rightarrow> sha1_ctx" where
  "sha1_update_byte b ctx =
     (let ctx = sha1_push b ctx
      in if s1_datalen ctx = 64 then
           let ctx = sha1_transform ctx (s1_data ctx)
           in ctx\<lparr>s1_bitlen := s1_bitlen ctx + 512, s1_datalen := 0\<rparr>
         else ctx)"

definition sha1_update :: "sha1_ctx \<Rightarrow> bytes \<Rightarrow> sha1_ctx" where
  "sha1_update ctx data = fold sha1_update_byte data ctx"

text \<open>\<open>while (ctx->datalen < n) ctx->data[ctx->datalen++] = 0x00;\<close>\<close>

function sha1_fill :: "nat \<Rightarrow> sha1_ctx \<Rightarrow> sha1_ctx" where
  "sha1_fill n ctx = (if s1_datalen ctx < n then sha1_fill n (sha1_push 0 ctx) else ctx)"
  by pat_completeness auto
termination
  by (relation "measure (\<lambda>(n, ctx). n - s1_datalen ctx)") (auto simp: sha1_push_def)

declare sha1_fill.simps [simp del]

definition sha1_final :: "sha1_ctx \<Rightarrow> bytes" where
  "sha1_final ctx =
     (let ctx = ctx\<lparr>s1_bitlen := s1_bitlen ctx + word_of_nat (s1_datalen ctx * 8)\<rparr>;
          ctx = sha1_push 0x80 ctx;
          ctx = (if 56 < s1_datalen ctx then
                   let ctx = sha1_fill 64 ctx
                   in (sha1_transform ctx (s1_data ctx))\<lparr>s1_datalen := 0\<rparr>
                 else ctx);
          ctx = sha1_fill 56 ctx;
          ctx = fold (\<lambda>i ctx. sha1_push (ucast (drop_bit (i * 8) (s1_bitlen ctx) AND 0xFF)) ctx)
                  (rev [0 ..< 8]) ctx;
          ctx = sha1_transform ctx (s1_data ctx)
      in concat (map (\<lambda>s. [ucast (drop_bit 24 s AND 0xFF), ucast (drop_bit 16 s AND 0xFF),
                           ucast (drop_bit 8 s AND 0xFF), ucast (s AND 0xFF)])
           (map (\<lambda>i. s1_state ctx ! i) [0 ..< 5])))"

text \<open>\<open>local\<close> is the memory of the local context before it is initialised.\<close>

definition sha1_compute :: "sha1_ctx \<Rightarrow> bytes \<Rightarrow> bytes" where
  "sha1_compute local data = sha1_final (sha1_update (sha1_init local) data)"

section \<open>The standard\<close>

fun sha1_w :: "u32 list \<Rightarrow> nat \<Rightarrow> u32" where
  "sha1_w m t = (if t < 16 then m ! t
     else word_rotl 1 (sha1_w m (t - 3) XOR sha1_w m (t - 8) XOR sha1_w m (t - 14) XOR sha1_w m (t - 16)))"

declare sha1_w.simps [simp del]

definition sha1_f :: "nat \<Rightarrow> u32 \<Rightarrow> u32 \<Rightarrow> u32 \<Rightarrow> u32" where
  "sha1_f t x y z =
     (if t < 20 then (x AND y) XOR (NOT x AND z)
      else if t < 40 then x XOR y XOR z
      else if t < 60 then (x AND y) XOR (x AND z) XOR (y AND z)
      else x XOR y XOR z)"

definition sha1_k :: "nat \<Rightarrow> u32" where
  "sha1_k t = (if t < 20 then 0x5A827999 else if t < 40 then 0x6ED9EBA1
     else if t < 60 then 0x8F1BBCDC else 0xCA62C1D6)"

definition sha1_step :: "u32 list \<Rightarrow> nat \<Rightarrow> u32 \<times> u32 \<times> u32 \<times> u32 \<times> u32 \<Rightarrow> u32 \<times> u32 \<times> u32 \<times> u32 \<times> u32" where
  "sha1_step m t v =
     (let (a, b, c, d, e) = v
      in (word_rotl 5 a + sha1_f t b c d + e + sha1_k t + sha1_w m t, a, word_rotl 30 b, c, d))"

text \<open>One block of 16 big-endian words, then the whole message.\<close>

definition block_words :: "bytes \<Rightarrow> u32 list" where
  "block_words b = map (\<lambda>i. load_bytes (rev (take 4 (drop (4 * i) b)))) [0 ..< 16]"

definition sha1_block :: "u32 list \<Rightarrow> bytes \<Rightarrow> u32 list" where
  "sha1_block h b =
     (let (a, b', c, d, e) = fold (sha1_step (block_words b)) [0 ..< 80] (h ! 0, h ! 1, h ! 2, h ! 3, h ! 4)
      in [h ! 0 + a, h ! 1 + b', h ! 2 + c, h ! 3 + d, h ! 4 + e])"

function sha1_absorb :: "u32 list \<Rightarrow> bytes \<Rightarrow> u32 list \<times> bytes" where
  "sha1_absorb h m = (if length m < 64 then (h, m) else sha1_absorb (sha1_block h (take 64 m)) (drop 64 m))"
  by pat_completeness auto
termination by (relation "measure (\<lambda>(h, m). length m)") auto

declare sha1_absorb.simps [simp del]

definition sha1_pad :: "bytes \<Rightarrow> bytes" where
  "sha1_pad m = m @ 0x80 # replicate ((119 - length m mod 64) mod 64) 0
     @ be_bytes 8 (word_of_nat (8 * length m) :: u64)"

definition sha1_initial :: "u32 list" where
  "sha1_initial = [0x67452301, 0xEFCDAB89, 0x98BADCFE, 0x10325476, 0xC3D2E1F0]"

definition SHA1 :: "bytes \<Rightarrow> bytes" where
  "SHA1 m = concat (map (be_bytes 4) (fst (sha1_absorb sha1_initial (sha1_pad m))))"

section \<open>One block\<close>

lemma leftrotate_rotl: "0 < n \<Longrightarrow> n < 32 \<Longrightarrow> leftrotate x n = word_rotl n x"
proof (rule bit_word_eqI)
  fix k assume n: "0 < n" "n < 32" and k: "k < LENGTH(32)"
  show "bit (leftrotate x n) k = bit (word_rotl n x) k"
  proof (cases "n \<le> k")
    case True
    have "(k + (32 - n)) mod 32 = k - n" using True n k by (simp add: mod_if)
    with True n k show ?thesis
      by (auto simp: leftrotate_def bit_simps bit_word_rotl_iff dest: bit_imp_le_length)
  next
    case False
    have "(k + (32 - n)) mod 32 = k + (32 - n)" using False n k by simp
    then have "bit (word_rotl n x) k = bit x (k + (32 - n))" using n k by (simp add: bit_word_rotl_iff)
    also have "\<dots> = bit (leftrotate x n) k"
      using False n k by (simp add: leftrotate_def bit_simps add.commute [of k])
    finally show ?thesis by simp
  qed
qed

lemma load_words:
  assumes "length data = 64" and "i < 16"
  shows "sha1_load data i = block_words data ! i"
proof -
  have "take 4 (drop (4 * i) data) = [data ! (i * 4), data ! (i * 4 + 1), data ! (i * 4 + 2), data ! (i * 4 + 3)]"
    using assms by (intro nth_equalityI) (auto simp: less_Suc_eq numeral_eq_Suc mult.commute)
  then show ?thesis
    using assms(2) by (simp add: block_words_def sha1_load_def push_bit_or or.assoc or.commute or.left_commute)
qed

lemma schedule_prefix:
  assumes "length data = 64" and "n \<le> 64"
  shows "length (fold sha1_extend [16 ..< 16 + n] (map (sha1_load data) [0 ..< 16])) = 16 + n \<and>
     (\<forall>t < 16 + n. fold sha1_extend [16 ..< 16 + n] (map (sha1_load data) [0 ..< 16]) ! t
        = sha1_w (block_words data) t)"
  using assms(2)
proof (induction n)
  case 0
  then show ?case using load_words [OF assms(1)] by (simp add: sha1_w.simps)
next
  case (Suc n)
  let ?w = "fold sha1_extend [16 ..< 16 + n] (map (sha1_load data) [0 ..< 16])"
  have IH: "length ?w = 16 + n" "\<And>t. t < 16 + n \<Longrightarrow> ?w ! t = sha1_w (block_words data) t"
    using Suc by auto
  have step: "fold sha1_extend [16 ..< 16 + Suc n] (map (sha1_load data) [0 ..< 16]) = sha1_extend (16 + n) ?w"
    unfolding add_Suc_right by (subst upt_Suc_append) simp_all
  have new: "sha1_extend (16 + n) ?w = ?w @ [sha1_w (block_words data) (16 + n)]"
    by (simp add: sha1_extend_def IH leftrotate_rotl sha1_w.simps [of _ "16 + n"])
  have app: "fold sha1_extend [16 ..< 16 + Suc n] (map (sha1_load data) [0 ..< 16]) =
      ?w @ [sha1_w (block_words data) (16 + n)]"
    unfolding step new ..
  show ?case
    unfolding app
  proof (intro conjI allI impI)
    show "length (?w @ [sha1_w (block_words data) (16 + n)]) = 16 + Suc n" using IH(1) by simp
    fix t assume "t < 16 + Suc n"
    then consider "t < 16 + n" | "t = 16 + n" by linarith
    then show "(?w @ [sha1_w (block_words data) (16 + n)]) ! t = sha1_w (block_words data) t"
      using IH by cases (simp_all add: nth_append)
  qed
qed

lemma schedule_w:
  "length data = 64 \<Longrightarrow> t < 80 \<Longrightarrow> sha1_schedule data ! t = sha1_w (block_words data) t"
  using schedule_prefix [of data 64] by (simp add: sha1_schedule_def)

lemma choose_eq: "(b AND c) OR (NOT b AND d) = (b AND c) XOR (NOT b AND d :: u32)"
  by (rule bit_word_eqI) (auto simp: bit_simps)

lemma majority_eq: "(b AND c) OR (b AND d) OR (c AND d) = (b AND c) XOR (b AND d) XOR (c AND d :: u32)"
  by (rule bit_word_eqI) (auto simp: bit_simps)

lemma round_step:
  assumes "length data = 64" and "t < 80"
  shows "sha1_round (sha1_schedule data) t v = sha1_step (block_words data) t v"
proof -
  obtain a b c d e where v: "v = (a, b, c, d, e)" by (metis prod_cases5)
  show ?thesis
    unfolding v sha1_round.simps sha1_step_def
    by (simp add: Let_def sha1_f_def sha1_k_def schedule_w [OF assms] leftrotate_rotl
        choose_eq majority_eq)
qed

lemma fold_cong_in: "(\<And>x v. x \<in> set xs \<Longrightarrow> f x v = g x v) \<Longrightarrow> fold f xs v = fold g xs v"
  by (induction xs arbitrary: v) simp_all

lemma transform_block:
  assumes "length data = 64"
  shows "sha1_transform ctx data = ctx\<lparr>s1_state := sha1_block (s1_state ctx) data\<rparr>"
proof -
  have "fold (sha1_round (sha1_schedule data)) [0 ..< 80] v = fold (sha1_step (block_words data)) [0 ..< 80] v" for v
    by (rule fold_cong_in) (simp add: round_step [OF assms])
  then show ?thesis
    by (simp add: sha1_transform_def sha1_block_def Let_def split: prod.splits)
qed

section \<open>The buffer\<close>

text \<open>The context stands for a chaining value and the bytes that wait for a full block.\<close>

definition sha1_holds :: "sha1_ctx \<Rightarrow> u32 list \<times> bytes \<Rightarrow> bool" where
  "sha1_holds ctx hr \<longleftrightarrow> s1_state ctx = fst hr \<and> length (s1_data ctx) = 64 \<and>
     s1_datalen ctx = length (snd hr) \<and> length (snd hr) < 64 \<and> take (length (snd hr)) (s1_data ctx) = snd hr"

lemma absorb_short: "length m < 64 \<Longrightarrow> sha1_absorb h m = (h, m)"
  by (simp add: sha1_absorb.simps)

lemma absorb_block: "length b = 64 \<Longrightarrow> sha1_absorb h (b @ m) = sha1_absorb (sha1_block h b) m"
  by (subst sha1_absorb.simps) simp

lemma absorb_append:
  "sha1_absorb h (m @ t) = (let (h', r) = sha1_absorb h m in sha1_absorb h' (r @ t))"
proof (induction h m rule: sha1_absorb.induct)
  case (1 h m)
  show ?case
  proof (cases "length m < 64")
    case True
    then show ?thesis by (simp add: absorb_short)
  next
    case False
    then have m: "m = take 64 m @ drop 64 m" "length (take 64 m) = 64" by simp_all
    have "sha1_absorb h (m @ t) = sha1_absorb (sha1_block h (take 64 m)) (drop 64 m @ t)"
      by (subst m(1), subst append_assoc, rule absorb_block [OF m(2)])
    moreover have "sha1_absorb h m = sha1_absorb (sha1_block h (take 64 m)) (drop 64 m)"
      by (subst m(1), rule absorb_block [OF m(2)])
    ultimately show ?thesis using "1.IH" False by simp
  qed
qed

lemma absorb_rest: "sha1_absorb h m = (h', r) \<Longrightarrow> length r = length m mod 64"
proof (induction h m rule: sha1_absorb.induct)
  case (1 h m)
  then show ?case
    by (cases "length m < 64")
      (auto simp: absorb_short sha1_absorb.simps [of h m] le_mod_geq)
qed

lemma push_holds:
  assumes "sha1_holds ctx (h, r)"
  shows "s1_state (sha1_push b ctx) = h" and "length (s1_data (sha1_push b ctx)) = 64"
    and "s1_datalen (sha1_push b ctx) = Suc (length r)" and "s1_bitlen (sha1_push b ctx) = s1_bitlen ctx"
    and "take (Suc (length r)) (s1_data (sha1_push b ctx)) = r @ [b]"
  using assms
  by (auto simp: sha1_holds_def sha1_push_def take_Suc_conv_app_nth)

lemma push_more: "sha1_holds ctx (h, r) \<Longrightarrow> Suc (length r) < 64 \<Longrightarrow> sha1_holds (sha1_push b ctx) (h, r @ [b])"
  using push_holds [of ctx h r b] by (simp add: sha1_holds_def)

lemma update_byte_holds:
  assumes "sha1_holds ctx (h, r)"
  shows "sha1_holds (sha1_update_byte b ctx) (sha1_absorb h (r @ [b]))"
    and "s1_bitlen (sha1_update_byte b ctx) = s1_bitlen ctx + (if Suc (length r) = 64 then 512 else 0)"
proof -
  note P = push_holds [OF assms, of b]
  have both: "sha1_holds (sha1_update_byte b ctx) (sha1_absorb h (r @ [b])) \<and>
      s1_bitlen (sha1_update_byte b ctx) = s1_bitlen ctx + (if Suc (length r) = 64 then 512 else 0)"
  proof (cases "Suc (length r) = 64")
    case True
    then have data: "s1_data (sha1_push b ctx) = r @ [b]" using P by simp
    have "sha1_absorb h ((r @ [b]) @ []) = sha1_absorb (sha1_block h (r @ [b])) []"
      using True by (intro absorb_block) simp
    then have ab: "sha1_absorb h (r @ [b]) = (sha1_block h (r @ [b]), [])" by (simp add: absorb_short)
    have "length (s1_data (sha1_push b ctx)) = 64" by (rule P(2))
    from transform_block [OF this] True P ab data show ?thesis
      by (simp add: sha1_update_byte_def Let_def sha1_holds_def)
  next
    case False
    then have "sha1_absorb h (r @ [b]) = (h, r @ [b])"
      using assms by (intro absorb_short) (simp add: sha1_holds_def)
    with False P push_more [OF assms, of b] assms show ?thesis
      by (simp add: sha1_update_byte_def Let_def sha1_holds_def)
  qed
  then show "sha1_holds (sha1_update_byte b ctx) (sha1_absorb h (r @ [b]))"
    and "s1_bitlen (sha1_update_byte b ctx) = s1_bitlen ctx + (if Suc (length r) = 64 then 512 else 0)"
    by simp_all
qed

lemma update_holds:
  assumes "sha1_holds ctx (h, [])"
  shows "sha1_holds (sha1_update ctx m) (sha1_absorb h m) \<and>
     s1_bitlen (sha1_update ctx m) = s1_bitlen ctx + word_of_nat (512 * (length m div 64))"
proof (induction m rule: rev_induct)
  case Nil
  then show ?case using assms by (simp add: sha1_update_def absorb_short)
next
  case (snoc b m)
  obtain h' r where ab: "sha1_absorb h m = (h', r)" by fastforce
  have holds: "sha1_holds (sha1_update ctx m) (h', r)" using snoc ab by simp
  have r: "length r = length m mod 64" by (rule absorb_rest [OF ab])
  have ab': "sha1_absorb h (m @ [b]) = sha1_absorb h' (r @ [b])" by (simp add: absorb_append [of h m] ab)
  have step: "sha1_update ctx (m @ [b]) = sha1_update_byte b (sha1_update ctx m)"
    by (simp add: sha1_update_def)
  have "length (m @ [b]) div 64 = length m div 64 + (if Suc (length r) = 64 then 1 else 0)"
    unfolding r by (simp add: div_Suc mod_Suc)
  then have n: "512 * (length (m @ [b]) div 64) = 512 * (length m div 64) + (if Suc (length r) = 64 then 512 else 0)"
    by (simp del: length_append)
  have "s1_bitlen (sha1_update ctx (m @ [b])) = s1_bitlen ctx + word_of_nat (512 * (length m div 64))
      + (if Suc (length r) = 64 then 512 else 0)"
    unfolding step update_byte_holds(2) [OF holds] using snoc by simp
  then have "s1_bitlen (sha1_update ctx (m @ [b])) = s1_bitlen ctx + word_of_nat (512 * (length (m @ [b]) div 64))"
    unfolding n of_nat_add by (cases "Suc (length r) = 64") (simp_all add: add.assoc)
  with update_byte_holds(1) [OF holds, of b] show ?case unfolding step ab' by simp
qed

section \<open>Padding\<close>

lemma fill_holds:
  "s1_datalen ctx \<le> n \<Longrightarrow> n \<le> 64 \<Longrightarrow> length (s1_data ctx) = 64 \<Longrightarrow>
     sha1_fill n ctx = ctx\<lparr>s1_data := take (s1_datalen ctx) (s1_data ctx) @ replicate (n - s1_datalen ctx) 0
        @ drop n (s1_data ctx), s1_datalen := n\<rparr>"
proof (induction n ctx rule: sha1_fill.induct)
  case (1 n ctx)
  show ?case
  proof (cases "s1_datalen ctx < n")
    case False
    then have "s1_datalen ctx = n" using "1.prems" by simp
    then show ?thesis by (cases ctx) (simp add: sha1_fill.simps)
  next
    case True
    let ?c = "sha1_push 0 ctx" and ?k = "s1_datalen ctx"
    have c: "s1_datalen ?c = Suc ?k" "s1_data ?c = (s1_data ctx)[?k := 0]" by (simp_all add: sha1_push_def)
    have "sha1_fill n ctx = sha1_fill n ?c" using True by (simp add: sha1_fill.simps [of n ctx])
    also have "\<dots> = ?c\<lparr>s1_data := take (Suc ?k) ((s1_data ctx)[?k := 0]) @ replicate (n - Suc ?k) 0
        @ drop n ((s1_data ctx)[?k := 0]), s1_datalen := n\<rparr>"
      using "1.IH" [OF True] "1.prems" True c by simp
    also have "take (Suc ?k) ((s1_data ctx)[?k := 0]) = take ?k (s1_data ctx) @ [0]"
      using "1.prems" True by (simp add: take_Suc_conv_app_nth)
    also have "drop n ((s1_data ctx)[?k := 0]) = drop n (s1_data ctx)" using True by simp
    also have "(take ?k (s1_data ctx) @ [0]) @ replicate (n - Suc ?k) 0 @ drop n (s1_data ctx) =
        take ?k (s1_data ctx) @ replicate (n - ?k) 0 @ drop n (s1_data ctx)"
    proof -
      have "n - ?k = Suc (n - Suc ?k)" using True by simp
      then show ?thesis by simp
    qed
    finally show ?thesis by (simp add: sha1_push_def)
  qed
qed

lemma low_byte64: "(ucast (x AND 0xFF) :: u8) = ucast (x :: 'a::len word)" if "8 \<le> LENGTH('a)"
proof -
  have m: "(0xFF :: 'a word) = mask 8" by (simp add: mask_eq_exp_minus_1)
  show ?thesis unfolding m by (rule bit_word_eqI) (use that in \<open>auto simp: bit_simps\<close>)
qed

text \<open>The eight bytes of the bit count, pushed most significant first.\<close>

lemma push_many:
  "s1_datalen ctx + length bs \<le> 64 \<Longrightarrow> length (s1_data ctx) = 64 \<Longrightarrow>
     fold sha1_push bs ctx = ctx\<lparr>s1_data := take (s1_datalen ctx) (s1_data ctx) @ bs
        @ drop (s1_datalen ctx + length bs) (s1_data ctx), s1_datalen := s1_datalen ctx + length bs\<rparr>"
proof (induction bs arbitrary: ctx)
  case Nil
  then show ?case by (cases ctx) simp
next
  case (Cons b bs)
  let ?k = "s1_datalen ctx"
  have "take (Suc ?k) ((s1_data ctx)[?k := b]) = take ?k (s1_data ctx) @ [b]"
    using Cons.prems by (simp add: take_Suc_conv_app_nth)
  with Cons.IH [of "sha1_push b ctx"] Cons.prems show ?case by (simp add: sha1_push_def)
qed

lemma push_count:
  "fold (\<lambda>i ctx. sha1_push (ucast (drop_bit (i * 8) (s1_bitlen ctx) AND 0xFF)) ctx) is ctx =
     fold sha1_push (map (\<lambda>i. ucast (drop_bit (i * 8) (s1_bitlen ctx))) is) ctx"
proof (induction "is" arbitrary: ctx)
  case (Cons i "is")
  have "s1_bitlen (sha1_push b ctx) = s1_bitlen ctx" for b by (simp add: sha1_push_def)
  with Cons show ?case by (simp add: low_byte64)
qed simp

lemma count_bytes: "map (\<lambda>i. ucast (drop_bit (i * 8) n)) (rev [0 ..< 8]) = be_bytes 8 (n :: u64)"
  by (simp add: be_bytes_def mem_bytes_def rev_map mult.commute)

lemma word_bytes:
  "[ucast (drop_bit 24 s AND 0xFF), ucast (drop_bit 16 s AND 0xFF), ucast (drop_bit 8 s AND 0xFF),
     ucast (s AND 0xFF)] = be_bytes 4 (s :: u32)"
  by (simp add: low_byte64 be_bytes_def mem_bytes_def upt_rec)

lemma length_block: "length (sha1_block h b) = 5"
  by (simp add: sha1_block_def Let_def split: prod.split)

lemma block_words_out:
  "length s = 5 \<Longrightarrow> concat (map (\<lambda>s. [ucast (drop_bit 24 s AND 0xFF), ucast (drop_bit 16 s AND 0xFF),
      ucast (drop_bit 8 s AND 0xFF), ucast (s AND 0xFF)]) (map (\<lambda>i. s ! i) [0 ..< 5])) =
    concat (map (be_bytes 4) (s :: u32 list))"
  unfolding word_bytes by (metis map_nth)

text \<open>From a buffer position of at most 56: zeros, the bit count, the last block.\<close>

definition sha1_finish :: "sha1_ctx \<Rightarrow> sha1_ctx" where
  "sha1_finish ctx =
     (let ctx = fold (\<lambda>i ctx. sha1_push (ucast (drop_bit (i * 8) (s1_bitlen ctx) AND 0xFF)) ctx)
                  (rev [0 ..< 8]) (sha1_fill 56 ctx)
      in sha1_transform ctx (s1_data ctx))"

lemma finish_state:
  assumes "s1_datalen ctx \<le> 56" and "length (s1_data ctx) = 64"
  shows "s1_state (sha1_finish ctx) = sha1_block (s1_state ctx) (take (s1_datalen ctx) (s1_data ctx)
     @ replicate (56 - s1_datalen ctx) 0 @ be_bytes 8 (s1_bitlen ctx))"
proof -
  let ?c = "sha1_fill 56 ctx"
  have c: "?c = ctx\<lparr>s1_data := take (s1_datalen ctx) (s1_data ctx) @ replicate (56 - s1_datalen ctx) 0
        @ drop 56 (s1_data ctx), s1_datalen := 56\<rparr>"
    using assms by (intro fill_holds) simp_all
  then have len: "length (s1_data ?c) = 64" "s1_datalen ?c = 56" "s1_bitlen ?c = s1_bitlen ctx"
    using assms by (simp_all add: min_def)
  have t: "take 56 (s1_data ?c) = take (s1_datalen ctx) (s1_data ctx) @ replicate (56 - s1_datalen ctx) 0"
    using assms by (simp add: c min_def)
  have "fold sha1_push (be_bytes 8 (s1_bitlen ctx)) ?c = ?c\<lparr>s1_data := take 56 (s1_data ?c) @
      be_bytes 8 (s1_bitlen ctx), s1_datalen := 64\<rparr>"
    using push_many [of ?c "be_bytes 8 (s1_bitlen ctx)"] len by simp
  then have "fold (\<lambda>i ctx. sha1_push (ucast (drop_bit (i * 8) (s1_bitlen ctx) AND 0xFF)) ctx)
      (rev [0 ..< 8]) ?c = ?c\<lparr>s1_data := take 56 (s1_data ?c) @ be_bytes 8 (s1_bitlen ctx), s1_datalen := 64\<rparr>"
    unfolding push_count count_bytes len(3) .
  moreover have "length (take 56 (s1_data ?c) @ be_bytes 8 (s1_bitlen ctx)) = 64" using len by simp
  ultimately show ?thesis
    unfolding sha1_finish_def Let_def
    by (simp add: transform_block t) (simp add: c)
qed

text \<open>The final step on a context with \<open>r\<close> waiting: one or two more blocks.\<close>

lemma final_blocks:
  assumes "sha1_holds ctx (h, r)" and "n = s1_bitlen ctx + word_of_nat (length r * 8)"
  shows "sha1_final ctx = concat (map (be_bytes 4) (fst (sha1_absorb h (r @ 0x80 #
     replicate ((119 - length r) mod 64) 0 @ be_bytes 8 n))))"
proof -
  define c1 where "c1 = ctx\<lparr>s1_bitlen := n\<rparr>"
  define c2 where "c2 = sha1_push 0x80 c1"
  define c3 where "c3 = (if 56 < s1_datalen c2 then
      (sha1_transform (sha1_fill 64 c2) (s1_data (sha1_fill 64 c2)))\<lparr>s1_datalen := 0\<rparr> else c2)"
  have r: "length r < 64" "s1_datalen ctx = length r" using assms(1) by (simp_all add: sha1_holds_def)
  have h1: "sha1_holds c1 (h, r)" using assms(1) by (simp add: sha1_holds_def c1_def)
  note P = push_holds [OF h1, of "0x80", folded c2_def]
  have n2: "s1_bitlen c2 = n" using P(4) by (simp add: c1_def)
  have "sha1_final ctx = concat (map (\<lambda>s. [ucast (drop_bit 24 s AND 0xFF), ucast (drop_bit 16 s AND 0xFF),
      ucast (drop_bit 8 s AND 0xFF), ucast (s AND 0xFF)])
      (map (\<lambda>i. s1_state (sha1_finish c3) ! i) [0 ..< 5]))"
    by (simp only: sha1_final_def Let_def sha1_finish_def c1_def c2_def c3_def assms(2) r(2))
  then have fin: "sha1_final ctx = concat (map (be_bytes 4) (s1_state (sha1_finish c3)))"
    if "length (s1_state (sha1_finish c3)) = 5"
    using block_words_out [OF that] by (simp only:)
  show ?thesis
  proof (cases "length r < 56")
    case True
    have "c3 = c2" using True P(3) by (simp add: c3_def)
    then have st: "s1_state (sha1_finish c3) = sha1_block h (r @ 0x80 # replicate (55 - length r) 0 @ be_bytes 8 n)"
      using finish_state [of c2] P n2 True by simp
    have k: "(119 - length r) mod 64 = 55 - length r" using True by (simp add: mod_if)
    have "length (r @ 0x80 # replicate (55 - length r) 0 @ be_bytes 8 n) = 64" using True by simp
    from absorb_block [OF this, of h "[]"]
    have "fst (sha1_absorb h (r @ 0x80 # replicate (55 - length r) 0 @ be_bytes 8 n)) =
        sha1_block h (r @ 0x80 # replicate (55 - length r) 0 @ be_bytes 8 n)"
      by (simp add: absorb_short)
    with fin st show ?thesis by (simp add: length_block k)
  next
    case False
    let ?b = "r @ 0x80 # replicate (63 - length r) 0"
    have "sha1_fill 64 c2 = c2\<lparr>s1_data := take (s1_datalen c2) (s1_data c2) @ replicate (64 - s1_datalen c2) 0
        @ drop 64 (s1_data c2), s1_datalen := 64\<rparr>"
      using P r by (intro fill_holds) simp_all
    then have full: "sha1_fill 64 c2 = c2\<lparr>s1_data := ?b, s1_datalen := 64\<rparr>" using P by simp
    have lb: "length ?b = 64" using r by simp
    have c3: "c3 = c2\<lparr>s1_data := ?b, s1_datalen := 0, s1_state := sha1_block h ?b\<rparr>"
      using False P(1,3) transform_block [OF lb, of "sha1_fill 64 c2"] by (simp add: c3_def full)
    then have st: "s1_state (sha1_finish c3) = sha1_block (sha1_block h ?b) (replicate 56 0 @ be_bytes 8 n)"
      using finish_state [of c3] lb n2 by simp
    have k: "(119 - length r) mod 64 = (63 - length r) + 56" using False r by simp
    have msg: "r @ 0x80 # replicate ((119 - length r) mod 64) 0 @ be_bytes 8 n =
        ?b @ (replicate 56 0 @ be_bytes 8 n) @ []"
      unfolding k replicate_add by simp
    have "length (replicate 56 (0 :: u8) @ be_bytes 8 n) = 64" by simp
    from absorb_block [OF lb] absorb_block [OF this, of _ "[]"]
    have "fst (sha1_absorb h (r @ 0x80 # replicate ((119 - length r) mod 64) 0 @ be_bytes 8 n)) =
        sha1_block (sha1_block h ?b) (replicate 56 0 @ be_bytes 8 n)"
      unfolding msg by (simp add: absorb_short)
    with fin st show ?thesis by (simp add: length_block)
  qed
qed

text \<open>The streaming implementation, from any context.\<close>

lemma sha1_standard_lemma:
  assumes "length (s1_data local) = 64"
  shows "sha1_compute local m = SHA1 m \<and> length (sha1_compute local m) = 20"
proof -
  have init: "sha1_holds (sha1_init local) (sha1_initial, [])"
    using assms by (simp add: sha1_holds_def sha1_init_def sha1_initial_def)
  obtain h r where ab: "sha1_absorb sha1_initial m = (h, r)" by fastforce
  let ?ctx = "sha1_update (sha1_init local) m"
  have upd: "sha1_holds ?ctx (h, r)" "s1_bitlen ?ctx = word_of_nat (512 * (length m div 64))"
    using update_holds [OF init, of m] by (simp_all add: ab sha1_init_def)
  have r: "length r = length m mod 64" by (rule absorb_rest [OF ab])
  have "512 * (length m div 64) + length r * 8 = 8 * length m"
    unfolding r using div_mult_mod_eq [of "length m" 64] by linarith
  then have n: "word_of_nat (8 * length m) = s1_bitlen ?ctx + word_of_nat (length r * 8)"
    unfolding upd(2) by (metis of_nat_add)
  have "sha1_absorb sha1_initial (sha1_pad m) = sha1_absorb h (r @ 0x80 # replicate ((119 - length r) mod 64) 0
      @ be_bytes 8 (word_of_nat (8 * length m) :: u64))"
    unfolding sha1_pad_def r [symmetric] absorb_append [of sha1_initial m] ab by simp
  then have eq: "sha1_compute local m = SHA1 m"
    unfolding sha1_compute_def SHA1_def final_blocks [OF upd(1) n] by simp
  have "length (fst (sha1_absorb h' b)) = 5" if "length h' = 5" for h' b
    using that by (induction h' b rule: sha1_absorb.induct) (simp add: sha1_absorb.simps length_block)
  then have "length (fst (sha1_absorb sha1_initial b)) = 5" for b by (simp add: sha1_initial_def)
  then have "length (SHA1 m) = 20"
    by (simp add: SHA1_def length_concat comp_def sum_list_triv)
  with eq show ?thesis by simp
qed

section \<open>Properties\<close>

text \<open>
  C16: The streaming implementation computes the SHA-1 of the standard for every message, of any
  length, whatever the uninitialised context held (its buffer being 64 bytes).
\<close>

theorem sha1_standard:
  assumes "length (s1_data local) = 64"
  shows "sha1_compute local m = SHA1 m \<and> length (sha1_compute local m) = 20"
  by (rule sha1_standard_lemma [OF assms])

theorem sha1_standard_witness:
  "sha1_compute \<lparr>s1_state = [], s1_bitlen = 0, s1_data = replicate 64 0xAA, s1_datalen = 7\<rparr> [97, 98, 99] =
     SHA1 [97, 98, 99]"
  by (rule sha1_standard [THEN conjunct1]) simp

end
