(* ===== verification/Http_Request.thy ===== *)
theory Http_Request
  imports C_String
begin

text \<open>
  The request reader of \<open>src/server/http.c\<close>: \<open>http_parse_request\<close> and \<open>http_get_header\<close>. A fixed
  \<open>char\<close> array of a request holds a C string; the headers in use are a list, whose length is
  \<open>header_count\<close>. The printer \<open>request_text\<close> is the reference: the reader inverts it, and what the
  reader accepts is what the printer can print.
\<close>

section \<open>The request\<close>

definition HTTP_MAX_METHOD :: nat where "HTTP_MAX_METHOD = 8"
definition HTTP_MAX_PATH :: nat where "HTTP_MAX_PATH = 128"
definition HTTP_MAX_VERSION :: nat where "HTTP_MAX_VERSION = 16"
definition HTTP_MAX_HEADERS :: nat where "HTTP_MAX_HEADERS = 32"
definition HTTP_MAX_HEADER_KEY :: nat where "HTTP_MAX_HEADER_KEY = 64"
definition HTTP_MAX_HEADER_VAL :: nat where "HTTP_MAX_HEADER_VAL = 256"

record http_header =
  hd_name :: bytes
  hd_value :: bytes

record http_request =
  rq_method :: bytes
  rq_path :: bytes
  rq_version :: bytes
  rq_headers :: "http_header list"

section \<open>Reading\<close>

text \<open>The test of the search loop: the four bytes that end at index \<open>i\<close> are CR LF CR LF.\<close>

definition crlf_crlf :: bytes where "crlf_crlf = [13, 10, 13, 10]"

definition blank_line_at :: "bytes \<Rightarrow> nat \<Rightarrow> bool" where
  "blank_line_at raw i \<longleftrightarrow>
     raw ! (i - 3) = 13 \<and> raw ! (i - 2) = 10 \<and> raw ! (i - 1) = 13 \<and> raw ! i = 10"

text \<open>\<open>separator\<close>: the index where the first blank line starts.\<close>

definition find_separator :: "bytes \<Rightarrow> nat option" where
  "find_separator raw = map_option (\<lambda>i. i - 3) (find (blank_line_at raw) [3..<length raw])"

definition trim_leading :: "bytes \<Rightarrow> bytes" where
  "trim_leading str = dropWhile (\<lambda>b. b = 32 \<or> b = 9) str"

text \<open>\<open>sscanf (line, "%7s %127s %15s", ...)\<close>, \<open>None\<close> when it does not convert three words.\<close>

definition scan_request_line :: "bytes \<Rightarrow> (bytes \<times> bytes \<times> bytes) option" where
  "scan_request_line line =
     (case scan_word 7 line of
        None \<Rightarrow> None
      | Some (m, r) \<Rightarrow>
          (case scan_word 127 r of
             None \<Rightarrow> None
           | Some (p, r') \<Rightarrow>
               (case scan_word 15 r' of None \<Rightarrow> None | Some (v, r'') \<Rightarrow> Some (m, p, v))))"

text \<open>One header line: the name up to the first colon, in lower case, and the value after it.\<close>

definition header_of :: "bytes \<Rightarrow> bytes \<Rightarrow> http_header" where
  "header_of line colon =
     (let key = takeWhile (\<lambda>b. b \<noteq> 58) line; val = trim_leading (tl colon)
      in \<lparr>hd_name = map tolower (take (HTTP_MAX_HEADER_KEY - 1) key),
          hd_value = take (HTTP_MAX_HEADER_VAL - 1) val\<rparr>)"

fun header_loop :: "bytes list \<Rightarrow> http_header list \<Rightarrow> http_header list" where
  "header_loop [] hs = hs"
| "header_loop (line # lines) hs =
     (if length hs < HTTP_MAX_HEADERS then
        if line = [] then header_loop lines hs
        else
          (case strchr line 58 of
             None \<Rightarrow> header_loop lines hs
           | Some colon \<Rightarrow> header_loop lines (hs @ [header_of line colon]))
      else hs)"

text \<open>
  \<open>raw = None\<close> is a null pointer and \<open>mem\<close> is what \<open>malloc\<close> does; the result is \<open>None\<close> for \<open>-1\<close>
  and the filled request for \<open>0\<close>.
\<close>

definition http_parse_request :: "bool \<Rightarrow> bytes option \<Rightarrow> http_request option" where
  "http_parse_request mem raw_ptr =
     (case raw_ptr of
        None \<Rightarrow> None
      | Some raw \<Rightarrow>
          if length raw = 0 then None
          else
            (case find_separator raw of
               None \<Rightarrow> None
             | Some header_len \<Rightarrow>
                 if \<not> mem then None
                 else
                   (case strtok 10 (c_string (filter (\<lambda>b. b \<noteq> 13) (take header_len raw))) of
                      [] \<Rightarrow> None
                    | line # lines \<Rightarrow>
                        (case scan_request_line line of
                           None \<Rightarrow> None
                         | Some (m, p, v) \<Rightarrow>
                             Some \<lparr>rq_method = m, rq_path = p, rq_version = v,
                                   rq_headers = header_loop lines []\<rparr>))))"

definition http_get_header :: "http_request \<Rightarrow> bytes \<Rightarrow> bytes option" where
  "http_get_header req name =
     map_option hd_value (find (\<lambda>h. strcaseeq (hd_name h) name) (rq_headers req))"

section \<open>The printer\<close>

definition header_text :: "http_header \<Rightarrow> bytes" where
  "header_text h = hd_name h @ [58, 32] @ hd_value h"

definition request_lines :: "http_request \<Rightarrow> bytes list" where
  "request_lines r =
     (rq_method r @ [32] @ rq_path r @ [32] @ rq_version r) # map header_text (rq_headers r)"

definition request_text :: "http_request \<Rightarrow> bytes" where
  "request_text r = concat (map (\<lambda>l. l @ [13, 10]) (request_lines r)) @ [13, 10]"

text \<open>What fits into the fixed arrays and has one reading.\<close>

definition word_ok :: "nat \<Rightarrow> bytes \<Rightarrow> bool" where
  "word_ok n w \<longleftrightarrow> w \<noteq> [] \<and> length w < n \<and> list_all (\<lambda>b. \<not> isspace b \<and> b \<noteq> 0) w"

definition field_ok :: "nat \<Rightarrow> bytes \<Rightarrow> bool" where
  "field_ok n s \<longleftrightarrow> length s < n \<and> list_all (\<lambda>b. b \<noteq> 0 \<and> b \<noteq> 10 \<and> b \<noteq> 13) s"

definition header_ok :: "http_header \<Rightarrow> bool" where
  "header_ok h \<longleftrightarrow>
     field_ok HTTP_MAX_HEADER_KEY (hd_name h) \<and> 58 \<notin> set (hd_name h) \<and>
     map tolower (hd_name h) = hd_name h \<and>
     field_ok HTTP_MAX_HEADER_VAL (hd_value h) \<and> trim_leading (hd_value h) = hd_value h"

definition request_ok :: "http_request \<Rightarrow> bool" where
  "request_ok r \<longleftrightarrow>
     word_ok HTTP_MAX_METHOD (rq_method r) \<and> word_ok HTTP_MAX_PATH (rq_path r) \<and>
     word_ok HTTP_MAX_VERSION (rq_version r) \<and>
     length (rq_headers r) \<le> HTTP_MAX_HEADERS \<and> list_all header_ok (rq_headers r)"

section \<open>The separator\<close>

lemma blank_line_iff:
  assumes "k + 3 < length raw"
  shows "blank_line_at raw (k + 3) \<longleftrightarrow> take 4 (drop k raw) = crlf_crlf"
proof -
  have "take 4 (drop k raw) = [raw ! k, raw ! (k + 1), raw ! (k + 2), raw ! (k + 3)]"
    using assms by (intro nth_equalityI) (auto simp: less_Suc_eq numeral_eq_Suc)
  then show ?thesis by (simp add: blank_line_at_def crlf_crlf_def)
qed

lemma find_separator_Some:
  "find_separator raw = Some k \<longleftrightarrow>
     k \<le> length raw \<and> take 4 (drop k raw) = crlf_crlf \<and> (\<forall>j < k. take 4 (drop j raw) \<noteq> crlf_crlf)"
  (is "_ \<longleftrightarrow> ?R")
proof
  assume "find_separator raw = Some k"
  then obtain i where i: "find (blank_line_at raw) [3..<length raw] = Some i" and k: "k = i - 3"
    by (auto simp: find_separator_def)
  from i have f: "3 \<le> i" "i < length raw" "blank_line_at raw i"
    "\<And>j. 3 \<le> j \<Longrightarrow> j < i \<Longrightarrow> \<not> blank_line_at raw j"
    by (simp_all add: find_upt_Some)
  have "take 4 (drop j raw) \<noteq> crlf_crlf" if "j < k" for j
    using f(4) [of "j + 3"] that k f(2) by (simp add: blank_line_iff)
  moreover have "take 4 (drop k raw) = crlf_crlf"
    using f(1-3) k blank_line_iff [of k raw] by simp
  ultimately show ?R using f(1,2) k by simp
next
  assume r: ?R
  then have "length (take 4 (drop k raw)) = 4" by (simp add: crlf_crlf_def)
  then have len: "k + 3 < length raw" by simp
  have "find (blank_line_at raw) [3..<length raw] = Some (k + 3)"
    unfolding find_upt_Some
  proof (intro conjI allI impI)
    show "blank_line_at raw (k + 3)" using r len by (simp add: blank_line_iff)
    fix j assume j: "3 \<le> j \<and> j < k + 3"
    then have "take 4 (drop (j - 3) raw) \<noteq> crlf_crlf" using r by auto
    then show "\<not> blank_line_at raw j" using j len blank_line_iff [of "j - 3" raw] by simp
  qed (use len in auto)
  then show "find_separator raw = Some k" by (simp add: find_separator_def)
qed

lemma find_separator_strstr:
  assumes "strstr raw crlf_crlf = Some r"
  shows "find_separator raw = Some (length raw - length r)"
proof -
  have "length crlf_crlf = 4" by (simp add: crlf_crlf_def)
  with assms show ?thesis by (auto simp: strstr_Some find_separator_Some)
qed

definition line_ok :: "bytes \<Rightarrow> bool" where
  "line_ok l \<longleftrightarrow> l \<noteq> [] \<and> 0 \<notin> set l \<and> 10 \<notin> set l \<and> 13 \<notin> set l"

lemma strstr_head:
  assumes "list_all line_ok ls" and "ls \<noteq> []"
  shows "strstr (join_lines [13, 10] ls @ crlf_crlf @ body) crlf_crlf = Some (crlf_crlf @ body)"
  using assms
proof (induction "[13 :: u8, 10]" ls rule: join_lines.induct)
  case (2 l)
  then show ?case
    by (simp add: line_ok_def crlf_crlf_def strstr_skip strstr_found [of "[13, 10, 13, 10]", simplified])
next
  case (3 l l' ls)
  let ?rest = "join_lines [13, 10] (l' # ls) @ crlf_crlf @ body"
  obtain c t where c: "?rest = c # t" "c \<noteq> 13"
    using 3(2) by (cases l'; cases ls) (auto simp: line_ok_def)
  have "strstr (13 # 10 # ?rest) crlf_crlf = strstr ?rest crlf_crlf"
  proof -
    have "strstr (13 # 10 # c # t) crlf_crlf = strstr (10 # c # t) crlf_crlf"
      using c(2) by (subst strstr.simps) (simp add: crlf_crlf_def)
    also have "\<dots> = strstr (c # t) crlf_crlf" by (subst strstr.simps) (simp add: crlf_crlf_def)
    finally show ?thesis by (simp only: c(1))
  qed
  with 3 show ?case by (simp add: line_ok_def crlf_crlf_def strstr_skip)
qed simp

text \<open>What the reader sees of a message whose head is these lines, whatever follows.\<close>

lemma head_lines:
  assumes "list_all line_ok ls" and "ls \<noteq> []"
    and "raw = concat (map (\<lambda>l. l @ [13, 10]) ls) @ [13, 10] @ body"
  obtains k where "find_separator raw = Some k" and "raw \<noteq> []"
    and "strtok 10 (c_string (filter (\<lambda>b. b \<noteq> 13) (take k raw))) = ls"
proof -
  let ?j = "join_lines [13, 10] ls"
  have raw: "raw = ?j @ crlf_crlf @ body"
    using assms(2,3) by (simp add: concat_lines crlf_crlf_def)
  have "find_separator raw = Some (length raw - length (crlf_crlf @ body))"
    unfolding raw by (rule find_separator_strstr [OF strstr_head [OF assms(1,2)]])
  then have k: "find_separator raw = Some (length ?j)" by (simp add: raw)
  have cr: "map (filter (\<lambda>b. b \<noteq> 13)) ls = ls"
    using assms(1) by (intro map_idI filter_True) (auto simp: list_all_iff line_ok_def)
  have "filter (\<lambda>b. b \<noteq> 13) (take (length ?j) raw) = join_lines [10] ls"
    by (simp add: raw filter_lines cr)
  moreover have "0 \<notin> set (join_lines [10] ls)"
    using set_join_lines [of "[10]" ls] assms(1) by (auto simp: list_all_iff line_ok_def)
  moreover have "strtok 10 (join_lines [10] ls) = ls"
    using assms(1) by (intro strtok_lines) (auto simp: list_all_iff line_ok_def)
  ultimately have "strtok 10 (c_string (filter (\<lambda>b. b \<noteq> 13) (take (length ?j) raw))) = ls"
    by (simp add: c_string_id)
  moreover have "raw \<noteq> []" by (simp add: raw crlf_crlf_def)
  ultimately show thesis using that k by blast
qed

section \<open>Reading what was printed\<close>

lemmas request_ok_defs = request_ok_def word_ok_def header_ok_def field_ok_def list_all_iff
  HTTP_MAX_METHOD_def HTTP_MAX_PATH_def HTTP_MAX_VERSION_def HTTP_MAX_HEADERS_def
  HTTP_MAX_HEADER_KEY_def HTTP_MAX_HEADER_VAL_def

lemma not_space: "\<not> isspace b \<Longrightarrow> b \<noteq> 32 \<and> b \<noteq> 9 \<and> b \<noteq> 10 \<and> b \<noteq> 13"
  by (auto simp: isspace_def)

lemma scan_printed:
  assumes "word_ok 8 m" and "word_ok 128 p" and "word_ok 16 v"
  shows "scan_request_line (m @ [32] @ p @ [32] @ v) = Some (m, p, v)"
proof -
  have sp: "isspace 32" by (simp add: isspace_def)
  have "scan_word 7 (m @ 32 # p @ 32 # v) = Some (m, 32 # p @ 32 # v)"
    using assms(1) sp by (intro scan_word_token) (auto simp: word_ok_def list_all_iff)
  moreover have "scan_word 127 (p @ 32 # v) = Some (p, 32 # v)"
    using assms(2) sp by (intro scan_word_token) (auto simp: word_ok_def list_all_iff)
  moreover have "scan_word 15 v = Some (v, [])"
    using scan_word_token [of v 15 "[]"] assms(3) by (auto simp: word_ok_def list_all_iff)
  ultimately show ?thesis by (simp add: scan_request_line_def scan_word_space sp)
qed

lemma header_printed:
  assumes "header_ok h"
  shows "strchr (header_text h) 58 = Some (58 # 32 # hd_value h)"
    and "header_of (header_text h) (58 # 32 # hd_value h) = h"
proof -
  show "strchr (header_text h) 58 = Some (58 # 32 # hd_value h)"
    using assms by (simp add: header_text_def header_ok_def strchr_Some)
  have "takeWhile (\<lambda>b. b \<noteq> 58) (header_text h) = hd_name h"
    using assms unfolding header_text_def header_ok_def by (subst takeWhile_append2) auto
  moreover have "trim_leading (32 # hd_value h) = hd_value h"
    using assms by (simp add: header_ok_def trim_leading_def)
  ultimately show "header_of (header_text h) (58 # 32 # hd_value h) = h"
    using assms by (simp add: header_of_def header_ok_def field_ok_def
        HTTP_MAX_HEADER_KEY_def HTTP_MAX_HEADER_VAL_def)
qed

lemma headers_printed:
  "list_all header_ok hs \<Longrightarrow> length acc + length hs \<le> HTTP_MAX_HEADERS \<Longrightarrow>
     header_loop (map header_text hs) acc = acc @ hs"
proof (induction hs arbitrary: acc)
  case (Cons h hs)
  then show ?case by (simp add: header_printed) (simp add: header_text_def)
qed simp

lemma request_lines_ok:
  assumes "request_ok r"
  shows "list_all line_ok (request_lines r)"
proof -
  have "line_ok (rq_method r @ [32] @ rq_path r @ [32] @ rq_version r)"
    using assms not_space by (fastforce simp: line_ok_def request_ok_def word_ok_def list_all_iff)
  moreover have "line_ok (header_text h)" if "header_ok h" for h
    using that by (auto simp: line_ok_def header_text_def header_ok_def field_ok_def list_all_iff)
  ultimately show ?thesis
    using assms by (auto simp: request_lines_def request_ok_def list_all_iff)
qed

lemma parse_printed:
  assumes "request_ok r"
  shows "http_parse_request True (Some (request_text r @ body)) = Some r"
proof -
  obtain k where k: "find_separator (request_text r @ body) = Some k" "request_text r @ body \<noteq> []"
    "strtok 10 (c_string (filter (\<lambda>b. b \<noteq> 13) (take k (request_text r @ body)))) = request_lines r"
    using head_lines [OF request_lines_ok [OF assms], of "request_text r @ body" body]
    by (auto simp: request_text_def request_lines_def)
  have "scan_request_line (rq_method r @ [32] @ rq_path r @ [32] @ rq_version r)
      = Some (rq_method r, rq_path r, rq_version r)"
    using assms by (intro scan_printed) (simp_all add: request_ok_def HTTP_MAX_METHOD_def
        HTTP_MAX_PATH_def HTTP_MAX_VERSION_def)
  moreover have "header_loop (map header_text (rq_headers r)) [] = rq_headers r"
    using headers_printed [of "rq_headers r" "[]"] assms by (simp add: request_ok_def)
  ultimately show ?thesis
    using k by (simp add: http_parse_request_def request_lines_def)
qed

section \<open>What the reader can return\<close>

lemma scan_word_ok:
  assumes "scan_word n line = Some (w, rest)" and "0 \<notin> set line"
  shows "word_ok (Suc n) w" and "0 \<notin> set rest"
  using scan_word_bounds [OF assms(1)] assms(2) by (auto simp: word_ok_def list_all_iff)

lemma scan_line_ok:
  assumes "scan_request_line line = Some (m, p, v)" and "0 \<notin> set line"
  shows "word_ok 8 m" and "word_ok 128 p" and "word_ok 16 v"
proof -
  obtain r1 r2 r3 where s: "scan_word 7 line = Some (m, r1)" "scan_word 127 r1 = Some (p, r2)"
    "scan_word 15 r2 = Some (v, r3)"
    using assms(1) by (auto simp: scan_request_line_def split: option.splits)
  note 1 = scan_word_ok [OF s(1) assms(2)]
  note 2 = scan_word_ok [OF s(2) 1(2)]
  note 3 = scan_word_ok [OF s(3) 2(2)]
  show "word_ok 8 m" "word_ok 128 p" "word_ok 16 v" using 1(1) 2(1) 3(1) by simp_all
qed

lemma trim_take: "trim_leading (take n (trim_leading s)) = take n (trim_leading s)"
proof (cases "trim_leading s")
  case Nil
  show ?thesis unfolding Nil by (simp add: trim_leading_def)
next
  case (Cons b t)
  then have "\<not> (b = 32 \<or> b = 9)"
    using hd_dropWhile [of "\<lambda>b. b = 32 \<or> b = 9" s] by (simp add: trim_leading_def)
  then show ?thesis unfolding Cons by (cases n) (simp_all add: trim_leading_def)
qed

lemma header_of_ok:
  assumes "strchr line 58 = Some colon" and "0 \<notin> set line" and "10 \<notin> set line" and "13 \<notin> set line"
  shows "header_ok (header_of line colon)"
proof -
  have line: "line = takeWhile (\<lambda>b. b \<noteq> 58) line @ colon" "colon \<noteq> []"
    using strchr_SomeD [OF assms(1)] by simp_all
  let ?k = "take 63 (takeWhile (\<lambda>b. b \<noteq> 58) line)"
  let ?v = "take 255 (trim_leading (tl colon))"
  have "set ?k \<subseteq> set line" by (auto dest!: in_set_takeD dest: set_takeWhileD)
  moreover have "58 \<notin> set ?k" by (auto dest!: in_set_takeD dest: set_takeWhileD)
  ultimately have "\<forall>b \<in> {0, 10, 13, 58}. b \<notin> set (map tolower ?k)"
    using assms(2-4) by (auto simp: set_tolower tolower_other)
  moreover have "set ?v \<subseteq> set line"
  proof -
    have "set ?v \<subseteq> set colon" using line(2)
      by (auto simp: trim_leading_def dest!: in_set_takeD set_dropWhileD intro: list.set_sel(2))
    also have "\<dots> \<subseteq> set line" by (metis line(1) set_append Un_upper2)
    finally show ?thesis .
  qed
  ultimately show ?thesis
    using assms(2-4) by (auto simp: header_ok_def header_of_def Let_def field_ok_def list_all_iff
        HTTP_MAX_HEADER_KEY_def HTTP_MAX_HEADER_VAL_def tolower_idem trim_take)
qed

lemma header_loop_ok:
  assumes "list_all (\<lambda>l. 0 \<notin> set l \<and> 10 \<notin> set l \<and> 13 \<notin> set l) lines"
    and "list_all header_ok hs" and "length hs \<le> HTTP_MAX_HEADERS"
  shows "list_all header_ok (header_loop lines hs) \<and> length (header_loop lines hs) \<le> HTTP_MAX_HEADERS"
  using assms
  by (induction lines hs rule: header_loop.induct) (auto simp: header_of_ok split: option.split)

lemma parsed_ok:
  assumes "http_parse_request mem raw = Some r"
  shows "request_ok r"
proof -
  obtain bs k line lines m p v where
    split: "strtok 10 (c_string (filter (\<lambda>b. b \<noteq> 13) (take k bs))) = line # lines"
    and scan: "scan_request_line line = Some (m, p, v)"
    and r: "r = \<lparr>rq_method = m, rq_path = p, rq_version = v, rq_headers = header_loop lines []\<rparr>"
    using assms by (auto simp: http_parse_request_def split: option.splits if_splits list.splits)
  have "set (c_string (filter (\<lambda>b. b \<noteq> 13) (take k bs))) \<subseteq> - {0, 13}"
    using c_string_no_nul [of "filter (\<lambda>b. b \<noteq> 13) (take k bs)"]
    by (auto simp: c_string_def dest: set_takeWhileD)
  then have clean: "0 \<notin> set l \<and> 10 \<notin> set l \<and> 13 \<notin> set l" if "l \<in> set (line # lines)" for l
    using strtok_pieces [of l 10 "c_string (filter (\<lambda>b. b \<noteq> 13) (take k bs))"] that split by auto
  have "word_ok 8 m" "word_ok 128 p" "word_ok 16 v"
    using scan_line_ok [OF scan] clean [of line] by simp_all
  moreover have "list_all header_ok (header_loop lines []) \<and> length (header_loop lines []) \<le> HTTP_MAX_HEADERS"
    using clean by (intro header_loop_ok) (auto simp: list_all_iff)
  ultimately show ?thesis
    by (simp add: r request_ok_def HTTP_MAX_METHOD_def HTTP_MAX_PATH_def HTTP_MAX_VERSION_def)
qed

lemma header_any_case: "strcaseeq n n' \<Longrightarrow> http_get_header r n = http_get_header r n'"
  by (simp add: http_get_header_def strcaseeq_def)

section \<open>Properties\<close>

text \<open>
  C17: A printed request, followed by any body, is read back as it was: method, path, version and
  every header in order. The request is one that fits the fixed arrays.
\<close>

theorem request_read_back:
  assumes "request_ok r"
  shows "http_parse_request True (Some (request_text r @ body)) = Some r"
  by (rule parse_printed [OF assms])

text \<open>
  C18: Whatever bytes arrive, a request that is accepted fits its arrays with room for the
  terminator, has at most 32 headers with lower case names and values without leading blanks, and
  holds no CR, LF or NUL; so printing and reading it again gives the same request.
\<close>

theorem request_bounded:
  assumes "http_parse_request mem raw = Some r"
  shows "request_ok r \<and> http_parse_request True (Some (request_text r)) = Some r"
  using parsed_ok [OF assms] parse_printed [OF parsed_ok [OF assms], of "[]"] by simp_all

definition sample_request :: http_request where
  "sample_request = \<lparr>rq_method = chars ''GET'', rq_path = chars ''/ws'', rq_version = chars ''HTTP/1.1'',
     rq_headers = [\<lparr>hd_name = chars ''host'', hd_value = chars ''a b''\<rparr>]\<rparr>"

lemma sample_request_ok: "request_ok sample_request"
  by (simp add: sample_request_def request_ok_defs isspace_def chars_def tolower_def trim_leading_def)

theorem request_read_back_witness:
  "http_parse_request True (Some (request_text sample_request @ [1, 2])) = Some sample_request"
  by (rule request_read_back [OF sample_request_ok])

theorem request_bounded_witness:
  "http_parse_request True (Some (request_text sample_request)) = Some sample_request \<and> request_ok sample_request"
  using request_bounded [of True "Some (request_text sample_request)" sample_request]
    parse_printed [OF sample_request_ok, of "[]"] by simp

end
