(* ===== verification/Ws_Accept.thy ===== *)
theory Ws_Accept
  imports Sha1 Ws_Io Http_Request
begin

text \<open>
  The opening handshake of \<open>src/server/websocket.c\<close>: \<open>base64_encode\<close>,
  \<open>websocket_calculate_accept_key\<close> and the response of \<open>perform_handshake\<close>, with a Base64 decoder
  as the reference.
\<close>

section \<open>The accept key\<close>

definition WS_GUID :: bytes where
  "WS_GUID = chars ''258EAFA5-E914-47DA-95CA-C5AB0DC85B11''"

section \<open>Base64\<close>

definition base64_table :: bytes where
  "base64_table = chars ''ABCDEFGHIJKLMNOPQRSTUVWXYZabcdefghijklmnopqrstuvwxyz0123456789+/''"

definition base64_char :: "u32 \<Rightarrow> u8" where
  "base64_char n = base64_table ! unat (n AND 0x3F)"

definition base64_pad :: u8 where "base64_pad = of_char (CHR ''='')"

text \<open>One iteration of the loop at index \<open>i\<close>; bytes beyond the end count as zero.\<close>

definition base64_quad :: "bytes \<Rightarrow> nat \<Rightarrow> bytes" where
  "base64_quad data i =
     (let len = length data;
          a = (if i < len then ucast (data ! i) else 0);
          b = (if i + 1 < len then ucast (data ! (i + 1)) else 0);
          c = (if i + 2 < len then ucast (data ! (i + 2)) else 0);
          triple = push_bit 16 a OR push_bit 8 b OR c
      in [base64_char (drop_bit 18 triple), base64_char (drop_bit 12 triple),
          if i + 1 < len then base64_char (drop_bit 6 triple) else base64_pad,
          if i + 2 < len then base64_char triple else base64_pad])"

function base64_loop :: "bytes \<Rightarrow> nat \<Rightarrow> bytes \<Rightarrow> bytes" where
  "base64_loop data i out =
     (if i < length data then base64_loop data (i + 3) (out @ base64_quad data i) else out)"
  by pat_completeness auto
termination by (relation "measure (\<lambda>(data, i, out). length data - i)") auto

declare base64_loop.simps [simp del]

text \<open>The string written to a buffer of \<open>out_size\<close> bytes, \<open>None\<close> for \<open>-1\<close>.\<close>

definition base64_encode :: "bytes \<Rightarrow> nat \<Rightarrow> bytes option" where
  "base64_encode data out_size =
     (let encoded_len = (length data + 2) div 3 * 4
      in if out_size < encoded_len + 1 then None else Some (base64_loop data 0 []))"

section \<open>The accept key and the response\<close>

definition websocket_calculate_accept_key :: "sha1_ctx \<Rightarrow> bytes option \<Rightarrow> nat \<Rightarrow> bytes option" where
  "websocket_calculate_accept_key local client_key out_size =
     (case client_key of
        None \<Rightarrow> None
      | Some key \<Rightarrow>
          if 128 \<le> length key + length WS_GUID then None
          else base64_encode (sha1_compute local (key @ WS_GUID)) out_size)"

definition handshake_response :: "bytes \<Rightarrow> bytes" where
  "handshake_response accept_value =
     chars (''HTTP/1.1 101 Switching Protocols'' @ [CHR 0x0D, CHR 0x0A]
       @ ''Upgrade: websocket'' @ [CHR 0x0D, CHR 0x0A]
       @ ''Connection: Upgrade'' @ [CHR 0x0D, CHR 0x0A] @ ''Sec-WebSocket-Accept: '')
     @ accept_value @ [13, 10, 13, 10]"

text \<open>The name of the header that carries the client's key.\<close>

definition key_header :: bytes where "key_header = chars ''sec-websocket-key''"

text \<open>\<open>local\<close> is what the stack holds where \<open>sha1_compute\<close> puts its context.\<close>

definition perform_handshake :: "sha1_ctx \<Rightarrow> ws_io \<Rightarrow> http_request \<Rightarrow> int \<times> ws_io" where
  "perform_handshake local io request =
     (case http_get_header request key_header of
        None \<Rightarrow> (-1, io)
      | Some client_key \<Rightarrow>
          (case websocket_calculate_accept_key local (Some client_key) 64 of
             None \<Rightarrow> (-1, io)
           | Some accept_value \<Rightarrow>
               let response = handshake_response accept_value
               in if 256 \<le> length response then (-1, io) else write_all io response))"

section \<open>The decoder\<close>

text \<open>The value of a character is its position in the table.\<close>

definition base64_value :: "u8 \<Rightarrow> u32 option" where
  "base64_value c = map_option word_of_nat (first_idx (\<lambda>x. x = c) base64_table)"

fun base64_decode :: "bytes \<Rightarrow> bytes option" where
  "base64_decode [] = Some []"
| "base64_decode [w, x, y, z] =
     (case (base64_value w, base64_value x) of
        (Some p, Some q) \<Rightarrow>
          if y = base64_pad \<and> z = base64_pad then Some [ucast (push_bit 2 p OR drop_bit 4 q)]
          else
            (case (base64_value y, base64_value z) of
               (Some r, Some s) \<Rightarrow> Some [ucast (push_bit 2 p OR drop_bit 4 q),
                  ucast (push_bit 4 q OR drop_bit 2 r), ucast (push_bit 6 r OR s)]
             | (Some r, None) \<Rightarrow>
                 if z = base64_pad then Some [ucast (push_bit 2 p OR drop_bit 4 q), ucast (push_bit 4 q OR drop_bit 2 r)]
                 else None
             | _ \<Rightarrow> None)
      | _ \<Rightarrow> None)"
| "base64_decode (w # x # y # z # rest) =
     (case (base64_value w, base64_value x, base64_value y, base64_value z, base64_decode rest) of
        (Some p, Some q, Some r, Some s, Some d) \<Rightarrow>
          Some ([ucast (push_bit 2 p OR drop_bit 4 q), ucast (push_bit 4 q OR drop_bit 2 r),
                 ucast (push_bit 6 r OR s)] @ d)
      | _ \<Rightarrow> None)"
| "base64_decode _ = None"

declare base64_decode.simps [simp del]

section \<open>The table\<close>

lemma length_table [simp]: "length base64_table = 64"
  by (simp add: base64_table_def chars_def)

lemma table_distinct: "distinct base64_table"
  by (simp add: base64_table_def chars_def)

lemma table_no_pad: "base64_pad \<notin> set base64_table"
  by (simp add: base64_table_def chars_def base64_pad_def)

lemma six_bits: "unat ((n :: u32) AND 0x3F) < 64"
proof -
  have m: "(0x3F :: u32) = mask 6" by (simp add: mask_eq_exp_minus_1)
  have "unat (n AND 0x3F) = take_bit 6 (unat n)"
    unfolding m take_bit_eq_mask [symmetric] by (simp add: unsigned_take_bit_eq)
  then show ?thesis using take_bit_nat_less_exp [of 6 "unat n"] by simp
qed

definition sextet :: "u32 \<Rightarrow> u32" where "sextet n = n AND 0x3F"

lemma value_char: "base64_value (base64_char n) = Some (sextet n)"
proof -
  have "first_idx (\<lambda>x. x = base64_char n) base64_table = Some (unat (n AND 0x3F))"
    using six_bits [of n] table_distinct
    by (auto simp: first_idx_Some base64_char_def nth_eq_iff_index_eq)
  then show ?thesis by (simp add: base64_value_def sextet_def)
qed

lemma char_not_pad: "base64_char n \<noteq> base64_pad"
proof -
  have "base64_char n \<in> set base64_table" using six_bits [of n] by (simp add: base64_char_def)
  with table_no_pad show ?thesis by metis
qed

lemma value_pad: "base64_value (base64_pad) = None"
  using table_no_pad by (auto simp: base64_value_def table_simps)

section \<open>Decoding inverts encoding\<close>

definition triple_of :: "u8 \<Rightarrow> u8 \<Rightarrow> u8 \<Rightarrow> u32" where
  "triple_of a b c = push_bit 16 (ucast a) OR push_bit 8 (ucast b) OR ucast c"

lemma bytes_back:
  "ucast (push_bit 2 (sextet (drop_bit 18 (triple_of a b c))) OR drop_bit 4 (sextet (drop_bit 12 (triple_of a b c)))) = a"
  "ucast (push_bit 4 (sextet (drop_bit 12 (triple_of a b c))) OR drop_bit 2 (sextet (drop_bit 6 (triple_of a b c)))) = b"
  "ucast (push_bit 6 (sextet (drop_bit 6 (triple_of a b c))) OR sextet (triple_of a b c)) = c"
proof -
  have m: "(0x3F :: u32) = mask 6" by (simp add: mask_eq_exp_minus_1)
  have s: "Suc (Suc (k - 2)) = k" if "2 \<le> k" for k :: nat using that by simp
  have t: "bit (triple_of a b c) k \<longleftrightarrow> (if k < 8 then bit c k else if k < 16 then bit b (k - 8)
      else k < 24 \<and> bit a (k - 16))" for k
    using bit_imp_le_length [of a "k - 16"] bit_imp_le_length [of b "k - 8"] bit_imp_le_length [of c k]
    by (auto simp: triple_of_def bit_simps not_less)
  show "ucast (push_bit 2 (sextet (drop_bit 18 (triple_of a b c))) OR drop_bit 4 (sextet (drop_bit 12 (triple_of a b c)))) = a"
    unfolding sextet_def m by (rule bit_word_eqI) (auto simp: bit_simps t not_less s)
  show "ucast (push_bit 4 (sextet (drop_bit 12 (triple_of a b c))) OR drop_bit 2 (sextet (drop_bit 6 (triple_of a b c)))) = b"
    unfolding sextet_def m by (rule bit_word_eqI) (auto simp: bit_simps t not_less)
  show "ucast (push_bit 6 (sextet (drop_bit 6 (triple_of a b c))) OR sextet (triple_of a b c)) = c"
    unfolding sextet_def m by (rule bit_word_eqI) (auto simp: bit_simps t not_less)
qed

lemma loop_out: "base64_loop data i out = out @ base64_loop data i []"
proof (induction "length data - i" arbitrary: i out rule: less_induct)
  case less
  show ?case
  proof (cases "i < length data")
    case True
    then have "base64_loop data i out = base64_loop data (i + 3) (out @ base64_quad data i)" for out
      by (simp add: base64_loop.simps [of data i])
    moreover have "base64_loop data (i + 3) out = out @ base64_loop data (i + 3) []" for out
      using True by (intro less) simp
    ultimately show ?thesis by (metis append.assoc append_Nil)
  next
    case False
    then show ?thesis by (simp add: base64_loop.simps)
  qed
qed

lemma loop_step: "i < length data \<Longrightarrow> base64_loop data i [] = base64_quad data i @ base64_loop data (i + 3) []"
  by (subst base64_loop.simps) (simp add: loop_out [of data "i + 3" "base64_quad data i"])

lemma loop_end: "length data \<le> i \<Longrightarrow> base64_loop data i [] = []"
  by (simp add: base64_loop.simps)

lemma quad_cases:
  assumes "drop i data = d" and "d \<noteq> []"
  shows "base64_quad data i =
     (let t = triple_of (d ! 0) (if 1 < length d then d ! 1 else 0) (if 2 < length d then d ! 2 else 0)
      in [base64_char (drop_bit 18 t), base64_char (drop_bit 12 t),
          if 1 < length d then base64_char (drop_bit 6 t) else base64_pad,
          if 2 < length d then base64_char t else base64_pad])"
proof -
  have "length d = length data - i" using assms(1) by auto
  then have lt: "i + k < length data \<longleftrightarrow> k < length d" for k by auto
  have nth: "k < length d \<Longrightarrow> data ! (i + k) = d ! k" for k using assms(1) by (auto simp: nth_drop)
  show ?thesis
    using lt [of 0] lt [of 1] lt [of 2] nth [of 0] nth [of 1] nth [of 2] assms(2)
    by (simp add: base64_quad_def triple_of_def Let_def)
qed

lemma decode_quad:
  "base64_decode (base64_char (drop_bit 18 (triple_of a b c)) # base64_char (drop_bit 12 (triple_of a b c))
     # base64_char (drop_bit 6 (triple_of a b c)) # base64_char (triple_of a b c) # rest) =
   map_option ((@) [a, b, c]) (base64_decode rest)"
  by (cases rest) (simp_all add: base64_decode.simps value_char bytes_back char_not_pad split: option.split)

lemma decode_pads:
  "base64_decode [base64_char (drop_bit 18 (triple_of a b 0)), base64_char (drop_bit 12 (triple_of a b 0)),
     base64_char (drop_bit 6 (triple_of a b 0)), base64_pad] = Some [a, b]"
  "base64_decode [base64_char (drop_bit 18 (triple_of a 0 0)), base64_char (drop_bit 12 (triple_of a 0 0)),
     base64_pad, base64_pad] = Some [a]"
  by (simp_all add: base64_decode.simps value_char bytes_back char_not_pad value_pad)

lemma decode_loop: "base64_decode (base64_loop data i []) = Some (drop i data)"
proof (induction "length data - i" arbitrary: i rule: less_induct)
  case less
  consider "drop i data = []" | a where "drop i data = [a]" | a b where "drop i data = [a, b]"
    | a b c r where "drop i data = a # b # c # r"
    by (metis list.exhaust)
  then show ?case
  proof cases
    case 1
    then show ?thesis by (simp add: loop_end base64_decode.simps)
  next
    case 2
    then have "length (drop i data) = 1" by simp
    then have "i < length data" "length data \<le> i + 3" by simp_all
    with 2 show ?thesis by (simp add: loop_step loop_end quad_cases Let_def decode_pads)
  next
    case 3
    then have "length (drop i data) = 2" by simp
    then have "i < length data" "length data \<le> i + 3" by simp_all
    with 3 show ?thesis by (simp add: loop_step loop_end quad_cases Let_def decode_pads)
  next
    case 4
    then have "drop 3 (drop i data) = r" and "0 < length (drop i data)" by simp_all
    then have i: "i < length data" and rest: "drop (i + 3) data = r" by (simp_all add: add.commute)
    then have "base64_decode (base64_loop data (i + 3) []) = Some r" using less [of "i + 3"] by simp
    with 4 i show ?thesis by (simp add: loop_step quad_cases Let_def decode_quad)
  qed
qed

lemma length_quad: "length (base64_quad data i) = 4"
  by (simp add: base64_quad_def Let_def)

lemma length_loop: "length (base64_loop data i []) = (length data - i + 2) div 3 * 4"
proof (induction "length data - i" arbitrary: i rule: less_induct)
  case less
  show ?case
  proof (cases "i < length data")
    case True
    have IH: "length (base64_loop data (i + 3) []) = (length data - (i + 3) + 2) div 3 * 4"
      using True by (intro less) simp
    have "(length data - i + 2) div 3 = Suc ((length data - (i + 3) + 2) div 3)"
      using True by (cases "length data - i \<le> 3") (auto simp: le_div_geq [symmetric] div_if)
    with IH show ?thesis by (simp add: loop_step [OF True] length_quad)
  next
    case False
    then show ?thesis by (simp add: loop_end)
  qed
qed

section \<open>The response\<close>

lemma handshake_accepts:
  assumes "length (s1_data local) = 64" and "writes_ready io (256 + n)"
    and "http_get_header req key_header = Some k" and "length k \<le> 91"
  obtains v io' where "base64_decode v = Some (SHA1 (k @ WS_GUID))" and "length v = 28"
    and "perform_handshake local io req = (0, io')"
    and "io_out io' = io_out io @ handshake_response v" and "io_in io' = io_in io"
    and "io_reads io' = io_reads io" and "writes_ready io' n"
proof -
  have guid: "length WS_GUID = 36" by (simp add: WS_GUID_def chars_def)
  have S: "sha1_compute local (k @ WS_GUID) = SHA1 (k @ WS_GUID)" "length (SHA1 (k @ WS_GUID)) = 20"
    using sha1_standard_lemma [OF assms(1), of "k @ WS_GUID"] by metis+
  let ?h = "sha1_compute local (k @ WS_GUID)"
  have len: "length (base64_loop ?h 0 []) = 28" using S length_loop [of ?h 0] by simp
  then have "base64_encode ?h 64 = Some (base64_loop ?h 0 [])"
    using S by (simp add: base64_encode_def)
  then have key: "websocket_calculate_accept_key local (Some k) 64 = Some (base64_loop ?h 0 [])"
    using assms(4) guid by (simp add: websocket_calculate_accept_key_def)
  let ?r = "handshake_response (base64_loop ?h 0 [])"
  have rlen: "length ?r < 256" using len by (simp add: handshake_response_def chars_def)
  then have "writes_ready io (length ?r + n)" using assms(2) by (simp add: writes_ready_def)
  then obtain io' where w: "write_all io ?r = (0, io')" "io_out io' = io_out io @ ?r" "writes_ready io' n"
    by (rule write_all_ready)
  have "io_in io' = io_in io" "io_reads io' = io_reads io" using write_all_keeps [OF w(1)] by simp_all
  with that w key rlen len decode_loop [of ?h 0] S assms(3) show thesis
    by (simp add: perform_handshake_def Let_def)
qed

section \<open>Properties\<close>

text \<open>
  Encoding succeeds exactly when the buffer takes four characters for every three bytes begun
  and the terminator; the text has that length and decodes to the bytes it was made from.
\<close>

theorem base64_inverse:
  "base64_encode d n = None \<and> n < (length d + 2) div 3 * 4 + 1 \<or>
   (\<exists>s. base64_encode d n = Some s \<and> length s = (length d + 2) div 3 * 4 \<and> length s + 1 \<le> n \<and>
      base64_decode s = Some d)"
  using decode_loop [of d 0] length_loop [of d 0] by (auto simp: base64_encode_def Let_def)

text \<open>
  The accept key is the Base64 of the SHA-1 of the client's key followed by the protocol's
  identifier, 28 characters, for every key of at most 91 characters; a longer key is refused, so
  the fixed buffer of 128 bytes is never overrun.
\<close>

theorem accept_key_standard:
  assumes "length (s1_data local) = 64" and "29 \<le> n"
  shows "if length key \<le> 91
     then (\<exists>v. websocket_calculate_accept_key local (Some key) n = Some v \<and> length v = 28 \<and>
             base64_decode v = Some (SHA1 (key @ WS_GUID)))
     else websocket_calculate_accept_key local (Some key) n = None"
proof -
  have guid: "length WS_GUID = 36" by (simp add: WS_GUID_def chars_def)
  have S: "sha1_compute local (key @ WS_GUID) = SHA1 (key @ WS_GUID)" "length (SHA1 (key @ WS_GUID)) = 20"
    using sha1_standard_lemma [OF assms(1), of "key @ WS_GUID"] by metis+
  let ?h = "sha1_compute local (key @ WS_GUID)"
  show ?thesis
  proof (cases "length key \<le> 91")
    case True
    have "base64_encode ?h n = Some (base64_loop ?h 0 [])"
      using S assms(2) by (simp add: base64_encode_def)
    then show ?thesis
      using True guid S decode_loop [of ?h 0] length_loop [of ?h 0]
      by (simp add: websocket_calculate_accept_key_def)
  next
    case False
    then show ?thesis by (simp add: websocket_calculate_accept_key_def guid)
  qed
qed

text \<open>
  The opening handshake: with a key of at most 91 characters on a transport that goes on, the
  peer gets exactly the response with its accept key; without a key or with a longer one
  nothing is written and the caller gets an error.
\<close>

theorem handshake_switches:
  assumes "length (s1_data local) = 64" and "writes_ready io 256"
  shows "case http_get_header req key_header of
      Some k \<Rightarrow> if length k \<le> 91
        then (\<exists>v io'. base64_decode v = Some (SHA1 (k @ WS_GUID)) \<and>
                perform_handshake local io req = (0, io') \<and>
                io_out io' = io_out io @ handshake_response v)
        else perform_handshake local io req = (-1, io)
    | None \<Rightarrow> perform_handshake local io req = (-1, io)"
proof (cases "http_get_header req key_header")
  case None
  then show ?thesis by (simp add: perform_handshake_def)
next
  case (Some k)
  show ?thesis
  proof (cases "length k \<le> 91")
    case True
    obtain v io' where "base64_decode v = Some (SHA1 (k @ WS_GUID))"
      "perform_handshake local io req = (0, io')" "io_out io' = io_out io @ handshake_response v"
      by (rule handshake_accepts [of local io 0 req k]) (use assms Some True in auto)
    then show ?thesis using Some True by auto
  next
    case False
    then have "websocket_calculate_accept_key local (Some k) 64 = None"
      by (simp add: websocket_calculate_accept_key_def WS_GUID_def chars_def)
    with False Some show ?thesis by (simp add: perform_handshake_def)
  qed
qed

definition sample_ctx :: sha1_ctx where
  "sample_ctx = \<lparr>s1_state = [], s1_bitlen = 0, s1_data = replicate 64 1, s1_datalen = 0\<rparr>"

theorem accept_key_standard_witness:
  "\<exists>v. websocket_calculate_accept_key sample_ctx (Some (chars ''dGhlIHNhbXBsZSBub25jZQ=='')) 64 = Some v \<and>
     length v = 28 \<and> base64_decode v = Some (SHA1 (chars ''dGhlIHNhbXBsZSBub25jZQ=='' @ WS_GUID))"
  using accept_key_standard [of sample_ctx 64 "chars ''dGhlIHNhbXBsZSBub25jZQ==''"]
  by (simp add: sample_ctx_def chars_def)

definition key_request :: http_request where
  "key_request = \<lparr>rq_method = [], rq_path = [], rq_version = [],
     rq_headers = [\<lparr>hd_name = key_header, hd_value = chars ''abc''\<rparr>]\<rparr>"

theorem handshake_switches_witness:
  "\<exists>v io'. base64_decode v = Some (SHA1 (chars ''abc'' @ WS_GUID)) \<and>
     perform_handshake sample_ctx \<lparr>io_in = [], io_out = [], io_reads = [], io_writes = replicate 256 1\<rparr>
       key_request = (0, io') \<and> io_out io' = handshake_response v"
proof -
  have "http_get_header key_request key_header = Some (chars ''abc'')"
    by (simp add: http_get_header_def key_request_def)
  then show ?thesis
    using handshake_switches [of sample_ctx
        "\<lparr>io_in = [], io_out = [], io_reads = [], io_writes = replicate 256 1\<rparr>" key_request]
    by (simp add: sample_ctx_def writes_ready_def chars_def)
qed

end
