(* ===== verification/Ws_Upgrade.thy ===== *)
theory Ws_Upgrade
  imports Ws_Accept
begin

text \<open>
  The first message of a connection in \<open>src/server/websocket.c\<close>: \<open>read_http_request\<close>,
  \<open>send_http_error\<close>, \<open>header_contains_token\<close> and \<open>validate_websocket_request\<close>. The read loop takes
  the transport call as an argument, like the other loops over the transport.
\<close>

section \<open>Reading the head\<close>

definition WS_MAX_HTTP_BUFFER :: nat where "WS_MAX_HTTP_BUFFER = 8192"

definition buffer_contains_clrf :: "bytes \<Rightarrow> bool" where
  "buffer_contains_clrf buf =
     (if length buf < 4 then False else list_ex (blank_line_at buf) [3..<length buf])"

function head_loop :: "('s \<Rightarrow> nat \<Rightarrow> bytes option \<times> 's) \<Rightarrow> nat \<Rightarrow> 's \<Rightarrow> bytes \<Rightarrow> bytes option \<times> 's" where
  "head_loop rd buf_size s buf =
     (if length buf < buf_size then
        (case rd s (buf_size - length buf) of
           (None, s') \<Rightarrow> (None, s')
         | (Some b, s') \<Rightarrow>
             if b = [] then (None, s')
             else if buffer_contains_clrf (buf @ b) then (Some (buf @ b), s')
             else head_loop rd buf_size s' (buf @ b))
      else (None, s))"
  by pat_completeness auto
termination
  by (relation "measure (\<lambda>(rd, n, s, buf). n - length buf)") (auto simp flip: length_greater_0_conv)

declare head_loop.simps [simp del]

text \<open>The bytes in the buffer for \<open>0\<close>, \<open>None\<close> for \<open>-1\<close>.\<close>

definition read_http_request :: "ws_io \<Rightarrow> nat \<Rightarrow> bytes option \<times> ws_io" where
  "read_http_request io buf_size = head_loop io_read buf_size io []"

definition send_http_error :: "ws_io \<Rightarrow> bytes \<Rightarrow> int \<times> ws_io" where
  "send_http_error io status_line = write_all io status_line"

section \<open>Checking the request\<close>

definition header_contains_token :: "bytes \<Rightarrow> bytes \<Rightarrow> bool" where
  "header_contains_token val token =
     list_ex (\<lambda>part. strcaseeq (trim_leading part) token) (strtok 44 (take (HTTP_MAX_HEADER_VAL - 1) val))"

text \<open>True for \<open>0\<close>.\<close>

definition validate_websocket_request :: "http_request \<Rightarrow> bool" where
  "validate_websocket_request req =
     (if \<not> strcaseeq (rq_method req) (chars ''GET'') then False
      else
        (case http_get_header req (chars ''upgrade'') of
           None \<Rightarrow> False
         | Some upgrade \<Rightarrow>
             if \<not> strcaseeq upgrade (chars ''websocket'') then False
             else
               (case http_get_header req (chars ''connection'') of
                  None \<Rightarrow> False
                | Some connection \<Rightarrow>
                    if \<not> header_contains_token connection (chars ''Upgrade'') then False
                    else
                      (case http_get_header req (chars ''sec-websocket-version'') of
                         None \<Rightarrow> False
                       | Some version \<Rightarrow>
                           if version \<noteq> chars ''13'' then False
                           else
                             (case http_get_header req key_header of None \<Rightarrow> False | Some _ \<Rightarrow> True)))))"

section \<open>What the read loop returns\<close>

lemma contains_separator: "buffer_contains_clrf buf \<longleftrightarrow> find_separator buf \<noteq> None"
proof -
  have "find (blank_line_at buf) [3..<length buf] \<noteq> None \<longleftrightarrow> list_ex (blank_line_at buf) [3..<length buf]"
    by (auto simp: find_None_iff list_ex_iff)
  moreover have "length buf < 4 \<Longrightarrow> [3..<length buf] = []" by simp
  ultimately show ?thesis by (auto simp: buffer_contains_clrf_def find_separator_def)
qed

lemma contains_append:
  assumes "buffer_contains_clrf h"
  shows "buffer_contains_clrf (h @ c)"
proof -
  from assms obtain i where i: "3 \<le> i" "i < length h" "blank_line_at h i" "4 \<le> length h"
    by (auto simp: buffer_contains_clrf_def list_ex_iff split: if_splits)
  have "(h @ c) ! j = h ! j" if "j \<le> i" for j using that i(2) by (simp add: nth_append)
  with i(3) have "blank_line_at (h @ c) i" by (simp add: blank_line_at_def)
  with i show ?thesis by (auto simp: buffer_contains_clrf_def list_ex_iff intro!: bexI [of _ i])
qed

lemma room_shrinks: "length buf < n \<Longrightarrow> d \<noteq> [] \<Longrightarrow> n - length (buf @ d) < n - length buf"
  by (cases d) auto

context byte_source
begin

text \<open>The bytes returned are the next ones, at most \<open>n\<close> of them, and hold a blank line.\<close>

lemma head_some:
  "head_loop rd n s buf = (Some b, s') \<Longrightarrow> length buf \<le> n \<Longrightarrow>
     (\<exists>c. b = buf @ c \<and> pending s = c @ pending s') \<and> length b \<le> n \<and> buffer_contains_clrf b"
proof (induction "n - length buf" arbitrary: s buf rule: less_induct)
  case less
  from less.prems obtain d s1 where lt: "length buf < n" and call: "rd s (n - length buf) = (Some d, s1)"
    by (auto simp: head_loop.simps [of rd n s buf] split: if_splits prod.splits option.splits)
  note d = read_some [OF call]
  show ?case
  proof (cases "buffer_contains_clrf (buf @ d)")
    case True
    with less.prems lt call d show ?thesis by (auto simp: head_loop.simps [of rd n s buf])
  next
    case False
    then have rest: "head_loop rd n s1 (buf @ d) = (Some b, s')"
      using less.prems lt call d by (simp add: head_loop.simps [of rd n s buf])
    have "n - length (buf @ d) < n - length buf" "length (buf @ d) \<le> n"
      using d lt room_shrinks [OF lt, of d] by auto
    from less.hyps [OF this(1) rest this(2)] d show ?thesis by auto
  qed
qed

text \<open>A failed call has used up at most what the buffer holds, and no head was complete in it.\<close>

lemma head_none:
  "head_loop rd n s buf = (None, s') \<Longrightarrow> length buf \<le> n \<Longrightarrow> \<not> buffer_contains_clrf buf \<Longrightarrow>
     \<exists>c. pending s = c @ pending s' \<and> length (buf @ c) \<le> n \<and> \<not> buffer_contains_clrf (buf @ c)"
proof (induction "n - length buf" arbitrary: s buf rule: less_induct)
  case less
  show ?case
  proof (cases "length buf < n")
    case False
    with less.prems show ?thesis by (simp add: head_loop.simps [of rd n s buf])
  next
    case lt: True
    obtain r s1 where call: "rd s (n - length buf) = (r, s1)" by fastforce
    show ?thesis
    proof (cases r)
      case None
      with less.prems lt call read_none [of s _ s1] show ?thesis
        by (auto simp: head_loop.simps [of rd n s buf])
    next
      case (Some d)
      note d = read_some [OF call [unfolded Some]]
      then have nc: "\<not> buffer_contains_clrf (buf @ d)" and rest: "head_loop rd n s1 (buf @ d) = (None, s')"
        using less.prems lt call Some by (auto simp: head_loop.simps [of rd n s buf] split: if_splits)
      have "n - length (buf @ d) < n - length buf" "length (buf @ d) \<le> n"
      using d lt room_shrinks [OF lt, of d] by auto
      from less.hyps [OF this(1) rest this(2) nc] d show ?thesis by auto
    qed
  qed
qed

end

context live_source
begin

text \<open>A source that will deliver a complete head that fits the buffer gets it read.\<close>

lemma head_total:
  "pending s = c @ rest \<Longrightarrow> alive s (length c) \<Longrightarrow> length (buf @ c) \<le> n \<Longrightarrow> c \<noteq> [] \<Longrightarrow>
     buffer_contains_clrf (buf @ c) \<Longrightarrow> \<exists>b s'. head_loop rd n s buf = (Some b, s')"
proof (induction "n - length buf" arbitrary: s buf c rule: less_induct)
  case less
  have lt: "length buf < n" using less.prems by (cases c) auto
  then obtain d s1 where call: "rd s (n - length buf) = (Some d, s1)" and al: "alive s1 (length c - length d)"
    using alive_read [of s "length c" "n - length buf"] less.prems by auto
  note d = read_some [OF call]
  show ?case
  proof (cases "buffer_contains_clrf (buf @ d)")
    case True
    with lt call d show ?thesis by (simp add: head_loop.simps [of rd n s buf])
  next
    case False
    have eq: "d @ pending s1 = c @ rest" using d less.prems by simp
    have "length d < length c"
    proof (rule ccontr)
      assume "\<not> length d < length c"
      with eq have "d = c @ drop (length c) d" by (metis append_eq_append_conv2 append_take_drop_id
          append_same_eq not_less take_all_iff append_eq_conv_conj take_append)
      with contains_append [OF less.prems(5), of "drop (length c) d"] False show False by simp
    qed
    then have "d = take (length d) c" and rest': "pending s1 = drop (length d) c @ rest"
      using eq by (auto simp: append_eq_append_conv_if)
    then have c: "c = d @ drop (length d) c" by (metis append_take_drop_id)
    have "n - length (buf @ d) < n - length buf" using d room_shrinks [OF lt, of d] by auto
    moreover have "alive s1 (length (drop (length d) c))" using al by simp
    moreover have "length ((buf @ d) @ drop (length d) c) \<le> n" "drop (length d) c \<noteq> []"
      using less.prems(3) \<open>length d < length c\<close> by auto
    moreover have "buffer_contains_clrf ((buf @ d) @ drop (length d) c)"
      using less.prems(5) c by (metis append.assoc)
    ultimately obtain b s' where "head_loop rd n s1 (buf @ d) = (Some b, s')"
      using less.hyps rest' by blast
    with False lt call d show ?thesis by (simp add: head_loop.simps [of rd n s buf])
  qed
qed

end

lemma read_request_Some:
  assumes "read_http_request io n = (Some b, io')"
  shows "io_in io = b @ io_in io'" and "length b \<le> n" and "buffer_contains_clrf b"
  using io_source.head_some [OF assms [unfolded read_http_request_def]] by auto

lemma head_loop_keeps:
  assumes "\<And>s n r s'. rd s n = (r, s') \<Longrightarrow> f s' = f s"
  shows "head_loop rd n s buf = (r, s') \<Longrightarrow> f s' = f s"
proof (induction "n - length buf" arbitrary: s buf rule: less_induct)
  case less
  obtain q s1 where call: "rd s (n - length buf) = (q, s1)" by fastforce
  have step: "f s' = f s1" if "head_loop rd n s1 (buf @ b) = (r, s')" "b \<noteq> []" "length buf < n" for b
    using less.hyps [of "buf @ b" s1] that room_shrinks [of buf n b] by simp
  show ?case
    using less.prems call step assms [OF call]
    by (auto simp: head_loop.simps [of rd n s buf] split: if_splits option.splits)
qed

lemma read_request_keeps:
  assumes "read_http_request io n = (r, io')"
  shows "io_out io' = io_out io" and "io_writes io' = io_writes io"
  using head_loop_keeps [where rd = io_read and f = "\<lambda>io. (io_out io, io_writes io)",
      OF io_read_keeps assms [unfolded read_http_request_def]] by simp_all

end
