(* ===== verification/Password.thy ===== *)
theory Password
  imports C_Number
begin

text \<open>
  Passwords: \<open>src/auth/bcrypt.c\<close> and \<open>src/auth/hash.c\<close>. The hash itself (\<open>crypt_rn\<close> and
  \<open>crypt_gensalt_rn\<close>) is an argument, which \<open>Bcrypt\<close> fills in, as are the answers of the system calls on
  the random device.
\<close>

section \<open>The random device\<close>

text \<open>One answer of \<open>read\<close>: some bytes (none at the end of the file), an interruption, an error.\<close>

datatype sys_read = Got bytes | Interrupted | Failed

fun try_read :: "sys_read list \<Rightarrow> nat \<Rightarrow> bytes \<Rightarrow> bytes option" where
  "try_read answers missing acc =
     (if missing = 0 then Some acc
      else
        (case answers of
           [] \<Rightarrow> None
         | Interrupted # answers' \<Rightarrow> try_read answers' missing acc
         | Failed # answers' \<Rightarrow> None
         | Got b # answers' \<Rightarrow>
             let part = take missing b
             in if part = [] then None
                else try_read answers' (missing - length part) (acc @ part)))"

declare try_read.simps [simp del]

text \<open>\<open>close\<close> is called again as long as it is interrupted (\<open>None\<close>); the last answer is returned.\<close>

fun try_close :: "int option list \<Rightarrow> int" where
  "try_close [] = -1"
| "try_close (None # answers) = try_close answers"
| "try_close (Some ret # answers) = ret"

record random_device =
  rd_open :: bool
  rd_reads :: "sys_read list"
  rd_close :: "int option list"

section \<open>bcrypt.c\<close>

definition BCRYPT_HASHSIZE :: nat where "BCRYPT_HASHSIZE = 64"
definition RANDBYTES :: nat where "RANDBYTES = 16"

text \<open>The lengths are \<open>int\<close>; the differences are collected with \<open>|=\<close>.\<close>

definition timing_safe_strcmp :: "bytes \<Rightarrow> bytes \<Rightarrow> int" where
  "timing_safe_strcmp str1 str2 =
     (let len1 = to_int (int (length str1)); len2 = to_int (int (length str2))
      in if len1 \<noteq> len2 then 1
         else sint (fold (\<lambda>i ret. ret OR (ucast (str1 ! i XOR str2 ! i) :: u32)) [0 ..< nat len1] 0))"

text \<open>The return code and the salt when there is one.\<close>

definition bcrypt_gensalt :: "(bytes \<Rightarrow> int \<Rightarrow> bytes \<Rightarrow> nat \<Rightarrow> bytes option) \<Rightarrow> random_device \<Rightarrow> int \<Rightarrow>
    int \<times> bytes option" where
  "bcrypt_gensalt crypt_gensalt_rn dev factor =
     (if \<not> rd_open dev then (1, None)
      else
        (case try_read (rd_reads dev) RANDBYTES [] of
           None \<Rightarrow> (if try_close (rd_close dev) \<noteq> 0 then 4 else 2, None)
         | Some input \<Rightarrow>
             if try_close (rd_close dev) \<noteq> 0 then (3, None)
             else
               let workf = (if factor < 4 \<or> 31 < factor then 12 else factor)
               in (case crypt_gensalt_rn (chars ''$2a$'') workf input BCRYPT_HASHSIZE of
                     None \<Rightarrow> (5, None)
                   | Some salt \<Rightarrow> (0, Some salt))))"

definition bcrypt_hashpw :: "(bytes \<Rightarrow> bytes \<Rightarrow> nat \<Rightarrow> bytes option) \<Rightarrow> bytes \<Rightarrow> bytes \<Rightarrow> int \<times> bytes option" where
  "bcrypt_hashpw crypt_rn passwd salt =
     (case crypt_rn passwd salt BCRYPT_HASHSIZE of None \<Rightarrow> (1, None) | Some h \<Rightarrow> (0, Some h))"

definition bcrypt_checkpw :: "(bytes \<Rightarrow> bytes \<Rightarrow> nat \<Rightarrow> bytes option) \<Rightarrow> bytes \<Rightarrow> bytes \<Rightarrow> int" where
  "bcrypt_checkpw crypt_rn passwd hash =
     (case bcrypt_hashpw crypt_rn passwd hash of
        (_, None) \<Rightarrow> -1
      | (_, Some outhash) \<Rightarrow> timing_safe_strcmp hash outhash)"

section \<open>hash.c\<close>

definition BCRYPT_WORKFACTOR :: int where "BCRYPT_WORKFACTOR = 12"
definition HASH_HEX_SIZE :: nat where "HASH_HEX_SIZE = 61"

text \<open>
  The result is the caller's buffer, which keeps its old contents on every failure.
\<close>

definition hash_password :: "(bytes \<Rightarrow> int \<Rightarrow> bytes \<Rightarrow> nat \<Rightarrow> bytes option) \<Rightarrow> (bytes \<Rightarrow> bytes \<Rightarrow> nat \<Rightarrow> bytes option) \<Rightarrow>
    random_device \<Rightarrow> bytes option \<Rightarrow> nat \<Rightarrow> bytes \<Rightarrow> bytes" where
  "hash_password crypt_gensalt_rn crypt_rn dev password out_size out_old =
     (case password of
        None \<Rightarrow> out_old
      | Some pw \<Rightarrow>
          if out_size < HASH_HEX_SIZE then out_old
          else
            (case bcrypt_gensalt crypt_gensalt_rn dev BCRYPT_WORKFACTOR of
               (_, None) \<Rightarrow> out_old
             | (_, Some salt) \<Rightarrow>
                 (case bcrypt_hashpw crypt_rn pw salt of
                    (_, None) \<Rightarrow> out_old
                  | (_, Some hash) \<Rightarrow> take (out_size - 1) hash)))"

definition verify_password :: "(bytes \<Rightarrow> bytes \<Rightarrow> nat \<Rightarrow> bytes option) \<Rightarrow> bytes option \<Rightarrow> bytes option \<Rightarrow> int" where
  "verify_password crypt_rn password hash_hex =
     (case (password, hash_hex) of
        (Some pw, Some h) \<Rightarrow> (let rc = bcrypt_checkpw crypt_rn pw h in if rc = 0 then 0 else -1)
      | _ \<Rightarrow> -1)"

section \<open>Comparing\<close>

lemma or_zero: "x OR y = 0 \<longleftrightarrow> x = 0 \<and> y = (0 :: u32)"
  by (auto simp: bit_eq_iff bit_or_iff)

lemma widen_zero: "(ucast (b :: u8) :: u32) = 0 \<longleftrightarrow> b = 0"
proof
  assume "(ucast b :: u32) = 0"
  then have "(ucast (ucast b :: u32) :: u8) = 0" by simp
  moreover have "(ucast (ucast b :: u32) :: u8) = b" by (rule bit_word_eqI) (auto simp: bit_simps)
  ultimately show "b = 0" by simp
qed simp

lemma xor_zero: "x XOR y = 0 \<longleftrightarrow> x = (y :: u8)"
  by (auto simp: bit_eq_iff bit_xor_iff)

lemma or_fold_zero:
  "fold (\<lambda>i ret. ret OR (ucast (f i :: u8) :: u32)) is a = 0 \<longleftrightarrow> a = 0 \<and> (\<forall>i \<in> set is. f i = 0)"
  by (induction "is" arbitrary: a) (auto simp: or_zero widen_zero)

lemma timing_safe_equal:
  assumes "length a < 2 ^ 31" and "length b < 2 ^ 31"
  shows "timing_safe_strcmp a b = 0 \<longleftrightarrow> a = b"
proof -
  have l: "to_int (int (length a)) = int (length a)" "to_int (int (length b)) = int (length b)"
    using assms by (simp_all add: to_int_id)
  have z: "sint w = 0 \<longleftrightarrow> w = 0" for w :: u32 using signed_word_eqI [of w 0] by auto
  show ?thesis
  proof (cases "length a = length b")
    case True
    then have "timing_safe_strcmp a b = 0 \<longleftrightarrow> (\<forall>i < length a. a ! i = b ! i)"
      by (auto simp: timing_safe_strcmp_def l z or_fold_zero xor_zero)
    then show ?thesis using True by (auto simp: list_eq_iff_nth_eq)
  next
    case False
    then show ?thesis by (auto simp: timing_safe_strcmp_def l)
  qed
qed

text \<open>A password is accepted exactly when hashing it with the stored hash as salt gives the stored hash.\<close>

lemma verify_password_iff:
  assumes "length h < 2 ^ 31" and "\<And>x. crypt_rn pw h BCRYPT_HASHSIZE = Some x \<Longrightarrow> length x < 2 ^ 31"
  shows "verify_password crypt_rn (Some pw) (Some h) = 0 \<longleftrightarrow> crypt_rn pw h BCRYPT_HASHSIZE = Some h"
  using assms timing_safe_equal
  by (auto simp: verify_password_def bcrypt_checkpw_def bcrypt_hashpw_def split: option.split)

section \<open>What the server relies on\<close>

text \<open>
  The contract of the hashing library: a hash has 60 characters and, taken as the salt, gives itself
  again. Then \<open>hash_password\<close> leaves the buffer alone or fills it with a hash that accepts the
  password.
\<close>

locale password_library =
  fixes gensalt :: "bytes \<Rightarrow> int \<Rightarrow> bytes \<Rightarrow> nat \<Rightarrow> bytes option"
    and crypt :: "bytes \<Rightarrow> bytes \<Rightarrow> nat \<Rightarrow> bytes option"
  assumes crypt_again: "crypt pw s BCRYPT_HASHSIZE = Some h \<Longrightarrow> crypt pw h BCRYPT_HASHSIZE = Some h"
    and crypt_length: "crypt pw s BCRYPT_HASHSIZE = Some h \<Longrightarrow> length h = 60"
begin

lemma hash_accepts:
  assumes "crypt pw s BCRYPT_HASHSIZE = Some h"
  shows "verify_password crypt (Some pw) (Some h) = 0"
proof -
  have "crypt pw h BCRYPT_HASHSIZE = Some h" by (rule crypt_again [OF assms])
  then show ?thesis by (subst verify_password_iff) (auto simp: crypt_length [OF assms])
qed

lemma hash_or_old:
  "hash_password gensalt crypt dev (Some pw) n old = old \<or>
   verify_password crypt (Some pw) (Some (hash_password gensalt crypt dev (Some pw) n old)) = 0"
proof (cases "hash_password gensalt crypt dev (Some pw) n old = old")
  case False
  then obtain s h where h: "crypt pw s BCRYPT_HASHSIZE = Some h" "\<not> n < HASH_HEX_SIZE"
    "hash_password gensalt crypt dev (Some pw) n old = take (n - 1) h"
    by (auto simp: hash_password_def bcrypt_hashpw_def split: if_splits option.splits prod.splits)
  have "take (n - 1) h = h" using h(2) crypt_length [OF h(1)] by (simp add: HASH_HEX_SIZE_def)
  then show ?thesis using hash_accepts [OF h(1)] h(3) by simp
qed simp

end

end
