(* ===== verification/Sql_Tables.thy ===== *)
theory Sql_Tables
  imports Database
begin

text \<open>
  What SQLite documents for the statements on the tables \<open>sessions\<close> and \<open>users\<close> under the schema of
  \<open>db_initialize_schema\<close>, with foreign keys enforced as \<open>db_init\<close> asks: \<open>sqlite_tables\<close>, a predicate on
  the engine and a view of its databases. Any statement may fail, and then changes nothing; time goes
  on between any two statements. \<open>no_failures\<close> says in addition that no statement fails for want of
  memory, of a lock or of the disk.
\<close>

section \<open>A view of a database\<close>

text \<open>
  A value of type \<open>'db\<close> stands for the connection when its next statement runs: its contents, and the
  value \<open>datetime('now')\<close> has in that statement. A session is its user and its expiry; a user is the row
  the two queries select.
\<close>

record ('db, 'c) tables =
  tb_content :: "'db \<Rightarrow> 'c"
  tb_clock :: "'db \<Rightarrow> int"
  tb_sessions :: "'c \<Rightarrow> bytes \<Rightarrow> (int \<times> int) option"
  tb_users :: "'c \<Rightarrow> sql_cell list set"

abbreviation sessions :: "('db, 'c) tables \<Rightarrow> 'db \<Rightarrow> bytes \<Rightarrow> (int \<times> int) option" where
  "sessions T db \<equiv> tb_sessions T (tb_content T db)"

abbreviation users :: "('db, 'c) tables \<Rightarrow> 'db \<Rightarrow> sql_cell list set" where
  "users T db \<equiv> tb_users T (tb_content T db)"

text \<open>The user of a session that has not expired.\<close>

definition live :: "('db, 'c) tables \<Rightarrow> 'db \<Rightarrow> bytes \<Rightarrow> int option" where
  "live T db s = (case sessions T db s of Some (u, e) \<Rightarrow> if tb_clock T db < e then Some u else None | None \<Rightarrow> None)"

lemma live_Some: "live T db s = Some u \<longleftrightarrow> (\<exists>e. sessions T db s = Some (u, e) \<and> tb_clock T db < e)"
  by (auto simp: live_def split: option.splits)

lemma live_None: "live T db s = None \<longleftrightarrow> (\<forall>u e. sessions T db s = Some (u, e) \<longrightarrow> e \<le> tb_clock T db)"
  by (auto simp: live_def not_less split: option.splits)

section \<open>What the statements do\<close>

text \<open>A query whose result, if it has one, is a row with \<open>P\<close>.\<close>

definition selects :: "'db sqlite \<Rightarrow> ('db, 'c) tables \<Rightarrow> bytes \<Rightarrow> sql_value list \<Rightarrow> ('db \<Rightarrow> sql_cell list \<Rightarrow> bool) \<Rightarrow> bool" where
  "selects sq T sql vals P \<longleftrightarrow>
     (\<forall>db. case sq_step sq db sql vals of
        (rc, row, db') \<Rightarrow> rc \<noteq> SQLITE_OK \<and> tb_content T db' = tb_content T db \<and> tb_clock T db \<le> tb_clock T db' \<and>
          (rc = SQLITE_ROW \<longrightarrow> P db row) \<and> (rc = SQLITE_DONE \<longrightarrow> (\<forall>row. \<not> P db row)))"

text \<open>A change that is carried out only under \<open>Q\<close>, and then relates the contents by \<open>E\<close>.\<close>

definition changes :: "'db sqlite \<Rightarrow> ('db, 'c) tables \<Rightarrow> bytes \<Rightarrow> sql_value list \<Rightarrow> ('db \<Rightarrow> bool) \<Rightarrow> ('db \<Rightarrow> 'db \<Rightarrow> bool) \<Rightarrow> bool" where
  "changes sq T sql vals Q E \<longleftrightarrow>
     (\<forall>db. case sq_step sq db sql vals of
        (rc, row, db') \<Rightarrow> rc \<noteq> SQLITE_OK \<and> tb_clock T db \<le> tb_clock T db' \<and>
          (if rc = SQLITE_DONE then Q db \<and> E db db' else tb_content T db' = tb_content T db))"

text \<open>The statement without parameters that removes what has expired.\<close>

definition sweeps :: "'db sqlite \<Rightarrow> ('db, 'c) tables \<Rightarrow> bool" where
  "sweeps sq T \<longleftrightarrow>
     (\<forall>db. case sq_exec sq db sql_delete_expired of
        (rc, db') \<Rightarrow> tb_clock T db \<le> tb_clock T db' \<and>
          (if rc = SQLITE_OK
           then users T db' = users T db \<and> (\<forall>s. sessions T db' s = (if live T db s = None then None else sessions T db s))
           else tb_content T db' = tb_content T db))"

text \<open>
  The statements: \<open>session_id\<close>, \<open>users.id\<close> and \<open>username\<close> are unique, and a session needs its user. The
  time to live is given as the text \<open>+n seconds\<close>.
\<close>

definition sqlite_tables :: "'db sqlite \<Rightarrow> ('db, 'c) tables \<Rightarrow> bool" where
  "sqlite_tables sq T \<longleftrightarrow>
     (\<forall>s. selects sq T sql_get_session [SqlText s]
        (\<lambda>db row. \<exists>u e. sessions T db s = Some (u, e) \<and> tb_clock T db < e \<and> cell_int (row ! 1) = u)) \<and>
     (\<forall>n. selects sq T sql_user_by_name [SqlText n] (\<lambda>db row. row \<in> users T db \<and> cell_text (row ! 1) = Some n)) \<and>
     (\<forall>i. selects sq T sql_user_by_id [SqlInt i] (\<lambda>db row. row \<in> users T db \<and> cell_int (row ! 0) = i)) \<and>
     (\<forall>u s ttl. 0 \<le> ttl \<and> ttl < 2 ^ 31 \<longrightarrow>
        changes sq T sql_insert_session [SqlInt u, SqlText s, SqlText (ttl_text ttl)]
          (\<lambda>db. sessions T db s = None \<and> (\<exists>row \<in> users T db. cell_int (row ! 0) = u))
          (\<lambda>db db'. users T db' = users T db \<and> sessions T db' = (sessions T db)(s \<mapsto> (u, tb_clock T db + ttl)))) \<and>
     (\<forall>s. changes sq T sql_delete_session [SqlText s] (\<lambda>db. True)
        (\<lambda>db db'. users T db' = users T db \<and> sessions T db' = (sessions T db)(s := None))) \<and>
     sweeps sq T \<and>
     (\<forall>c. \<forall>r \<in> tb_users T c. \<forall>r' \<in> tb_users T c.
        cell_int (r ! 0) = cell_int (r' ! 0) \<or> cell_text (r ! 1) = cell_text (r' ! 1) \<longrightarrow> r = r')"

definition no_failures :: "'db sqlite \<Rightarrow> ('db, 'c) tables \<Rightarrow> bool" where
  "no_failures sq T \<longleftrightarrow>
     (\<forall>db. \<forall>sql \<in> {sql_get_session, sql_user_by_name, sql_user_by_id, sql_insert_session, sql_delete_session}.
        sq_prepare sq db sql = SQLITE_OK) \<and>
     (\<forall>db s. fst (sq_step sq db sql_get_session [SqlText s]) \<in> {SQLITE_ROW, SQLITE_DONE}) \<and>
     (\<forall>db n. fst (sq_step sq db sql_user_by_name [SqlText n]) \<in> {SQLITE_ROW, SQLITE_DONE}) \<and>
     (\<forall>db i. fst (sq_step sq db sql_user_by_id [SqlInt i]) \<in> {SQLITE_ROW, SQLITE_DONE}) \<and>
     (\<forall>db u s t. sessions T db s = None \<and> (\<exists>row \<in> users T db. cell_int (row ! 0) = u) \<longrightarrow>
        fst (sq_step sq db sql_insert_session [SqlInt u, SqlText s, SqlText (ttl_text t)]) = SQLITE_DONE) \<and>
     (\<forall>db s. fst (sq_step sq db sql_delete_session [SqlText s]) = SQLITE_DONE) \<and>
     (\<forall>db. fst (sq_exec sq db sql_delete_expired) = SQLITE_OK)"

lemma tables_unique:
  "sqlite_tables sq T \<Longrightarrow> r \<in> tb_users T c \<Longrightarrow> r' \<in> tb_users T c \<Longrightarrow>
     cell_int (r ! 0) = cell_int (r' ! 0) \<or> cell_text (r ! 1) = cell_text (r' ! 1) \<Longrightarrow> r = r'"
  unfolding sqlite_tables_def by blast

section \<open>The functions of the program on it\<close>

text \<open>Queries and changes through \<open>run_query\<close> and \<open>run_update\<close>.\<close>

lemma run_query_selects:
  assumes "selects sq T sql vals P" and "run_query sq db sql vals = (rc, row, db')"
  shows "tb_content T db' = tb_content T db" and "tb_clock T db \<le> tb_clock T db'"
    and "rc = SQLITE_OK \<Longrightarrow> \<exists>r. row = Some r \<and> P db r"
    and "sq_prepare sq db sql = SQLITE_OK \<Longrightarrow> fst (sq_step sq db sql vals) \<in> {SQLITE_ROW, SQLITE_DONE} \<Longrightarrow>
      P db r \<Longrightarrow> rc = SQLITE_OK"
  using assms(2) assms(1) [unfolded selects_def, rule_format, of db]
  by (auto simp: run_query_def Let_def sqlite_codes split: if_splits prod.splits)

lemma run_update_changes:
  assumes "changes sq T sql vals Q E" and "run_update sq db sql vals = (rc, db')"
  shows "tb_clock T db \<le> tb_clock T db'"
    and "rc = SQLITE_OK \<Longrightarrow> Q db \<and> E db db'"
    and "rc \<noteq> SQLITE_OK \<Longrightarrow> tb_content T db' = tb_content T db"
    and "sq_prepare sq db sql = SQLITE_OK \<Longrightarrow> fst (sq_step sq db sql vals) = SQLITE_DONE \<Longrightarrow> rc = SQLITE_OK"
  using assms(2) assms(1) [unfolded changes_def, rule_format, of db]
  by (auto simp: run_update_def Let_def split: if_splits prod.splits)

lemma get_session_outcome:
  assumes "sqlite_tables sq T" and "db_get_session sq (Some db) (Some s) = (rc, se, ctx)"
  obtains d where "ctx = Some d" and "tb_content T d = tb_content T db" and "tb_clock T db \<le> tb_clock T d"
    and "rc = SQLITE_OK \<Longrightarrow> live T db s = Some (se_user_id (the se))"
    and "no_failures sq T \<Longrightarrow> live T db s \<noteq> None \<Longrightarrow> rc = SQLITE_OK"
proof -
  let ?P = "\<lambda>db row. \<exists>u e. sessions T db s = Some (u, e) \<and> tb_clock T db < e \<and> cell_int (row ! 1) = u"
  have sel: "selects sq T sql_get_session [SqlText s] ?P" using assms(1) by (simp add: sqlite_tables_def)
  obtain row d where run: "run_query sq db sql_get_session [SqlText s] = (rc, row, d)" and ctx: "ctx = Some d"
    and se: "se = map_option session_of_row row"
    using assms(2) by (auto simp: db_get_session_def split: prod.splits)
  note q = run_query_selects [OF sel run]
  show thesis
  proof (rule that [OF ctx q(1,2)])
    assume "rc = SQLITE_OK"
    from q(3) [OF this] show "live T db s = Some (se_user_id (the se))"
      by (auto simp: se live_Some session_of_row_def)
  next
    assume n: "no_failures sq T" and l: "live T db s \<noteq> None"
    obtain u e where "sessions T db s = Some (u, e)" "tb_clock T db < e" using l by (auto simp: live_Some)
    then have "?P db [undefined, \<lparr>cell_int = u, cell_text = None\<rparr>]" by simp
    note here = this
    from n show "rc = SQLITE_OK" by (intro q(4) [OF _ _ here]) (simp_all add: no_failures_def)
  qed
qed

lemma delete_session_outcome:
  assumes "sqlite_tables sq T" and "db_delete_session sq (Some db) (Some s) = (rc, ctx)"
  obtains d where "ctx = Some d" and "tb_clock T db \<le> tb_clock T d"
    and "rc = SQLITE_OK \<Longrightarrow> users T d = users T db \<and> sessions T d = (sessions T db)(s := None)"
    and "rc \<noteq> SQLITE_OK \<Longrightarrow> tb_content T d = tb_content T db" and "no_failures sq T \<Longrightarrow> rc = SQLITE_OK"
proof -
  have ch: "changes sq T sql_delete_session [SqlText s] (\<lambda>db. True)
      (\<lambda>db db'. users T db' = users T db \<and> sessions T db' = (sessions T db)(s := None))"
    using assms(1) by (simp add: sqlite_tables_def)
  obtain d where run: "run_update sq db sql_delete_session [SqlText s] = (rc, d)" and ctx: "ctx = Some d"
    using assms(2) by (auto simp: db_delete_session_def apsnd_def map_prod_def split: prod.splits)
  note u = run_update_changes [OF ch run]
  show thesis by (rule that [OF ctx u(1) _ u(3)]) (use u(2,4) in \<open>simp_all add: no_failures_def\<close>)
qed

lemma create_session_outcome:
  assumes "sqlite_tables sq T" and "db_create_session sq (Some db) u (Some s) ttl = (rc, ctx)" and "0 \<le> ttl" and "ttl < 2 ^ 31"
  obtains d where "ctx = Some d" and "tb_clock T db \<le> tb_clock T d"
    and "rc = SQLITE_OK \<Longrightarrow> sessions T db s = None \<and> (\<exists>row \<in> users T db. cell_int (row ! 0) = u) \<and> users T d = users T db \<and>
      sessions T d = (sessions T db)(s \<mapsto> (u, tb_clock T db + ttl))"
    and "rc \<noteq> SQLITE_OK \<Longrightarrow> tb_content T d = tb_content T db"
    and "no_failures sq T \<Longrightarrow> sessions T db s = None \<Longrightarrow> \<exists>row \<in> users T db. cell_int (row ! 0) = u \<Longrightarrow> rc = SQLITE_OK"
proof -
  have ch: "changes sq T sql_insert_session [SqlInt u, SqlText s, SqlText (ttl_text ttl)]
      (\<lambda>db. sessions T db s = None \<and> (\<exists>row \<in> users T db. cell_int (row ! 0) = u))
      (\<lambda>db db'. users T db' = users T db \<and> sessions T db' = (sessions T db)(s \<mapsto> (u, tb_clock T db + ttl)))"
    using assms(1,3,4) by (simp add: sqlite_tables_def)
  obtain d where run: "run_update sq db sql_insert_session [SqlInt u, SqlText s, SqlText (ttl_text ttl)] = (rc, d)"
    and ctx: "ctx = Some d"
    using assms(2) by (auto simp: db_create_session_def apsnd_def map_prod_def split: prod.splits)
  note u = run_update_changes [OF ch run]
  show thesis by (rule that [OF ctx u(1) _ u(3)]) (use u(2,4) in \<open>auto simp: no_failures_def\<close>)
qed

lemma delete_expired_outcome:
  assumes "sqlite_tables sq T" and "db_delete_expired_sessions sq (Some db) = (rc, ctx)"
  obtains d where "ctx = Some d" and "tb_clock T db \<le> tb_clock T d" and "users T d = users T db"
    and "\<And>s. sessions T d s = sessions T db s \<or> (\<exists>u e. sessions T db s = Some (u, e) \<and> e \<le> tb_clock T db \<and> sessions T d s = None)"
    and "no_failures sq T \<Longrightarrow> rc = SQLITE_OK"
proof -
  obtain d where run: "sq_exec sq db sql_delete_expired = (rc, d)" and ctx: "ctx = Some d"
    using assms(2) by (auto simp: db_delete_expired_sessions_def exec_sql_def apsnd_def map_prod_def split: prod.splits)
  have "sweeps sq T" using assms(1) by (simp add: sqlite_tables_def)
  from this [unfolded sweeps_def, rule_format, of db]
  have ex: "tb_clock T db \<le> tb_clock T d"
    "if rc = SQLITE_OK
     then users T d = users T db \<and> (\<forall>s. sessions T d s = (if live T db s = None then None else sessions T db s))
     else tb_content T d = tb_content T db"
    by (simp_all add: run)
  then have u: "users T d = users T db"
    and r: "sessions T d s = sessions T db s \<or> live T db s = None \<and> sessions T d s = None" for s
    by (simp_all split: if_splits)
  have "sessions T d s = sessions T db s \<or> (\<exists>u e. sessions T db s = Some (u, e) \<and> e \<le> tb_clock T db \<and> sessions T d s = None)" for s
    using r [of s] by (cases "sessions T db s") (auto simp: live_None)
  moreover have "no_failures sq T \<Longrightarrow> rc = SQLITE_OK" by (simp add: no_failures_def) (metis fst_conv run)
  ultimately show thesis using that [OF ctx ex(1) u] by blast
qed

lemma get_user_outcome:
  assumes "sqlite_tables sq T"
  shows "db_get_user_by_username sq (Some db) (Some n) = (rc, user, ctx) \<Longrightarrow>
      \<exists>d. ctx = Some d \<and> tb_content T d = tb_content T db \<and> tb_clock T db \<le> tb_clock T d \<and>
        (no_failures sq T \<longrightarrow> row \<in> users T db \<and> cell_text (row ! 1) = Some n \<longrightarrow> rc = SQLITE_OK \<and> user = Some (user_of_row row))"
    and "db_get_user_by_id sq (Some db) i = (rc, user, ctx) \<Longrightarrow>
      \<exists>d. ctx = Some d \<and> tb_content T d = tb_content T db \<and> tb_clock T db \<le> tb_clock T d \<and>
        (no_failures sq T \<longrightarrow> row \<in> users T db \<and> cell_int (row ! 0) = i \<longrightarrow> rc = SQLITE_OK \<and> user = Some (user_of_row row))"
proof -
  have n: "selects sq T sql_user_by_name [SqlText n] (\<lambda>db row. row \<in> users T db \<and> cell_text (row ! 1) = Some n)"
    and i: "selects sq T sql_user_by_id [SqlInt i] (\<lambda>db row. row \<in> users T db \<and> cell_int (row ! 0) = i)"
    using assms by (simp_all add: sqlite_tables_def)
  show "\<exists>d. ctx = Some d \<and> tb_content T d = tb_content T db \<and> tb_clock T db \<le> tb_clock T d \<and>
        (no_failures sq T \<longrightarrow> row \<in> users T db \<and> cell_text (row ! 1) = Some n \<longrightarrow> rc = SQLITE_OK \<and> user = Some (user_of_row row))"
    if get: "db_get_user_by_username sq (Some db) (Some n) = (rc, user, ctx)"
  proof -
    obtain r d where run: "run_query sq db sql_user_by_name [SqlText n] = (rc, r, d)" and "ctx = Some d" "user = map_option user_of_row r"
      using get by (auto simp: db_get_user_by_username_def split: prod.splits)
    with run_query_selects(1-3) [OF n run] run_query_selects(4) [OF n run, of row] show ?thesis
      using tables_unique [OF assms, of row "tb_content T db"] by (fastforce simp: no_failures_def)
  qed
  show "\<exists>d. ctx = Some d \<and> tb_content T d = tb_content T db \<and> tb_clock T db \<le> tb_clock T d \<and>
        (no_failures sq T \<longrightarrow> row \<in> users T db \<and> cell_int (row ! 0) = i \<longrightarrow> rc = SQLITE_OK \<and> user = Some (user_of_row row))"
    if get: "db_get_user_by_id sq (Some db) i = (rc, user, ctx)"
  proof -
    obtain r d where run: "run_query sq db sql_user_by_id [SqlInt i] = (rc, r, d)" and "ctx = Some d" "user = map_option user_of_row r"
      using get by (auto simp: db_get_user_by_id_def split: prod.splits)
    with run_query_selects(1-3) [OF i run] run_query_selects(4) [OF i run, of row] show ?thesis
      using tables_unique [OF assms, of row "tb_content T db"] by (fastforce simp: no_failures_def)
  qed
qed

end
