(* ===== verification/Session.thy ===== *)
theory Session
  imports Password Sql_Tables Http_Request
begin

text \<open>
  \<open>src/auth/session.c\<close>: session identifiers, login, validation, logout, and how a request carries
  its session. What the SQL engine does with the statements on sessions and users is the hypothesis
  \<open>sqlite_tables\<close> of \<open>Sql_Tables\<close>, which a small engine in memory is shown to keep.
\<close>

section \<open>Identifiers\<close>

definition SESSION_ID_LEN :: nat where "SESSION_ID_LEN = 64"
definition SESSION_TTL_SECONDS :: int where "SESSION_TTL_SECONDS = 1800"

text \<open>\<open>urandom\<close> is what reading the device gives, \<open>None\<close> when it cannot be opened.\<close>

definition read_random :: "bytes option \<Rightarrow> nat \<Rightarrow> bytes option" where
  "read_random urandom len =
     (case urandom of
        None \<Rightarrow> None
      | Some b \<Rightarrow> let r = take len b in if length r = len then Some r else None)"

definition hex_chars :: bytes where "hex_chars = chars ''0123456789abcdef''"

definition session_generate_id :: "bytes option \<Rightarrow> nat \<Rightarrow> bytes option" where
  "session_generate_id urandom out_size =
     (if out_size < SESSION_ID_LEN + 1 then None
      else
        (case read_random urandom (SESSION_ID_LEN div 2) of
           None \<Rightarrow> None
         | Some bs \<Rightarrow> Some (concat (map (\<lambda>b. [hex_chars ! unat (drop_bit 4 b AND 0xF),
                                            hex_chars ! unat (b AND 0xF)]) bs))))"

section \<open>Login, validation, logout\<close>

text \<open>The return code, the identifier written to \<open>out_session\<close>, and the context.\<close>

definition session_login :: "'db sqlite \<Rightarrow> (bytes \<Rightarrow> bytes \<Rightarrow> nat \<Rightarrow> bytes option) \<Rightarrow> bytes option \<Rightarrow>
    'db option \<Rightarrow> bytes option \<Rightarrow> bytes option \<Rightarrow> nat \<Rightarrow> int \<times> bytes option \<times> 'db option" where
  "session_login sq crypt_rn urandom ctx username password out_size =
     (if ctx = None \<or> username = None \<or> password = None then (-1, None, ctx)
      else
        (case db_get_user_by_username sq ctx username of
           (rc, user, ctx) \<Rightarrow>
             if rc \<noteq> SQLITE_OK then (-1, None, ctx)
             else if verify_password crypt_rn password (map_option us_password_hash user) \<noteq> 0 then (-1, None, ctx)
             else
               (case session_generate_id urandom out_size of
                  None \<Rightarrow> (-1, None, ctx)
                | Some sid \<Rightarrow>
                    let (rc, ctx) = db_create_session sq ctx (us_id (the user)) (Some sid) SESSION_TTL_SECONDS
                    in if rc \<noteq> SQLITE_OK then (-1, Some sid, ctx) else (0, Some sid, ctx))))"

text \<open>The return code, the user for \<open>0\<close>, and the context.\<close>

definition session_validate_and_extend :: "'db sqlite \<Rightarrow> 'db option \<Rightarrow> bytes option \<Rightarrow> int \<Rightarrow>
    int \<times> int option \<times> 'db option" where
  "session_validate_and_extend sq ctx session_id ttl_seconds =
     (if ctx = None \<or> session_id = None then (-1, None, ctx)
      else
        (case db_get_session sq ctx session_id of
           (rc, session, ctx) \<Rightarrow>
             if rc \<noteq> SQLITE_OK then (-1, None, ctx)
             else
               (case db_delete_expired_sessions sq ctx of
                  (rc, ctx) \<Rightarrow>
                    if rc \<noteq> SQLITE_OK then (-1, None, ctx)
                    else
                      let (_, ctx) = db_delete_session sq ctx session_id;
                          (rc, ctx) = db_create_session sq ctx (se_user_id (the session)) session_id ttl_seconds
                      in if rc \<noteq> SQLITE_OK then (-1, None, ctx)
                         else (0, Some (se_user_id (the session)), ctx))))"

definition session_logout :: "'db sqlite \<Rightarrow> 'db option \<Rightarrow> bytes option \<Rightarrow> int \<times> 'db option" where
  "session_logout sq ctx session_id =
     (if ctx = None \<or> session_id = None then (-1, ctx) else db_delete_session sq ctx session_id)"

section \<open>The session of a request\<close>

definition bearer_prefix :: bytes where "bearer_prefix = chars ''Bearer ''"

definition extract_bearer :: "bytes \<Rightarrow> nat \<Rightarrow> bytes option" where
  "extract_bearer auth out_size =
     (let prefix_len = length bearer_prefix
      in if \<not> strncaseeq auth bearer_prefix prefix_len then None
         else
           let token = drop prefix_len auth
           in if out_size \<le> length token then None else Some token)"

function extract_cookie :: "bytes \<Rightarrow> nat \<Rightarrow> bytes option" where
  "extract_cookie p out_size =
     (if p = [] then None
      else
        let p = dropWhile (\<lambda>b. b = 32 \<or> b = 9 \<or> b = 59) p
        in if strncaseeq p (chars ''SID='') 4 then
             let val = takeWhile (\<lambda>b. b \<noteq> 59) (drop 4 p)
             in if out_size \<le> length val then None else Some val
           else
             (case strchr p 59 of None \<Rightarrow> None | Some rest \<Rightarrow> extract_cookie (tl rest) out_size))"
  by pat_completeness auto
termination
proof (relation "measure (\<lambda>(p, n). length p)")
  fix p q rest :: bytes and n :: nat
  assume p: "p \<noteq> []" and q: "q = dropWhile (\<lambda>b. b = 32 \<or> b = 9 \<or> b = 59) p" and r: "strchr q 59 = Some rest"
  have "length rest \<le> length q" "rest \<noteq> []"
    using strchr_SomeD [OF r] by (metis le_add2 length_append) (rule strchr_SomeD [OF r])
  moreover have "length q \<le> length p" unfolding q by (rule length_dropWhile_le)
  ultimately show "((tl rest, n), p, n) \<in> measure (\<lambda>(p, n). length p)" by (cases rest) auto
qed simp

declare extract_cookie.simps [simp del]

definition session_extract_from_headers :: "http_request \<Rightarrow> nat \<Rightarrow> bytes option" where
  "session_extract_from_headers req out_size =
     (if out_size = 0 then None
      else
        (case Option.bind (http_get_header req (chars ''authorization'')) (\<lambda>auth. extract_bearer auth out_size) of
           Some s \<Rightarrow> Some s
         | None \<Rightarrow> Option.bind (http_get_header req (chars ''cookie'')) (\<lambda>cookie. extract_cookie cookie out_size)))"

section \<open>What validation does to the table\<close>

lemma validate_outcome:
  assumes T: "sqlite_tables sq T" and ttl: "0 \<le> ttl" "ttl < 2 ^ 31"
    and run: "session_validate_and_extend sq (Some db) (Some s) ttl = (rc, user, ctx)"
  shows "\<exists>d. ctx = Some d \<and> tb_clock T db \<le> tb_clock T d \<and> users T d = users T db \<and>
     (rc = 0 \<longrightarrow> (\<exists>u t. user = Some u \<and> live T db s = Some u \<and> tb_clock T db \<le> t \<and> t \<le> tb_clock T d \<and>
        sessions T d s = Some (u, t + ttl))) \<and>
     (rc \<noteq> 0 \<longrightarrow> rc = -1 \<and> user = None \<and> sessions T d s \<in> {sessions T db s, None}) \<and>
     (live T db s = None \<longrightarrow> rc = -1 \<and> tb_content T d = tb_content T db) \<and>
     (\<forall>u. no_failures sq T \<and> live T db s = Some u \<and> (\<exists>row \<in> users T db. cell_int (row ! 0) = u) \<longrightarrow> rc = 0) \<and>
     (\<forall>s'. s' \<noteq> s \<longrightarrow> sessions T d s' = sessions T db s' \<or>
        (\<exists>u e. sessions T db s' = Some (u, e) \<and> e \<le> tb_clock T d \<and> sessions T d s' = None))"
proof -
  obtain rc0 se c0 where g: "db_get_session sq (Some db) (Some s) = (rc0, se, c0)" by (metis prod_cases3)
  from get_session_outcome [OF T g] obtain d0 where c0: "c0 = Some d0" "tb_content T d0 = tb_content T db"
    "tb_clock T db \<le> tb_clock T d0" and ok0: "rc0 = SQLITE_OK \<Longrightarrow> live T db s = Some (se_user_id (the se))"
    and up0: "no_failures sq T \<Longrightarrow> live T db s \<noteq> None \<Longrightarrow> rc0 = SQLITE_OK" by blast
  show ?thesis
  proof (cases "rc0 = SQLITE_OK")
    case False
    then have "rc = -1" "user = None" "ctx = Some d0" using run g c0 by (simp_all add: session_validate_and_extend_def)
    with c0 up0 False show ?thesis by auto
  next
    case True
    define u where "u = se_user_id (the se)"
    have l: "live T db s = Some u" using ok0 [OF True] by (simp add: u_def)
    obtain rc1 c1 where x: "db_delete_expired_sessions sq (Some d0) = (rc1, c1)" by fastforce
    from delete_expired_outcome [OF T x] obtain d1 where c1: "c1 = Some d1" "tb_clock T d0 \<le> tb_clock T d1" "users T d1 = users T d0"
      and s1: "\<And>s. sessions T d1 s = sessions T d0 s \<or>
        (\<exists>u e. sessions T d0 s = Some (u, e) \<and> e \<le> tb_clock T d0 \<and> sessions T d1 s = None)"
      and up1: "no_failures sq T \<Longrightarrow> rc1 = SQLITE_OK" by blast
    have s1': "sessions T d1 s' = sessions T db s' \<or> (\<exists>u e. sessions T db s' = Some (u, e) \<and> e \<le> c \<and> sessions T d1 s' = None)"
      if "tb_clock T d1 \<le> c" for s' c
      using s1 [of s'] c0 c1 that by fastforce
    show ?thesis
    proof (cases "rc1 = SQLITE_OK")
      case False
      then have r: "rc = -1" "user = None" "ctx = Some d1"
        using run g c0 c1 x True by (simp_all add: session_validate_and_extend_def)
      with c0 c1 l up1 False s1' [OF order_refl] show ?thesis by fastforce
    next
      case rc1: True
      obtain rc2 c2 where y: "db_delete_session sq (Some d1) (Some s) = (rc2, c2)" by fastforce
      from delete_session_outcome [OF T y] obtain d2 where c2: "c2 = Some d2" "tb_clock T d1 \<le> tb_clock T d2"
        and s2: "rc2 = SQLITE_OK \<Longrightarrow> users T d2 = users T d1 \<and> sessions T d2 = (sessions T d1)(s := None)"
          "rc2 \<noteq> SQLITE_OK \<Longrightarrow> tb_content T d2 = tb_content T d1"
        and up2: "no_failures sq T \<Longrightarrow> rc2 = SQLITE_OK" by blast
      have d2: "users T d2 = users T d1" "\<And>s'. s' \<noteq> s \<Longrightarrow> sessions T d2 s' = sessions T d1 s'"
        "sessions T d2 s \<in> {sessions T d1 s, None}"
        using s2 by (cases "rc2 = SQLITE_OK"; simp)+
      obtain rc3 c3 where z: "db_create_session sq (Some d2) u (Some s) ttl = (rc3, c3)" by fastforce
      from create_session_outcome [OF T z ttl] obtain d3 where c3: "c3 = Some d3" "tb_clock T d2 \<le> tb_clock T d3"
        and s3: "rc3 = SQLITE_OK \<Longrightarrow> sessions T d2 s = None \<and> (\<exists>row \<in> users T d2. cell_int (row ! 0) = u) \<and> users T d3 = users T d2 \<and>
            sessions T d3 = (sessions T d2)(s \<mapsto> (u, tb_clock T d2 + ttl))"
          "rc3 \<noteq> SQLITE_OK \<Longrightarrow> tb_content T d3 = tb_content T d2"
        and up3: "no_failures sq T \<Longrightarrow> sessions T d2 s = None \<Longrightarrow> \<exists>row \<in> users T d2. cell_int (row ! 0) = u \<Longrightarrow> rc3 = SQLITE_OK"
        by metis
      have r: "rc = (if rc3 = SQLITE_OK then 0 else -1)" "user = (if rc3 = SQLITE_OK then Some u else None)" "ctx = Some d3"
        using run g c0 c1 x True rc1 y c2 z c3 by (auto simp: session_validate_and_extend_def u_def split: if_splits)
      have clock: "tb_clock T db \<le> tb_clock T d2" "tb_clock T d1 \<le> tb_clock T d3" "tb_clock T db \<le> tb_clock T d3"
        using c0 c1 c2 c3 by auto
      have users: "users T d3 = users T db" using s3 d2(1) c1(3) c0(2) by (cases "rc3 = SQLITE_OK") auto
      have others: "sessions T d3 s' = sessions T db s' \<or>
          (\<exists>u e. sessions T db s' = Some (u, e) \<and> e \<le> tb_clock T d3 \<and> sessions T d3 s' = None)" if "s' \<noteq> s" for s'
        using s1' [OF clock(2), of s'] d2(2) [OF that] s3 that by (cases "rc3 = SQLITE_OK") auto
      have lost: "sessions T d3 s \<in> {sessions T db s, None}" if "rc3 \<noteq> SQLITE_OK"
        using s1' [OF clock(2), of s] d2(3) s3(2) [OF that] by auto
      have up: "rc3 = SQLITE_OK" if "no_failures sq T" "\<exists>row \<in> users T db. cell_int (row ! 0) = u"
        using that up2 s2(1) up3 d2(1) c1(3) c0(2) by simp
      have ex: "\<exists>t. tb_clock T db \<le> t \<and> t \<le> tb_clock T d3 \<and> sessions T d3 s = Some (u, t + ttl)" if "rc3 = SQLITE_OK"
        using s3(1) [OF that] clock(1) c3(2) by auto
      show ?thesis
        using r l clock(3) users others lost up ex by (intro exI [of _ d3]) (auto simp: sqlite_codes)
    qed
  qed
qed

lemma validate_live:
  assumes "sqlite_tables sq T" and "no_failures sq T" and "live T db s = Some u" and "row \<in> users T db" and "cell_int (row ! 0) = u"
    and "0 \<le> ttl" and "ttl < 2 ^ 31"
  obtains d t where "session_validate_and_extend sq (Some db) (Some s) ttl = (0, Some u, Some d)"
    and "users T d = users T db" and "tb_clock T db \<le> t" and "t \<le> tb_clock T d" and "sessions T d s = Some (u, t + ttl)"
proof -
  obtain rc user ctx where run: "session_validate_and_extend sq (Some db) (Some s) ttl = (rc, user, ctx)" by (metis prod_cases3)
  from validate_outcome [OF assms(1,6,7) run] assms(2-5) show thesis
    by (metis option.inject that run)
qed

lemma validate_dead:
  assumes "sqlite_tables sq T" and "live T db s = None"
  obtains d where "session_validate_and_extend sq (Some db) (Some s) ttl = (-1, None, Some d)"
    and "tb_content T d = tb_content T db"
proof -
  obtain rc se c where g: "db_get_session sq (Some db) (Some s) = (rc, se, c)" by (metis prod_cases3)
  from get_session_outcome [OF assms(1) g] assms(2) obtain d where "c = Some d" "tb_content T d = tb_content T db" "rc \<noteq> SQLITE_OK"
    by (metis option.distinct(1))
  with g show thesis by (intro that [of d]) (simp_all add: session_validate_and_extend_def)
qed

section \<open>Cookies\<close>

text \<open>A cookie header: \<open>name=value\<close> pairs separated by a semicolon and a blank.\<close>

fun cookie_text :: "(bytes \<times> bytes) list \<Rightarrow> bytes" where
  "cookie_text [] = []"
| "cookie_text [(k, v)] = k @ [61] @ v"
| "cookie_text ((k, v) # cs) = k @ [61] @ v @ [59, 32] @ cookie_text cs"

definition cookie_ok :: "bytes \<times> bytes \<Rightarrow> bool" where
  "cookie_ok c \<longleftrightarrow> fst c \<noteq> [] \<and> hd (fst c) \<notin> {32, 9} \<and> 61 \<notin> set (fst c) \<and> 59 \<notin> set (fst c) \<and> 59 \<notin> set (snd c)"

definition SID :: bytes where "SID = chars ''SID''"

lemma sid_prefix:
  assumes "61 \<notin> set k"
  shows "strncaseeq (k @ 61 # r) (chars ''SID='') 4 \<longleftrightarrow> strcaseeq k SID"
proof -
  have t: "tolower 61 = 61" by (simp add: tolower_def)
  have neq: "tolower b \<noteq> 61" if "b \<in> set k" for b using that assms tolower_other [of 61 b] by auto
  have sid: "map tolower (chars ''SID='') = [115, 105, 100, 61]" "map tolower SID = [115, 105, 100]"
    by (simp_all add: chars_def SID_def tolower_def)
  consider "k = []" | a where "k = [a]" | a b where "k = [a, b]" | a b c where "k = [a, b, c]"
    | a b c d l where "k = a # b # c # d # l"
    by (metis list.exhaust)
  then show ?thesis
    by cases (use neq t sid in \<open>auto simp: strncaseeq_def strcaseeq_def chars_def SID_def\<close>)
qed

lemma cookie_step:
  assumes "cookie_ok (k, v)" and "r = [] \<or> hd r = 59"
  shows "extract_cookie (k @ [61] @ v @ r) n =
    (if strcaseeq k SID then (if n \<le> length v then None else Some v)
     else case r of [] \<Rightarrow> None | _ # r' \<Rightarrow> extract_cookie r' n)"
proof -
  obtain b t where k: "k = b # t" "b \<noteq> 32" "b \<noteq> 9" "b \<noteq> 59"
    using assms(1) by (cases k) (auto simp: cookie_ok_def)
  have k4: "drop 4 (k @ 61 # v @ r) = v @ r" if "strcaseeq k SID"
  proof -
    have "length k = 3" using arg_cong [OF that [unfolded strcaseeq_def], of length] by (simp add: SID_def chars_def)
    then show ?thesis by simp
  qed
  have v: "takeWhile (\<lambda>b. b \<noteq> 59) (v @ r) = v"
    using assms by (cases r; subst takeWhile_append2) (auto simp: cookie_ok_def)
  have c: "strchr (k @ 61 # v @ r) 59 = (if r = [] then None else Some r)"
  proof (cases r)
    case Nil
    then show ?thesis using assms(1) by (auto simp: strchr_def cookie_ok_def)
  next
    case (Cons a r')
    then show ?thesis using assms strchr_Some [of 59 "k @ 61 # v" r'] by (auto simp: cookie_ok_def)
  qed
  have "k @ [61] @ v @ r \<noteq> []" and s: "dropWhile (\<lambda>b. b = 32 \<or> b = 9 \<or> b = 59) (k @ [61] @ v @ r) = k @ 61 # v @ r"
    using k by simp_all
  moreover have "61 \<notin> set k" using assms(1) by (simp add: cookie_ok_def)
  ultimately show ?thesis
    by (cases "strcaseeq k SID"; subst extract_cookie.simps)
      (simp_all add: Let_def sid_prefix k4 v c del: drop_append split: list.split)
qed

lemma cookie_blank: "extract_cookie (32 # p) n = extract_cookie p n" if "p \<noteq> []" and "hd p \<notin> {32, 9, 59}"
  using that by (subst (1 2) extract_cookie.simps) (cases p; simp)

text \<open>The value of the first cookie named \<open>SID\<close> in any case, if it fits.\<close>

lemma extract_cookie_text:
  "list_all cookie_ok cs \<Longrightarrow> extract_cookie (cookie_text cs) n =
     (case find (\<lambda>c. strcaseeq (fst c) SID) cs of
        None \<Rightarrow> None | Some (k, v) \<Rightarrow> if n \<le> length v then None else Some v)"
proof (induction cs rule: cookie_text.induct)
  case 1
  then show ?case by (simp add: extract_cookie.simps)
next
  case (2 k v)
  then show ?case using cookie_step [of k v "[]"] by simp
next
  case (3 k v c cs)
  obtain k' v' where c: "c = (k', v')" by fastforce
  have ne: "cookie_text (c # cs) \<noteq> [] \<and> hd (cookie_text (c # cs)) \<notin> {32, 9, 59}"
    using 3(2) c by (cases cs; cases k') (auto simp: cookie_ok_def)
  have "extract_cookie (cookie_text ((k, v) # c # cs)) n =
      (if strcaseeq k SID then (if n \<le> length v then None else Some v) else extract_cookie (cookie_text (c # cs)) n)"
    using cookie_step [of k v "59 # 32 # cookie_text (c # cs)"] cookie_blank [of "cookie_text (c # cs)"] ne 3(2) by simp
  then show ?case using 3 by auto
qed

section \<open>Generated identifiers\<close>

lemma length_id: "session_generate_id u n = Some s \<Longrightarrow> length s = 64 \<and> 65 \<le> n"
proof -
  have "length (concat (map (\<lambda>b. [f b, g b]) bs)) = 2 * length bs" for f g :: "u8 \<Rightarrow> u8" and bs
    by (induction bs) simp_all
  then show "session_generate_id u n = Some s \<Longrightarrow> length s = 64 \<and> 65 \<le> n"
    by (auto simp: session_generate_id_def read_random_def SESSION_ID_LEN_def Let_def
        split: option.splits if_splits)
qed

lemma hex_chars_nth: "hex_chars ! unat (w AND 0xF :: u8) \<in> set hex_chars"
proof -
  have m: "(0xF :: u8) = mask 4" by (simp add: mask_eq_exp_minus_1)
  have "unat (w AND 0xF) = take_bit 4 (unat w)"
    unfolding m take_bit_eq_mask [symmetric] by (simp add: unsigned_take_bit_eq)
  then have "unat (w AND 0xF) < length hex_chars"
    using take_bit_nat_less_exp [of 4 "unat w"] by (simp add: hex_chars_def chars_def)
  then show ?thesis by (rule nth_mem)
qed

lemma id_chars: "session_generate_id u n = Some s \<Longrightarrow> set s \<subseteq> set hex_chars"
  using hex_chars_nth by (auto simp: session_generate_id_def split: option.splits if_splits)

lemma generate_id:
  assumes "32 \<le> length bs" and "65 \<le> n"
  obtains s where "session_generate_id (Some bs) n = Some s"
  using assms by (auto simp: session_generate_id_def read_random_def SESSION_ID_LEN_def)

lemma id_cookie: "session_generate_id u n = Some s \<Longrightarrow> extract_cookie (cookie_text [(SID, s)]) 65 = Some s"
proof -
  assume g: "session_generate_id u n = Some s"
  have "59 \<notin> set s" using id_chars [OF g] by (auto simp: hex_chars_def chars_def)
  then have "cookie_ok (SID, s)" by (simp add: cookie_ok_def SID_def chars_def)
  then show ?thesis using extract_cookie_text [of "[(SID, s)]" 65] length_id [OF g] by simp
qed

section \<open>Logging in\<close>

lemma login_outcome:
  assumes "sqlite_tables sq T" and "no_failures sq T" and "row \<in> users T db" and "cell_text (row ! 1) = Some name"
    and "verify_password crypt_rn (Some pw) (Some (us_password_hash (user_of_row row))) = 0"
    and "session_generate_id urandom 65 = Some sid" and "sessions T db sid = None"
  obtains d e where "session_login sq crypt_rn urandom (Some db) (Some name) (Some pw) 65 = (0, Some sid, Some d)"
    and "users T d = users T db" and "sessions T d sid = Some (cell_int (row ! 0), e)"
    and "tb_clock T db + SESSION_TTL_SECONDS \<le> e"
proof -
  obtain rc u c where g: "db_get_user_by_username sq (Some db) (Some name) = (rc, u, c)" by (metis prod_cases3)
  from get_user_outcome(1) [OF assms(1) g, of row] assms(2-4) obtain d1 where d1: "c = Some d1" "rc = SQLITE_OK"
    "u = Some (user_of_row row)" "tb_content T d1 = tb_content T db" "tb_clock T db \<le> tb_clock T d1" by blast
  obtain rc' c' where n: "db_create_session sq (Some d1) (cell_int (row ! 0)) (Some sid) SESSION_TTL_SECONDS = (rc', c')" by fastforce
  have ttl: "0 \<le> SESSION_TTL_SECONDS" "SESSION_TTL_SECONDS < 2 ^ 31" by (simp_all add: SESSION_TTL_SECONDS_def)
  have known: "\<exists>row' \<in> users T d1. cell_int (row' ! 0) = cell_int (row ! 0)" using assms(3) d1(4) by auto
  from create_session_outcome [OF assms(1) n ttl] assms(2,7) known d1(4) obtain d where d: "c' = Some d" "rc' = SQLITE_OK"
    "users T d = users T d1" "sessions T d = (sessions T d1)(sid \<mapsto> (cell_int (row ! 0), tb_clock T d1 + SESSION_TTL_SECONDS))"
    by metis
  show thesis
    by (rule that [of d "tb_clock T d1 + SESSION_TTL_SECONDS"])
      (use assms(5,6) g d1 n d in \<open>simp_all add: session_login_def user_of_row_def\<close>)
qed

section \<open>A store\<close>

text \<open>
  A concrete engine for the examples: it keeps the sessions in memory, knows one user, and its clock
  moves on by a second with every statement.
\<close>

type_synonym memory_db = "(bytes \<Rightarrow> (int \<times> int) option) \<times> int"

definition kim_row :: "sql_cell list" where
  "kim_row = [\<lparr>cell_int = 5, cell_text = None\<rparr>, \<lparr>cell_int = 0, cell_text = Some (chars ''kim'')\<rparr>,
     \<lparr>cell_int = 0, cell_text = Some (chars ''Kim'')\<rparr>, \<lparr>cell_int = 0, cell_text = Some (chars ''saltpw'')\<rparr>,
     \<lparr>cell_int = 0, cell_text = Some (chars ''user'')\<rparr>, \<lparr>cell_int = 0, cell_text = None\<rparr>]"

definition memory_tables :: "(memory_db, bytes \<Rightarrow> (int \<times> int) option) tables" where
  "memory_tables = \<lparr>tb_content = fst, tb_clock = snd, tb_sessions = id, tb_users = \<lambda>_. {kim_row}\<rparr>"

definition memory_step :: "memory_db \<Rightarrow> bytes \<Rightarrow> sql_value list \<Rightarrow> int \<times> sql_cell list \<times> memory_db" where
  "memory_step db sql vals =
     (let rows = fst db; now = snd db; later = (rows, now + 1)
      in if sql = sql_get_session then
           (case vals of
              [SqlText s] \<Rightarrow>
                (case rows s of
                   Some (u, e) \<Rightarrow>
                     if now < e then (SQLITE_ROW, [\<lparr>cell_int = 0, cell_text = None\<rparr>, \<lparr>cell_int = u, cell_text = None\<rparr>], later)
                     else (SQLITE_DONE, [], later)
                 | None \<Rightarrow> (SQLITE_DONE, [], later))
            | _ \<Rightarrow> (SQLITE_MISUSE, [], later))
         else if sql = sql_insert_session then
           (case vals of
              [SqlInt u, SqlText s, SqlText t] \<Rightarrow>
                if rows s = None \<and> u = 5 then (SQLITE_DONE, [], (rows(s \<mapsto> (u, now + the (strtol 10 t))), now + 1))
                else (19, [], later)
            | _ \<Rightarrow> (SQLITE_MISUSE, [], later))
         else if sql = sql_delete_session then
           (case vals of [SqlText s] \<Rightarrow> (SQLITE_DONE, [], (rows(s := None), now + 1)) | _ \<Rightarrow> (SQLITE_MISUSE, [], later))
         else if sql = sql_user_by_name \<and> vals = [SqlText (chars ''kim'')] \<or> sql = sql_user_by_id \<and> vals = [SqlInt 5] then
           (SQLITE_ROW, kim_row, later)
         else (SQLITE_DONE, [], later))"

text \<open>A stand-in for the hash: the first four characters of the salt, then the password.\<close>

definition memory_crypt :: "bytes \<Rightarrow> bytes \<Rightarrow> nat \<Rightarrow> bytes option" where
  "memory_crypt pw salt n = Some (take 4 salt @ pw)"

definition memory_sqlite :: "memory_db sqlite" where
  "memory_sqlite = \<lparr>sq_open = (\<lambda>_. (SQLITE_OK, (Map.empty, 0))), sq_prepare = (\<lambda>_ _. SQLITE_OK),
     sq_step = memory_step, sq_rows = (\<lambda>_ _ _. ([], SQLITE_DONE)),
     sq_exec = (\<lambda>db _. (SQLITE_OK, (\<lambda>s. if live memory_tables db s = None then None else fst db s, snd db + 1))), sq_rowid = (\<lambda>_. 1)\<rparr>"

lemma sql_differ: "sql_insert_session \<noteq> sql_get_session" "sql_delete_session \<noteq> sql_get_session"
  "sql_delete_session \<noteq> sql_insert_session" "sql_user_by_name \<noteq> sql_insert_session"
  "sql_user_by_name \<noteq> sql_delete_session" "sql_user_by_name \<noteq> sql_get_session" "sql_user_by_id \<noteq> sql_get_session"
  "sql_user_by_id \<noteq> sql_insert_session" "sql_user_by_id \<noteq> sql_delete_session"
  by (simp_all add: sql_user_by_name_def sql_user_by_id_def sql_insert_session_def sql_get_session_def sql_delete_session_def chars_def quotes_def)

lemma ttl_value:
  assumes "0 \<le> ttl" and "ttl < 2 ^ 31"
  shows "strtol 10 (ttl_text ttl) = Some ttl"
proof -
  obtain n where n: "ttl = int n" "n < 2 ^ 31" using assms by (cases ttl) auto
  have "n < 10 ^ 10" using n(2) by simp
  from length_dec_nat [OF this] have "length (dec_nat n) \<le> 10" by simp
  then have "length (chars ''+'' @ dec_nat n @ chars '' seconds'') \<le> 31" by (simp add: chars_def)
  then have t: "ttl_text ttl = 43 # dec_nat n @ chars '' seconds''"
    unfolding ttl_text_def snprintf_def dec_int_def n(1) by (subst take_all) (simp_all add: chars_def)
  have "\<not> is_digit 10 32" using digit_not by simp
  then have "strto 10 (ttl_text ttl) = Some (False, n, chars '' seconds'')"
    unfolding t by (intro strto_plus) (simp add: chars_def)
  then show ?thesis using n by (simp add: strtol_def)
qed

lemma kim_row_cells: "cell_int (kim_row ! 0) = 5" "cell_text (kim_row ! 1) = Some (chars ''kim'')"
  "cell_text (kim_row ! Suc 0) = Some (chars ''kim'')"
  by (simp_all add: kim_row_def)

lemma memory_selects:
  "selects memory_sqlite memory_tables sql_get_session [SqlText s]
     (\<lambda>db row. \<exists>u e. sessions memory_tables db s = Some (u, e) \<and> tb_clock memory_tables db < e \<and> cell_int (row ! 1) = u)"
  "selects memory_sqlite memory_tables sql_user_by_name [SqlText n]
     (\<lambda>db row. row \<in> users memory_tables db \<and> cell_text (row ! 1) = Some n)"
  "selects memory_sqlite memory_tables sql_user_by_id [SqlInt i]
     (\<lambda>db row. row \<in> users memory_tables db \<and> cell_int (row ! 0) = i)"
  by (auto simp: selects_def memory_sqlite_def memory_step_def memory_tables_def sql_differ kim_row_cells sqlite_codes
      Let_def split: option.splits if_splits)

lemma memory_changes:
  "0 \<le> ttl \<Longrightarrow> ttl < 2 ^ 31 \<Longrightarrow>
     changes memory_sqlite memory_tables sql_insert_session [SqlInt u, SqlText s, SqlText (ttl_text ttl)]
       (\<lambda>db. sessions memory_tables db s = None \<and> (\<exists>row \<in> users memory_tables db. cell_int (row ! 0) = u))
       (\<lambda>db db'. users memory_tables db' = users memory_tables db \<and>
          sessions memory_tables db' = (sessions memory_tables db)(s \<mapsto> (u, tb_clock memory_tables db + ttl)))"
  "changes memory_sqlite memory_tables sql_delete_session [SqlText s] (\<lambda>db. True)
     (\<lambda>db db'. users memory_tables db' = users memory_tables db \<and> sessions memory_tables db' = (sessions memory_tables db)(s := None))"
  "sweeps memory_sqlite memory_tables"
  by (auto simp: changes_def sweeps_def memory_sqlite_def memory_step_def memory_tables_def sql_differ kim_row_cells ttl_value
      sqlite_codes Let_def split: if_splits)

lemma memory_sqlite_tables: "sqlite_tables memory_sqlite memory_tables"
  unfolding sqlite_tables_def using memory_selects memory_changes by (simp add: memory_tables_def)

lemma memory_no_failures: "no_failures memory_sqlite memory_tables"
  by (auto simp: no_failures_def memory_sqlite_def memory_step_def memory_tables_def sql_differ kim_row_cells sqlite_codes
      Let_def split: option.splits if_splits)

section \<open>Properties\<close>



text \<open>
  C24:: Validation, whatever statement fails and however time goes on: it succeeds only for a session that has
  not expired, with its user, and then the session expires the given time after a moment during the
  call; when it fails the session is as it was or gone. A session that is unknown or expired is refused
  and the database keeps its contents; without failures of the engine every other one whose user exists
  is accepted. Other sessions are as they were, or have expired and are gone.
\<close>

theorem session_validated:
  assumes "sqlite_tables sq T" and "0 \<le> ttl" and "ttl < 2 ^ 31"
    and "session_validate_and_extend sq (Some db) (Some s) ttl = (rc, user, ctx)"
  shows "\<exists>d. ctx = Some d \<and> tb_clock T db \<le> tb_clock T d \<and> users T d = users T db \<and>
     (rc = 0 \<longrightarrow> (\<exists>u t. user = Some u \<and> live T db s = Some u \<and> tb_clock T db \<le> t \<and> t \<le> tb_clock T d \<and>
        sessions T d s = Some (u, t + ttl))) \<and>
     (rc \<noteq> 0 \<longrightarrow> rc = -1 \<and> user = None \<and> sessions T d s \<in> {sessions T db s, None}) \<and>
     (live T db s = None \<longrightarrow> rc = -1 \<and> tb_content T d = tb_content T db) \<and>
     (\<forall>u. no_failures sq T \<and> live T db s = Some u \<and> (\<exists>row \<in> users T db. cell_int (row ! 0) = u) \<longrightarrow> rc = 0) \<and>
     (\<forall>s'. s' \<noteq> s \<longrightarrow> sessions T d s' = sessions T db s' \<or>
        (\<exists>u e. sessions T db s' = Some (u, e) \<and> e \<le> tb_clock T d \<and> sessions T d s' = None))"
  by (rule validate_outcome [OF assms])

theorem session_validated_witness:
  "\<exists>d e. session_validate_and_extend memory_sqlite (Some ([[7] \<mapsto> (5, 10), [8] \<mapsto> (5, 2)], 5)) (Some [7]) 100 = (0, Some 5, Some d) \<and>
     fst d [7] = Some (5, e) \<and> 105 \<le> e"
proof -
  let ?db = "([[7] \<mapsto> (5, 10), [8] \<mapsto> (5, 2)], 5) :: memory_db"
  obtain rc user ctx where run: "session_validate_and_extend memory_sqlite (Some ?db) (Some [7]) 100 = (rc, user, ctx)"
    by (metis prod_cases3)
  have "live memory_tables ?db [7] = Some 5" by (simp add: live_def memory_tables_def)
  then show ?thesis
    using session_validated [OF memory_sqlite_tables _ _ run] memory_no_failures
    by (auto simp: memory_tables_def kim_row_cells run)
qed

end
