(* ===== verification/Ws_Server.thy ===== *)
theory Ws_Server
  imports Ws_Handler Ws_Upgrade Session
begin

text \<open>
  A connection in \<open>src/server/websocket.c\<close>: \<open>websocket_handle_client\<close>, from the first bytes to the
  end of the frame loop. Requests that are no upgrade go to \<open>http_api_handle\<close>, which is an argument
  here; the last component of the result is what it did to the host. \<open>env k\<close> is the environment while the \<open>k\<close>-th frame is handled, \<open>env 0\<close> during the opening.
  Every path closes the socket; the socket options have no effect on the model.
\<close>

section \<open>What the handlers leave unread\<close>

definition inbox :: "ws_io \<Rightarrow> bytes \<times> int list" where
  "inbox io = (io_in io, io_reads io)"

lemma inbox_same: "inbox io' = inbox io \<longleftrightarrow> io_in io' = io_in io \<and> io_reads io' = io_reads io"
  by (auto simp: inbox_def)

named_theorems unread \<open>operations that read nothing from the transport\<close>

lemma write_all_inbox [unread]: "inbox (snd (write_all io b)) = inbox io"
  using write_all_keeps [of io b] by (metis prod.collapse inbox_same)

lemma send_frame_inbox [unread]: "inbox (snd (ws_send_frame io opc d n)) = inbox io"
  using write_all_inbox [of io "ws_frame_header opc n"]
    write_all_inbox [of "snd (write_all io (ws_frame_header opc n))" "take (unat n) d"]
  by (auto simp: ws_send_frame_def split_beta Let_def)

lemma send_text_inbox [unread]: "inbox (snd (send_text io t)) = inbox io"
  unfolding send_text_def by (rule send_frame_inbox)

lemma reply_inbox [unread]: "inbox (snd (reply io t s m)) = inbox io"
  unfolding reply_def send_json_response_def Let_def by (rule send_text_inbox)

lemma json_response_inbox [unread]: "inbox (snd (send_json_response io t s m)) = inbox io"
  unfolding send_json_response_def Let_def by (rule send_text_inbox)

lemma send_bounded_inbox [unread]: "inbox (snd (send_bounded io n t)) = inbox io"
  unfolding send_bounded_def by (simp add: unread )

lemma send_file_inbox [unread]: "inbox (snd (send_ws_file mem fs io path magic i)) = inbox io"
  unfolding send_ws_file_def by (simp add: Let_def unread )

lemma listing_inbox: "send_listing io n start item rows = Some r \<Longrightarrow> inbox (snd r) = inbox io"
  unfolding send_listing_def using reply_inbox send_text_inbox by (auto split: if_splits)

lemma handler_inbox [unread]:
  "inbox (fst (snd (handle_quic_send env io ctx cmd))) = inbox io"
  "inbox (fst (snd (handle_video_detail env io ctx cmd))) = inbox io"
  "inbox (fst (snd (handle_stream_start env io ctx cmd))) = inbox io"
  "inbox (fst (snd (handle_stream_chunk env io ctx cmd))) = inbox io"
  "inbox (fst (snd (handle_watch_get env io ctx cmd u))) = inbox io"
  "inbox (fst (snd (handle_watch_update env io ctx cmd u))) = inbox io"
  by (simp_all add: handle_quic_send_def handle_video_detail_def handle_stream_start_def handle_stream_chunk_def
      handle_watch_get_def handle_watch_update_def with_ctx_def unread Let_def split_beta 
      split: option.split)

lemma segment_inbox [unread]:
  "inbox (fst (snd (init_fallback env io ctx cmd))) = inbox io"
  "inbox (fst (snd (handle_ws_init env io ctx cmd))) = inbox io"
  "inbox (fst (snd (handle_ws_segment env io ctx cmd))) = inbox io"
proof -
  show fallback: "inbox (fst (snd (init_fallback env io ctx cmd))) = inbox io" for io
    by (simp add: init_fallback_def with_ctx_def unread Let_def split_beta )
  show "inbox (fst (snd (handle_ws_init env io ctx cmd))) = inbox io"
    "inbox (fst (snd (handle_ws_segment env io ctx cmd))) = inbox io"
    by (simp_all add: handle_ws_init_def handle_ws_segment_def with_ctx_def unread fallback Let_def split_beta
        )
qed

lemma list_handlers_inbox:
  "handle_list_videos env io ctx = Some r \<Longrightarrow> inbox (snd r) = inbox io"
  "handle_list_continue env io ctx u = Some r \<Longrightarrow> inbox (snd r) = inbox io"
  by (auto simp: handle_list_videos_def handle_list_continue_def unread 
      dest: listing_inbox split: option.splits if_splits)

lemma with_ctx_inbox: "inbox (fst (snd (with_ctx ctx r))) = inbox (snd r)"
  by (simp add: with_ctx_def)

lemma command_inbox:
  assumes "handle_command env io ctx cmd u = Some r"
  shows "inbox (fst (snd r)) = inbox io"
  using assms
  by (cases "cm_type cmd") (auto simp: handle_command_def handle_ping_def unread with_ctx_inbox 
      dest: list_handlers_inbox)

lemma text_frame_inbox:
  assumes "handle_text_frame env io ctx f u = Some r"
  shows "inbox (fst (snd r)) = inbox io"
  using assms
  by (auto simp: handle_text_frame_def unread with_ctx_inbox 
      dest: command_inbox split: option.splits if_splits)

section \<open>One frame\<close>

definition payload_bytes :: "ws_frame \<Rightarrow> bytes" where
  "payload_bytes frame = (case fr_payload frame of None \<Rightarrow> [] | Some d \<Rightarrow> d)"

definition send_back :: "ws_io \<Rightarrow> u8 \<Rightarrow> ws_frame \<Rightarrow> ws_io" where
  "send_back io opcode frame = snd (ws_send_frame io opcode (payload_bytes frame) (fr_payload_len frame))"

text \<open>
  One iteration after the frame has been read: whether the loop goes on, the connection and the
  context. A text frame whose reply could not be sent is sent back.
\<close>

definition serve_frame :: "'db ws_env \<Rightarrow> ws_io \<Rightarrow> 'db ws_context option \<Rightarrow> int \<Rightarrow> ws_frame \<Rightarrow>
    (bool \<times> ws_io \<times> 'db ws_context option) option" where
  "serve_frame env io ctx user frame =
     (if fr_opcode frame = 1 then
        map_option (\<lambda>(rc, io, ctx).
          (True, if rc \<noteq> 0 \<and> fr_payload frame \<noteq> None then send_back io 1 frame else io, ctx))
          (handle_text_frame env io ctx frame user)
      else if fr_opcode frame = 2 \<or> fr_opcode frame = 0 then
        Some (True, send_back io (if fr_opcode frame \<noteq> 0 then fr_opcode frame else 1) frame, ctx)
      else if fr_opcode frame = 8 then Some (False, send_back io 8 frame, ctx)
      else if fr_opcode frame = 9 then Some (True, send_back io 10 frame, ctx)
      else Some (False, snd (ws_send_frame io 8 [] 0), ctx))"

lemma send_back_inbox: "inbox (send_back io opc f) = inbox io"
  unfolding send_back_def by (rule send_frame_inbox)

lemma serve_frame_inbox:
  assumes "serve_frame env io ctx user f = Some r"
  shows "inbox (fst (snd r)) = inbox io"
  using assms
  by (auto simp: serve_frame_def send_back_inbox send_frame_inbox 
      dest: text_frame_inbox split: if_splits)

text \<open>
  Every frame takes at least two bytes. \<open>io_in\<close> is what the client sends up to the end of its
  connection, so the loop ends with it at the latest; how long that takes is up to the client, as in
  the code, where nothing but a close frame or the end of the connection ends the loop.
\<close>

lemma read_frame_shorter:
  assumes "ws_read_frame mem io = (Some f, io')"
  shows "length (io_in io') < length (io_in io)"
proof -
  have "2 \<le> length (io_in io) \<and> length (io_in io') \<le> length (io_in io) - 2"
    using read_frame_refines [OF assms]
    by (auto simp: parse_frame_def parse_len_def bind_eq_Some_conv take_exact_def split: if_splits
        dest!: arg_cong [of _ "io_in io'" length])
  then show ?thesis by auto
qed

section \<open>The frame loop\<close>

function frame_loop :: "(nat \<Rightarrow> 'db ws_env) \<Rightarrow> nat \<Rightarrow> ws_io \<Rightarrow> 'db ws_context option \<Rightarrow> int \<Rightarrow>
    (ws_io \<times> 'db ws_context option) option" where
  "frame_loop env k io ctx user =
     (case ws_read_frame (en_mem (env k)) io of
        (None, io1) \<Rightarrow> Some (io1, ctx)
      | (Some frame, io1) \<Rightarrow>
          (case serve_frame (env k) io1 ctx user frame of
             None \<Rightarrow> None
           | Some (go_on, io2, ctx) \<Rightarrow>
               if go_on then frame_loop env (Suc k) io2 ctx user else Some (io2, ctx)))"
  by pat_completeness auto
termination
proof (relation "measure (\<lambda>(env, k, io, ctx, user). length (io_in io))", goal_cases)
  case 1
  then show ?case by simp
next
  case (2 env k io ctx user a io1 frame r go_on b io2 ctx')
  then have "length (io_in io1) < length (io_in io)" using read_frame_shorter by metis
  moreover have "io_in io2 = io_in io1" using serve_frame_inbox [of "env k" io1 ctx user frame r] 2 by (auto simp: inbox_same)
  ultimately show ?case by simp
qed

declare frame_loop.simps [simp del]

section \<open>A client\<close>

definition ctx_db :: "'db ws_context option \<Rightarrow> 'db option" where
  "ctx_db ctx = Option.bind ctx wc_db"

text \<open>The user of the session the request carries, \<open>0\<close> when there is none.\<close>

definition session_user :: "'db sqlite \<Rightarrow> 'db ws_context option \<Rightarrow> http_request \<Rightarrow> int \<times> 'db ws_context option" where
  "session_user sq ctx request =
     (if ctx_db ctx = None then (0, ctx)
      else
        (case session_extract_from_headers request (SESSION_ID_LEN + 1) of
           None \<Rightarrow> (0, ctx)
         | Some sid \<Rightarrow>
             let (rc, user, db) = session_validate_and_extend sq (ctx_db ctx) (Some sid) SESSION_TTL_SECONDS
             in (case user of None \<Rightarrow> 0 | Some u \<Rightarrow> u, set_db ctx db)))"

definition bad_request :: bytes where
  "bad_request = chars ''HTTP/1.1 400 Bad Request'' @ crlf_crlf"

definition server_error :: bytes where
  "server_error = chars ''HTTP/1.1 500 Internal Server Error'' @ crlf_crlf"

text \<open>The bytes that follow the head in the buffer.\<close>

definition body_start :: "bytes \<Rightarrow> bytes" where
  "body_start buffer =
     (case strstr (c_string buffer) crlf_crlf of
        None \<Rightarrow> []
      | Some sep \<Rightarrow> drop (length (c_string buffer) - length sep + 4) buffer)"

definition websocket_handle_client :: "sha1_ctx \<Rightarrow>
    (http_request \<Rightarrow> bytes \<Rightarrow> ws_io \<Rightarrow> 'db ws_context option \<Rightarrow>
      (int \<times> ws_io \<times> 'db ws_context option \<times> 'e list) option) \<Rightarrow>
    (nat \<Rightarrow> 'db ws_env) \<Rightarrow> ws_io \<Rightarrow> 'db ws_context option \<Rightarrow>
    (int \<times> ws_io \<times> 'db ws_context option \<times> 'e list) option" where
  "websocket_handle_client local http_api_handle env io ctx =
     (case read_http_request io WS_MAX_HTTP_BUFFER of
        (None, io) \<Rightarrow> Some (-1, snd (send_http_error io bad_request), ctx, [])
      | (Some buffer, io) \<Rightarrow>
     (case http_parse_request (en_mem (env 0)) (Some buffer) of
        None \<Rightarrow> Some (-1, snd (send_http_error io bad_request), ctx, [])
      | Some request \<Rightarrow>
          if \<not> validate_websocket_request request then
            if ctx_db ctx \<noteq> None then http_api_handle request (body_start buffer) io ctx
            else Some (-1, snd (send_http_error io bad_request), ctx, [])
          else
            let (current_user_id, ctx) = session_user (en_sq (env 0)) ctx request;
                (rc, io) = perform_handshake local io request
            in if rc \<noteq> 0 then Some (-1, snd (send_http_error io server_error), ctx, [])
               else
                 let (rc, io) = reply io ''ready'' ''ok'' ''websocket-ready''
                 in if rc \<noteq> 0 then Some (-1, io, ctx, [])
                    else map_option (\<lambda>(io, ctx). (0, io, ctx, [])) (frame_loop env 1 io ctx current_user_id)))"

end
