(* ===== verification/Ws_Dialogue.thy ===== *)
theory Ws_Dialogue
  imports Ws_Server
begin

text \<open>
  What a client of \<open>websocket_handle_client\<close> sees: the upgrade, a conversation of frames up to the
  close, the protection of the watch history, and that the listings stay inside their buffers
  whatever is stored.
\<close>

section \<open>Reading and sending a frame\<close>

lemma opcode_low: "unat (opcode :: u8) < 16 \<Longrightarrow> opcode AND 0x0F = opcode"
proof -
  assume "unat opcode < 16"
  then have "unat opcode = take_bit 4 (unat opcode)" by (simp add: take_bit_nat_eq_self)
  then have "opcode = take_bit 4 opcode" by (simp add: word_unat_eq_iff unsigned_take_bit_eq)
  then show ?thesis by (simp add: take_bit_eq_mask mask_eq_exp_minus_1)
qed

lemma send_frame_ready:
  assumes "unat opcode < 16" and "unat len = length payload"
    and "writes_ready io (length (frame_wire True opcode None payload) + n)"
  obtains io' where "ws_send_frame io opcode payload len = (0, io')"
    and "io_out io' = io_out io @ frame_wire True opcode None payload"
    and "writes_ready io' n" and "inbox io' = inbox io"
proof -
  let ?h = "ws_frame_header opcode len"
  have w: "frame_wire True opcode None payload = ?h @ payload"
    using assms(1,2) by (simp add: header_eq opcode_low)
  obtain io1 where 1: "write_all io ?h = (0, io1)" "io_out io1 = io_out io @ ?h" "writes_ready io1 (length payload + n)"
    by (rule write_all_ready [of io ?h "length payload + n"]) (use assms(3) in \<open>simp_all only: w length_append add.assoc\<close>)
  obtain io2 where 2: "write_all io1 payload = (0, io2)" "io_out io2 = io_out io1 @ payload" "writes_ready io2 n"
    by (rule write_all_ready [OF 1(3)])
  show ?thesis
  proof (cases "len = 0")
    case True
    then have "payload = []" using assms(2) by simp
    with True 1 w write_all_inbox [of io ?h] show ?thesis
      by (intro that [of io1]) (simp_all add: ws_send_frame_def)
  next
    case False
    with 1 2 w assms(2) send_frame_inbox [of io opcode payload len] show ?thesis
      by (intro that [of io2]) (simp_all add: ws_send_frame_def word_gt_0)
  qed
qed

section \<open>A conversation\<close>

text \<open>A client's frame: final flag, opcode, masking key and payload; and what is sent back for it.\<close>

type_synonym client_frame = "bool \<times> u8 \<times> bytes option \<times> bytes"

fun client_wire :: "client_frame \<Rightarrow> bytes" where
  "client_wire (fin, opcode, key, d) = frame_wire fin opcode key d"

definition pong_text :: bytes where
  "pong_text = json_response_text (chars ''pong'') (chars ''ok'') (chars ''alive'')"

fun answer_wire :: "client_frame \<Rightarrow> bytes" where
  "answer_wire (fin, opcode, key, d) =
     (if opcode = 1 then frame_wire True 1 None pong_text
      else if opcode = 0 then frame_wire True 1 None d
      else if opcode = 9 then frame_wire True 10 None d
      else frame_wire True opcode None d)"

text \<open>A data frame, a ping, or a text frame with the command \<open>ping\<close>; a close frame.\<close>

fun frame_fits :: "client_frame \<Rightarrow> bool" where
  "frame_fits (fin, opcode, key, d) \<longleftrightarrow> length d \<le> WS_MAX_FRAME_PAYLOAD \<and>
     (case key of None \<Rightarrow> True | Some m \<Rightarrow> length m = 4)"

fun conversational :: "client_frame \<Rightarrow> bool" where
  "conversational (fin, opcode, key, d) \<longleftrightarrow>
     opcode \<in> {0, 2, 9} \<or> opcode = 1 \<and> map_option cm_type (parse_command (c_string d)) = Some WS_CMD_PING"

lemma small_len: "length d \<le> WS_MAX_FRAME_PAYLOAD \<Longrightarrow> unat (word_of_nat (length d) :: u64) = length d"
  by (simp add: WS_MAX_FRAME_PAYLOAD_def unat_of_nat take_bit_nat_eq_self)

lemma read_exact_same: "read_exact io n = (r, io') \<Longrightarrow> io_out io' = io_out io \<and> io_writes io' = io_writes io"
  using read_exact_keeps by blast

lemma read_len_keeps:
  assumes "ws_read_len io len = (r, io')"
  shows "io_out io' = io_out io \<and> io_writes io' = io_writes io"
  using assms by (auto simp: ws_read_len_def split: if_splits prod.splits option.splits dest!: read_exact_same)

lemma read_frame_keeps:
  assumes "ws_read_frame mem io = (r, io')"
  shows "io_out io' = io_out io \<and> io_writes io' = io_writes io"
  using assms
  by (auto simp: ws_read_frame_def Let_def split: if_splits prod.splits option.splits
      dest!: read_exact_same read_len_keeps)

lemma read_wire:
  assumes "frame_fits (fin, opcode, key, d)" and "unat opcode < 16"
    and "io_in io = frame_wire fin opcode key d @ rest" and "reads_ready io (length (io_in io))"
  obtains io' where "ws_read_frame True io = (Some (frame_of fin opcode d), io')" and "io_in io' = rest"
    and "reads_ready io' (length rest)" and "io_out io' = io_out io" and "io_writes io' = io_writes io"
proof -
  have "parse_frame (io_in io) = Some (frame_of fin opcode d, rest)"
    unfolding assms(3) using assms(1,2) by (intro parse_frame_wire) (auto split: option.splits)
  from read_frame_alive [OF assms(4) this] obtain io' where
    "ws_read_frame True io = (Some (frame_of fin opcode d), io')" "io_in io' = rest" "reads_ready io' (length rest)"
    by metis
  then show ?thesis using that read_frame_keeps by metis
qed

lemma send_back_frame:
  assumes "length d \<le> WS_MAX_FRAME_PAYLOAD" and "unat opcode < 16"
    and "writes_ready io (length (frame_wire True opcode None d) + n)"
  shows "io_out (send_back io opcode (frame_of fin opc d)) = io_out io @ frame_wire True opcode None d
     \<and> writes_ready (send_back io opcode (frame_of fin opc d)) n"
proof -
  have "payload_bytes (frame_of fin opc d) = d" by (simp add: payload_bytes_def frame_of_def)
  moreover obtain io' where "ws_send_frame io opcode d (word_of_nat (length d)) = (0, io')"
    "io_out io' = io_out io @ frame_wire True opcode None d" "writes_ready io' n"
    by (rule send_frame_ready [OF assms(2) small_len [OF assms(1)] assms(3)])
  ultimately show ?thesis by (simp add: send_back_def frame_of_def)
qed

lemma ping_answered:
  assumes "writes_ready io (length (frame_wire True 1 None pong_text) + n)"
  shows "\<exists>io'. handle_ping io = (0, io') \<and> io_out io' = io_out io @ frame_wire True 1 None pong_text \<and> writes_ready io' n"
proof -
  have s: "snprintf 256 pong_text = pong_text" by (simp add: snprintf_def pong_text_def json_response_text_def chars_def)
  have "length pong_text \<le> WS_MAX_FRAME_PAYLOAD"
    by (simp add: pong_text_def json_response_text_def chars_def WS_MAX_FRAME_PAYLOAD_def)
  note l = small_len [OF this]
  obtain io' where "ws_send_frame io 1 pong_text (word_of_nat (length pong_text)) = (0, io')"
    "io_out io' = io_out io @ frame_wire True 1 None pong_text" "writes_ready io' n"
    by (rule send_frame_ready [OF _ l assms]) simp
  then show ?thesis
    by (simp add: handle_ping_def reply_def send_json_response_def send_text_def s [unfolded pong_text_def] pong_text_def Let_def)
qed

lemma parse_empty: "parse_command (c_string []) = None"
  by (simp add: parse_command_def json_extract_string_field_def json_find_value_def snprintf_def c_string_def
      strstr.simps)

lemma frame_served:
  assumes "frame_fits m" and "conversational m" and "m = (fin, opcode, key, d)" and "en_mem env"
    and "writes_ready io (length (answer_wire m) + n)"
  obtains io' where "serve_frame env io ctx u (frame_of fin opcode d) = Some (True, io', ctx)"
    and "io_out io' = io_out io @ answer_wire m" and "writes_ready io' n" and "inbox io' = inbox io"
proof -
  have d: "length d \<le> WS_MAX_FRAME_PAYLOAD" using assms(1,3) by simp
  have in_same: "inbox io' = inbox io" if "serve_frame env io ctx u (frame_of fin opcode d) = Some (True, io', ctx)" for io'
    using serve_frame_inbox [OF that] by simp
  consider "opcode \<in> {0, 2, 9}" | "opcode = 1" using assms(2,3) by auto
  then show ?thesis
  proof cases
    case 1
    define out where "out = (if opcode = 0 then 1 else if opcode = 9 then 10 else opcode)"
    have f: "serve_frame env io ctx u (frame_of fin opcode d) = Some (True, send_back io out (frame_of fin opcode d), ctx)"
      using 1 by (auto simp: serve_frame_def frame_of_def out_def)
    have w: "answer_wire m = frame_wire True out None d" "unat out < 16"
      using 1 assms(3) by (auto simp: out_def)
    from send_back_frame [OF d w(2), of io n fin opcode] assms(5) w f in_same [OF f] show ?thesis
      by (intro that [OF f]) auto
  next
    case 2
    then obtain cmd where cmd: "parse_command (c_string d) = Some cmd" "cm_type cmd = WS_CMD_PING"
      using assms(2,3) by auto
    then have "d \<noteq> []" using parse_empty by auto
    obtain io' where p: "handle_ping io = (0, io')" "io_out io' = io_out io @ answer_wire m" "writes_ready io' n"
      using ping_answered [of io n] assms(3,5) 2 by auto
    have "word_of_nat (length d) \<noteq> (0 :: u64)" using small_len [OF d] \<open>d \<noteq> []\<close> by (metis unat_0 length_0_conv)
    then have "serve_frame env io ctx u (frame_of fin opcode d) = Some (True, io', ctx)"
      using 2 cmd p(1) small_len [OF d] \<open>d \<noteq> []\<close> assms(4)
      by (simp add: serve_frame_def frame_of_def handle_text_frame_def handle_command_def with_ctx_def)
    with p in_same show ?thesis by (intro that [of io']) auto
  qed
qed


lemma conversation:
  assumes "\<forall>m \<in> set ms. frame_fits m \<and> conversational m" and "frame_fits (fin, 8, key, d)"
    and "\<forall>k. en_mem (env k)"
    and "io_in io = concat (map client_wire ms) @ frame_wire fin 8 key d @ rest"
    and "reads_ready io (length (io_in io))"
    and "writes_ready io (length (concat (map answer_wire ms) @ frame_wire True 8 None d))"
  shows "\<exists>io'. frame_loop env k io ctx u = Some (io', ctx) \<and>
     io_out io' = io_out io @ concat (map answer_wire ms) @ frame_wire True 8 None d \<and> io_in io' = rest"
  using assms
proof (induction ms arbitrary: io k)
  case Nil
  obtain io1 where r: "ws_read_frame True io = (Some (frame_of fin 8 d), io1)" "io_in io1 = rest"
    "io_out io1 = io_out io" "io_writes io1 = io_writes io"
    by (rule read_wire [of fin 8 key d io rest]) (use Nil in auto)
  have len: "length d \<le> WS_MAX_FRAME_PAYLOAD" using Nil(2) by simp
  have "writes_ready io1 (length (frame_wire True 8 None d) + 0)" using Nil(6) r by (simp add: writes_ready_def)
  from send_back_frame [OF len _ this, of fin 8] send_back_inbox [of io1 8 "frame_of fin 8 d"] r Nil(3)
  show ?case by (subst frame_loop.simps) (auto simp: serve_frame_def frame_of_def inbox_same)
next
  case (Cons m ms)
  obtain f opc ky dd where m: "m = (f, opc, ky, dd)" by (cases m)
  have fit: "frame_fits m" "conversational m" using Cons.prems(1) by auto
  then have small: "unat opc < 16" unfolding m by auto
  let ?rest = "concat (map client_wire ms) @ frame_wire fin 8 key d @ rest"
  obtain io1 where r: "ws_read_frame True io = (Some (frame_of f opc dd), io1)" "io_in io1 = ?rest"
    "reads_ready io1 (length ?rest)" "io_out io1 = io_out io" "io_writes io1 = io_writes io"
    by (rule read_wire [OF fit(1) [unfolded m] small, of io ?rest]) (use Cons.prems(4,5) m in auto)
  let ?n = "length (concat (map answer_wire ms) @ frame_wire True 8 None d)"
  have "writes_ready io1 (length (answer_wire m) + ?n)" using Cons.prems(6) r by (simp add: writes_ready_def)
  then obtain io2 where s: "serve_frame (env k) io1 ctx u (frame_of f opc dd) = Some (True, io2, ctx)"
    "io_out io2 = io_out io1 @ answer_wire m" "writes_ready io2 ?n" "inbox io2 = inbox io1"
    using frame_served [OF fit m, of "env k" io1 ?n] Cons.prems(3) by metis
  have "\<exists>io'. frame_loop env (Suc k) io2 ctx u = Some (io', ctx) \<and>
     io_out io' = io_out io2 @ concat (map answer_wire ms) @ frame_wire True 8 None d \<and> io_in io' = rest"
    using Cons.prems r s by (intro Cons.IH) (auto simp: inbox_same reads_ready_def)
  then show ?case
    using r s Cons.prems(3) by (subst frame_loop.simps) auto
qed

section \<open>The upgrade\<close>

lemma find_separator_append:
  assumes "find_separator b = Some k"
  shows "find_separator (b @ c) = Some k" and "k + 4 \<le> length b"
proof -
  have b: "k \<le> length b" "take 4 (drop k b) = crlf_crlf" "\<forall>j < k. take 4 (drop j b) \<noteq> crlf_crlf"
    using assms by (simp_all add: find_separator_Some)
  have "length (take 4 (drop k b)) = 4" unfolding b(2) by (simp add: crlf_crlf_def)
  then show len: "k + 4 \<le> length b" by simp
  have "take 4 (drop j (b @ c)) = take 4 (drop j b)" if "j \<le> k" for j
    using that len by (auto simp: take_append drop_append)
  then have "\<forall>j \<le> k. take 4 (drop j (b @ c)) = take 4 (drop j b)" by blast
  with b len show "find_separator (b @ c) = Some k"
    unfolding find_separator_Some by (metis le_add1 length_append less_imp_le order_trans order_refl)
qed

text \<open>Only the head matters to the parser.\<close>

lemma parse_head:
  assumes "buffer_contains_clrf b"
  shows "http_parse_request mem (Some (b @ c)) = http_parse_request mem (Some b)"
proof -
  from assms obtain k where k: "find_separator b = Some k" by (auto simp: contains_separator)
  note a = find_separator_append [OF this]
  then have "take k (b @ c) = take k b" "b \<noteq> []" by auto
  with k a show ?thesis by (simp add: http_parse_request_def)
qed

lemma request_separator:
  assumes "request_ok r"
  shows "find_separator (request_text r @ body) = Some (length (request_text r) - 4)"
proof -
  let ?j = "join_lines [13, 10] (request_lines r)"
  have ne: "request_lines r \<noteq> []" by (simp add: request_lines_def)
  then have t: "request_text r = ?j @ crlf_crlf"
    by (simp add: request_text_def concat_lines crlf_crlf_def)
  have "find_separator (?j @ crlf_crlf @ body) = Some (length (?j @ crlf_crlf @ body) - length (crlf_crlf @ body))"
    by (rule find_separator_strstr [OF strstr_head [OF request_lines_ok [OF assms] ne]])
  then show ?thesis by (simp add: t crlf_crlf_def)
qed

lemma request_read:
  assumes "request_ok r" and "io_in io = request_text r @ rest" and "length (request_text r) \<le> n"
    and "reads_ready io (length (request_text r))"
  obtains b c io' where "read_http_request io n = (Some b, io')" and "b = request_text r @ c"
    and "rest = c @ io_in io'" and "http_parse_request True (Some b) = Some r"
    and "io_out io' = io_out io" and "io_writes io' = io_writes io"
proof -
  have sep: "find_separator (request_text r) = Some (length (request_text r) - 4)"
    using request_separator [OF assms(1), of "[]"] by simp
  then have has: "buffer_contains_clrf (request_text r)" by (simp add: contains_separator)
  have four: "4 \<le> length (request_text r)" using find_separator_append(2) [OF sep] by simp
  obtain b io' where b: "read_http_request io n = (Some b, io')"
    using io_source.head_total [OF assms(2) assms(4), of "[]" n] assms(3) has four
    by (cases "request_text r = []") (auto simp: read_http_request_def)
  note r = read_request_Some [OF b]
  from r(3) obtain k where k: "find_separator b = Some k" by (auto simp: contains_separator)
  have "find_separator (b @ io_in io') = Some k" by (rule find_separator_append(1) [OF k])
  then have "k = length (request_text r) - 4"
    using r(1) assms(2) request_separator [OF assms(1), of rest] by simp
  then have "length (request_text r) \<le> length b" using find_separator_append(2) [OF k] four by simp
  moreover have "request_text r @ rest = b @ io_in io'" using r(1) assms(2) by simp
  ultimately obtain c where c: "b = request_text r @ c" "rest = c @ io_in io'"
    by (auto simp: append_eq_append_conv_if) (metis append_take_drop_id)
  have "http_parse_request True (Some b) = Some r"
    unfolding c(1) by (rule parse_printed [OF assms(1)])
  with that b c read_request_keeps [OF b] show thesis by blast
qed

definition ready_text :: bytes where
  "ready_text = json_response_text (chars ''ready'') (chars ''ok'') (chars ''websocket-ready'')"

lemma ready_sent:
  assumes "writes_ready io (length (frame_wire True 1 None ready_text) + n)"
  obtains io' where "reply io ''ready'' ''ok'' ''websocket-ready'' = (0, io')"
    and "io_out io' = io_out io @ frame_wire True 1 None ready_text" and "inbox io' = inbox io" and "writes_ready io' n"
proof -
  have s: "snprintf 256 ready_text = ready_text" by (simp add: snprintf_def ready_text_def json_response_text_def chars_def)
  have "length ready_text \<le> WS_MAX_FRAME_PAYLOAD"
    by (simp add: ready_text_def json_response_text_def chars_def WS_MAX_FRAME_PAYLOAD_def)
  note l = small_len [OF this]
  obtain io' where "ws_send_frame io 1 ready_text (word_of_nat (length ready_text)) = (0, io')"
    "io_out io' = io_out io @ frame_wire True 1 None ready_text" "writes_ready io' n" "inbox io' = inbox io"
    by (rule send_frame_ready [OF _ l assms]) simp
  then show thesis
    by (intro that [of io']) (simp_all add: reply_def send_json_response_def send_text_def s [unfolded ready_text_def] ready_text_def Let_def)
qed

lemma upgraded:
  assumes "request_ok r" and "validate_websocket_request r" and "http_get_header r key_header = Some k" and "length k \<le> 91"
    and "io_in io = request_text r @ rest" and "length (request_text r) \<le> WS_MAX_HTTP_BUFFER"
    and "reads_ready io (length (request_text r))" and "length (s1_data local) = 64" and "en_mem (env 0)"
    and "writes_ready io (256 + length (frame_wire True 1 None ready_text))"
    and "session_user (en_sq (env 0)) ctx r = (u, ctx')"
  shows "\<exists>v c io'. base64_decode v = Some (SHA1 (k @ WS_GUID)) \<and> rest = c @ io_in io' \<and>
     io_out io' = io_out io @ handshake_response v @ frame_wire True 1 None ready_text \<and>
     websocket_handle_client local api env io ctx = map_option (\<lambda>(io, ctx). (0, io, ctx, [])) (frame_loop env 1 io' ctx' u)"
proof -
  obtain b c io1 where 1: "read_http_request io WS_MAX_HTTP_BUFFER = (Some b, io1)" "rest = c @ io_in io1"
    "http_parse_request True (Some b) = Some r" "io_out io1 = io_out io" "io_writes io1 = io_writes io"
    by (rule request_read [OF assms(1,5,6,7)])
  have "writes_ready io1 (256 + length (frame_wire True 1 None ready_text))"
    using assms(10) 1 by (simp add: writes_ready_def)
  then obtain v io2 where 2: "base64_decode v = Some (SHA1 (k @ WS_GUID))" "perform_handshake local io1 r = (0, io2)"
    "io_out io2 = io_out io1 @ handshake_response v" "io_in io2 = io_in io1"
    "writes_ready io2 (length (frame_wire True 1 None ready_text) + 0)"
    using handshake_accepts [OF assms(8) _ assms(3,4)] by (metis add_0_right)
  obtain io3 where 3: "reply io2 ''ready'' ''ok'' ''websocket-ready'' = (0, io3)"
    "io_out io3 = io_out io2 @ frame_wire True 1 None ready_text" "inbox io3 = inbox io2"
    by (rule ready_sent [OF 2(5)])
  have "websocket_handle_client local api env io ctx = map_option (\<lambda>(io, ctx). (0, io, ctx, [])) (frame_loop env 1 io3 ctx' u)"
    using 1 2 3 assms(2,9,11) by (simp add: websocket_handle_client_def)
  with 1 2 3 show ?thesis by (intro exI [of _ v] exI [of _ c] exI [of _ io3]) (simp add: inbox_same)
qed

section \<open>Listings\<close>

text \<open>The rows with a comma before each but the first.\<close>

fun row_texts :: "('row \<Rightarrow> bytes) \<Rightarrow> bool \<Rightarrow> 'row list \<Rightarrow> bytes" where
  "row_texts item first [] = []"
| "row_texts item first (row # rows) = (if first then [] else [44]) @ item row @ row_texts item False rows"

lemma row_texts_join: "row_texts item True rows = join_lines [44] (map item rows)"
proof -
  have "row_texts item False rows = concat (map (\<lambda>r. 44 # item r) rows)" for rows
    by (induction rows) simp_all
  moreover have "join_lines [44] (map item (r # rows)) = item r @ concat (map (\<lambda>r. 44 # item r) rows)" for r rows
    by (induction rows arbitrary: r) simp_all
  ultimately show ?thesis by (cases rows) simp_all
qed

text \<open>Between two rows there is room for the comma; an early end leaves no room for the closing brackets.\<close>

lemma rows_loop_spec:
  assumes "first \<or> length t < n - 1"
  shows "\<exists>t'. rows_loop n item rows first t = Some t' \<and>
     (t' = t @ row_texts item first rows \<or> n - 1 \<le> length t' \<and> length t' \<le> length (t @ row_texts item first rows))"
  using assms
proof (induction rows arbitrary: first t)
  case (Cons row rows)
  let ?t = "(if first then t else t @ [44]) @ item row"
  show ?case
  proof (cases "n - 1 \<le> length ?t")
    case True
    with Cons.prems show ?thesis by (auto simp: Let_def)
  next
    case False
    then obtain t' where "rows_loop n item rows False ?t = Some t'"
      "t' = ?t @ row_texts item False rows \<or> n - 1 \<le> length t' \<and> length t' \<le> length (?t @ row_texts item False rows)"
      using Cons.IH [of False ?t] by auto
    with Cons.prems False show ?thesis by (auto simp: Let_def)
  qed
qed simp

lemma listing_outcome:
  assumes "full = start @ join_lines [44] (map item rows)"
  shows "send_listing io n start item rows =
     Some (if n - 2 \<le> length full then reply io ''error'' ''internal_error'' ''response-too-large''
           else send_text io (full @ [93, 125]))"
proof -
  obtain t' where "rows_loop n item rows True start = Some t'" "t' = full \<or> n - 1 \<le> length t' \<and> length t' \<le> length full"
    using rows_loop_spec [of True start n item rows] by (auto simp: assms row_texts_join)
  then show ?thesis by (auto simp: send_listing_def)
qed

lemma command_in_bounds: "handle_command env io ctx cmd u \<noteq> None"
  by (cases "cm_type cmd")
    (simp_all add: handle_command_def handle_list_videos_def handle_list_continue_def listing_outcome split: option.split)

lemma text_frame_in_bounds: "handle_text_frame env io ctx f u \<noteq> None"
  by (simp add: handle_text_frame_def command_in_bounds del: not_None_eq split: option.split)

lemma serve_frame_in_bounds: "serve_frame env io ctx u f \<noteq> None"
  by (simp add: serve_frame_def text_frame_in_bounds del: not_None_eq)

lemma frame_loop_in_bounds: "frame_loop env k io ctx u \<noteq> None"
proof (induction env k io ctx u rule: frame_loop.induct)
  case (1 env k io ctx u)
  obtain f io1 where r: "ws_read_frame (en_mem (env k)) io = (f, io1)" by fastforce
  show ?case
  proof (cases f)
    case None
    with r show ?thesis by (simp add: frame_loop.simps)
  next
    case (Some g)
    obtain go io2 ctx2 where s: "serve_frame (env k) io1 ctx u g = Some (go, io2, ctx2)"
      using serve_frame_in_bounds [of "env k" io1 ctx u g] by auto
    then show ?thesis
      using 1 [OF r [symmetric] Some s refl refl] r Some
      by (cases go) (simp_all add: frame_loop.simps [of env k io ctx u])
  qed
qed

section \<open>The answers behind a connection\<close>

text \<open>What is behind the first bytes up to the blank line is the body.\<close>

lemma body_after_head:
  assumes "request_ok r"
  shows "body_start (request_text r @ c) = c"
proof -
  let ?j = "join_lines [13, 10] (request_lines r)"
  have ne: "request_lines r \<noteq> []" by (simp add: request_lines_def)
  note ok = request_lines_ok [OF assms]
  have t: "request_text r = ?j @ crlf_crlf"
    using ne by (simp add: request_text_def concat_lines crlf_crlf_def)
  have "0 \<notin> set (request_text r)"
    using set_join_lines [of "[13, 10]" "request_lines r"] ok
    by (auto simp: t crlf_crlf_def list_all_iff line_ok_def)
  then have cs: "c_string (request_text r @ c) = request_text r @ c_string c"
    by (simp add: c_string_def takeWhile_append)
  have "strstr (request_text r @ c_string c) crlf_crlf = Some (crlf_crlf @ c_string c)"
    using strstr_head [OF ok ne, of "c_string c"] by (simp add: t)
  then show ?thesis by (simp add: body_start_def cs) (simp add: t crlf_crlf_def)
qed

text \<open>
  What the connection asks of the function that answers plain requests: it writes nothing outside
  its buffers. Then serving a client writes nothing outside them, and a request that is no upgrade is handed over with all of its body.
\<close>

locale http_answers =
  fixes api :: "http_request \<Rightarrow> bytes \<Rightarrow> ws_io \<Rightarrow> 'db ws_context option \<Rightarrow>
      (int \<times> ws_io \<times> 'db ws_context option \<times> 'e list) option"
  assumes answers: "api req b io ctx \<noteq> None"
begin

lemma client_in_bounds: "websocket_handle_client local api env io ctx \<noteq> None"
  by (simp add: websocket_handle_client_def frame_loop_in_bounds answers del: not_None_eq split: prod.split option.split)

lemma handed_over:
  assumes "request_ok r" and "\<not> validate_websocket_request r" and "ctx_db ctx \<noteq> None" and "en_mem (env 0)"
    and "io_in io = request_text r @ body" and "length (request_text r) \<le> WS_MAX_HTTP_BUFFER"
    and "reads_ready io (length (request_text r))"
  shows "\<exists>b io'. body = b @ io_in io' \<and> io_out io' = io_out io \<and>
     websocket_handle_client local api env io ctx = api r b io' ctx"
proof -
  obtain buf c io' where "read_http_request io WS_MAX_HTTP_BUFFER = (Some buf, io')" "buf = request_text r @ c"
    "body = c @ io_in io'" "http_parse_request True (Some buf) = Some r" "io_out io' = io_out io"
    by (rule request_read [OF assms(1,5,6,7)])
  with assms(2-4) body_after_head [OF assms(1), of c] show ?thesis
    by (auto simp: websocket_handle_client_def)
qed

end

section \<open>Properties\<close>

text \<open>
  C27: The opening of a connection: when the bytes of a connection start with the text of an upgrade
  request, the peer gets the switching response with the accept key of its key, then the
  \<open>ready\<close> message in a text frame, and the frame loop is entered with the user of the request's
  session; what the read of the head took beyond the head is lost to the frames.
\<close>

theorem upgrade_opens:
  assumes "request_ok r" and "validate_websocket_request r"
    and "http_get_header r key_header = Some k" and "length k \<le> 91"
    and "io_in io = request_text r @ rest" and "length (request_text r) \<le> WS_MAX_HTTP_BUFFER"
    and "reads_ready io (length (request_text r))" and "length (s1_data local) = 64" and "en_mem (env 0)"
    and "writes_ready io (256 + length (frame_wire True 1 None ready_text))"
    and "session_user (en_sq (env 0)) ctx r = (u, ctx')"
  shows "\<exists>v c io'. base64_decode v = Some (SHA1 (k @ WS_GUID)) \<and> rest = c @ io_in io' \<and>
     io_out io' = io_out io @ handshake_response v @ frame_wire True 1 None ready_text \<and>
     websocket_handle_client local api env io ctx =
       map_option (\<lambda>(io, ctx). (0, io, ctx, [])) (frame_loop env 1 io' ctx' u)"
  by (rule upgraded [where env = env, OF assms])

text \<open>
  C28: A conversation: every data frame is sent back, every ping is answered with a pong of the
  same payload, every \<open>ping\<close> command with the \<open>alive\<close> message, each by one unmasked frame and in the
  order of the frames; a close frame is sent back and ends the loop with the rest unread.
\<close>

theorem frames_answered:
  assumes "\<forall>m \<in> set ms. frame_fits m \<and> conversational m" and "frame_fits (fin, 8, key, d)"
    and "\<forall>k. en_mem (env k)"
    and "io_in io = concat (map client_wire ms) @ frame_wire fin 8 key d @ rest"
    and "reads_ready io (length (io_in io))"
    and "writes_ready io (length (concat (map answer_wire ms) @ frame_wire True 8 None d))"
  shows "\<exists>io'. frame_loop env k io ctx u = Some (io', ctx) \<and>
     io_out io' = io_out io @ concat (map answer_wire ms) @ frame_wire True 8 None d \<and> io_in io' = rest"
  by (rule conversation [where env = env, OF assms])

text \<open>
  The video listing: the reply is the rows in order, separated by commas, between the brackets; when
  that and the closing brackets do not fit the buffer of 4096 bytes, it is the error message
  instead, never a part of the listing.
\<close>

theorem listing_sent:
  assumes "sq_prepare (en_sq env) db sql_list_videos = SQLITE_OK" and "Option.bind ctx wc_db = Some db"
    and "rows = fst (sq_rows (en_sq env) db sql_list_videos [])"
    and "listing = chars ''{\"type\":\"videos\",\"items\":['' @ join_lines [44] (map video_item rows)"
  shows "handle_list_videos env io ctx =
     Some (if length listing < 4094 then send_text io (listing @ chars '']}'')
           else reply io ''error'' ''internal_error'' ''response-too-large'')"
proof -
  have "chars '']}'' = [93, 125]" by (simp add: chars_def)
  then show ?thesis
    using assms listing_outcome [OF assms(4), of io 4096] by (simp add: handle_list_videos_def not_less)
qed

text \<open>
  C30: Without a session no command reaches the watch history: the three commands on it are answered
  with \<open>login-required\<close> (with \<open>db-missing\<close> when there is no database) and the context, database
  included, is what it was.
\<close>

theorem history_needs_login:
  assumes "user_id \<le> 0" and "cm_type cmd \<in> {WS_CMD_WATCH_GET, WS_CMD_WATCH_UPDATE, WS_CMD_LIST_CONTINUE}"
  shows "handle_command env io ctx cmd user_id = Some (with_ctx ctx
     (if Option.bind ctx wc_db = None then reply io ''error'' ''unavailable'' ''db-missing''
      else reply io ''error'' ''unauthorized'' ''login-required''))"
  using assms
  by (auto simp: handle_command_def handle_watch_get_def handle_watch_update_def handle_list_continue_def
      split: option.split)

section \<open>Examples\<close>

definition sample_env :: "memory_db ws_env" where
  "sample_env = \<lparr>en_sq = memory_sqlite\<lparr>sq_rows := (\<lambda>_ _ _. ([[\<lparr>cell_int = 3, cell_text = None\<rparr>,
       \<lparr>cell_int = 0, cell_text = Some (chars ''Sea'')\<rparr>, \<lparr>cell_int = 0, cell_text = Some []\<rparr>,
       \<lparr>cell_int = 0, cell_text = Some []\<rparr>, \<lparr>cell_int = 60, cell_text = None\<rparr>]], SQLITE_DONE))\<rparr>,
     en_fs = (\<lambda>_. \<lparr>fv_stat = None, fv_open = False, fv_seek = False, fv_tell = 0, fv_data = []\<rparr>), en_mem = True,
     en_world = \<lparr>w_sendto = \<lambda>n addr d. int (length d), w_malloc = \<lambda>n. True, w_stack = \<lambda>i. 0\<rparr>,
     en_clk = (\<lambda>_. 0), en_duration = (\<lambda>_. chars ''0.00'')\<rparr>"

definition upgrade_request :: http_request where
  "upgrade_request = \<lparr>rq_method = chars ''GET'', rq_path = chars ''/ws'', rq_version = chars ''HTTP/1.1'',
     rq_headers = [\<lparr>hd_name = chars ''upgrade'', hd_value = chars ''websocket''\<rparr>,
       \<lparr>hd_name = chars ''connection'', hd_value = chars ''keep-alive, Upgrade''\<rparr>,
       \<lparr>hd_name = chars ''sec-websocket-version'', hd_value = chars ''13''\<rparr>,
       \<lparr>hd_name = key_header, hd_value = chars ''abc''\<rparr>]\<rparr>"

definition steady_io :: "bytes \<Rightarrow> ws_io" where
  "steady_io b = \<lparr>io_in = b, io_out = [], io_reads = replicate (length b) 1, io_writes = replicate 512 1\<rparr>"

lemma steady_ready: "reads_ready (steady_io b) (length b)" "n \<le> 512 \<Longrightarrow> writes_ready (steady_io b) n"
  by (simp_all add: steady_io_def reads_ready_def writes_ready_def)

lemma steady_fields [simp]: "io_in (steady_io b) = b" "io_out (steady_io b) = []"
  by (simp_all add: steady_io_def)

lemma upgrade_request_ok: "request_ok upgrade_request" "validate_websocket_request upgrade_request"
  "http_get_header upgrade_request key_header = Some (chars ''abc'')"
  "length (request_text upgrade_request) \<le> WS_MAX_HTTP_BUFFER"
  by code_simp+

theorem upgrade_opens_witness:
  "\<exists>v io'. base64_decode v = Some (SHA1 (chars ''abc'' @ WS_GUID)) \<and>
     io_out io' = handshake_response v @ frame_wire True 1 None ready_text \<and>
     websocket_handle_client sample_ctx (\<lambda>_ _ io ctx. Some (0, io, ctx, [])) (\<lambda>_. sample_env)
         (steady_io (request_text upgrade_request)) None =
       map_option (\<lambda>(io, ctx). (0, io, ctx, [])) (frame_loop (\<lambda>_. sample_env) 1 io' None 0)"
proof -
  have "256 + length (frame_wire True 1 None ready_text) \<le> 512" by code_simp
  note w = steady_ready(2) [OF this]
  show ?thesis
    using upgrade_opens [OF upgrade_request_ok(1-3) _ _ upgrade_request_ok(4), of "steady_io (request_text upgrade_request)"
        "[]" sample_ctx "\<lambda>_. sample_env" None 0 None "\<lambda>_ _ io ctx. Some (0, io, ctx, [])"] w steady_ready(1)
    by (simp add: sample_ctx_def sample_env_def session_user_def ctx_db_def chars_def) blast
qed

theorem frames_answered_witness:
  "\<exists>io'. frame_loop (\<lambda>_. sample_env) 1 (steady_io (frame_wire True 9 (Some [1, 2, 3, 4]) [7] @
       frame_wire True 1 None (chars ''{\"type\":\"ping\"}'') @ frame_wire True 8 None [])) None 0 = Some (io', None) \<and>
     io_out io' = frame_wire True 10 None [7] @ frame_wire True 1 None pong_text @ frame_wire True 8 None []"
proof -
  let ?p = "chars ''{\"type\":\"ping\"}''"
  let ?ms = "[(True, 9, Some [1, 2, 3, 4], [7]), (True, 1, None, ?p)] :: client_frame list"
  let ?io = "steady_io (concat (map client_wire ?ms) @ frame_wire True 8 None [] @ [])"
  have "map_option cm_type (parse_command (c_string ?p)) = Some WS_CMD_PING" by code_simp
  moreover have "length ?p \<le> WS_MAX_FRAME_PAYLOAD" by code_simp
  ultimately have 1: "\<forall>m \<in> set ?ms. frame_fits m \<and> conversational m" "frame_fits (True, 8, None, [])"
    by (simp_all add: WS_MAX_FRAME_PAYLOAD_def)
  have "length (concat (map answer_wire ?ms) @ frame_wire True 8 None []) \<le> 512" by code_simp
  note 2 = steady_ready(2) [OF this]
  have 3: "\<forall>k. en_mem ((\<lambda>_ :: nat. sample_env) k)" by (simp add: sample_env_def)
  have 4: "reads_ready ?io (length (io_in ?io))" unfolding steady_fields by (rule steady_ready(1))
  have "\<exists>io'. frame_loop (\<lambda>_. sample_env) 1 ?io None 0 = Some (io', None) \<and>
      io_out io' = io_out ?io @ concat (map answer_wire ?ms) @ frame_wire True 8 None [] \<and> io_in io' = []"
    by (rule frames_answered [OF 1 3 steady_fields(1) 4 2])
  then show ?thesis by (auto simp del: frame_wire.simps)
qed

definition sample_context :: "memory_db ws_context" where
  "sample_context = \<lparr>wc_quic_engine = None, wc_db = Some (Map.empty, 0), wc_next_packet_number = 1,
     wc_segment_sent_ok = 0, wc_segment_sent_fail = 0\<rparr>"

theorem listing_sent_witness:
  "handle_list_videos sample_env (steady_io []) (Some sample_context) = Some (send_text (steady_io [])
     (chars ''{\"type\":\"videos\",\"items\":[{\"id\":3,\"title\":\"Sea\",\"description\":\"\",\"thumbnail_path\":\"\",\"duration\":60}]}''))"
proof -
  let ?rows = "fst (sq_rows (en_sq sample_env) (Map.empty, 0) sql_list_videos [])"
  let ?l = "chars ''{\"type\":\"videos\",\"items\":['' @ join_lines [44] (map video_item ?rows)"
  have "?l @ chars '']}'' = chars ''{\"type\":\"videos\",\"items\":[{\"id\":3,\"title\":\"Sea\",\"description\":\"\",\"thumbnail_path\":\"\",\"duration\":60}]}''"
    by code_simp
  moreover have "length ?l < 4094" by code_simp
  moreover have "sq_prepare (en_sq sample_env) (Map.empty, 0) sql_list_videos = SQLITE_OK"
    by (simp add: sample_env_def memory_sqlite_def)
  ultimately show ?thesis
    using listing_sent [of sample_env "(Map.empty, 0)" "Some sample_context" ?rows ?l "steady_io []"]
    by (simp add: sample_context_def)
qed

theorem history_needs_login_witness:
  "handle_command sample_env (steady_io []) (Some sample_context) (zero_command\<lparr>cm_type := WS_CMD_WATCH_UPDATE\<rparr>) 0 =
     Some (with_ctx (Some sample_context) (reply (steady_io []) ''error'' ''unauthorized'' ''login-required''))"
  using history_needs_login [of 0 "zero_command\<lparr>cm_type := WS_CMD_WATCH_UPDATE\<rparr>" sample_env "steady_io []" "Some sample_context"]
  by (simp add: sample_context_def)

end
