(* ===== verification/Http_Api.thy ===== *)
theory Http_Api
  imports Ws_Handler Session
begin

text \<open>
  \<open>src/http/api.c\<close>: the answers to plain HTTP requests. The transport is that of \<open>ws_io\<close>, the loops
  are those of \<open>Ws_Io\<close>. The record \<open>api_env\<close> is what lies outside the server, and what the stack
  holds where a function may read a local variable it has not set. \<open>handle_upload_request\<close> is an
  argument. Files removed or written and commands run on the host are collected in the result.
\<close>

section \<open>Environment\<close>

record 'db api_env =
  ae_sq :: "'db sqlite"
  ae_fs :: "bytes \<Rightarrow> file_view"
  ae_isdir :: "bytes \<Rightarrow> bool"
  ae_mem :: bool
  ae_crypt_rn :: "bytes \<Rightarrow> bytes \<Rightarrow> nat \<Rightarrow> bytes option"
  ae_gensalt_rn :: "bytes \<Rightarrow> int \<Rightarrow> bytes \<Rightarrow> nat \<Rightarrow> bytes option"
  ae_device :: random_device
  ae_urandom :: "bytes option"
  ae_body_buf :: bytes
  ae_user_row :: db_user
  ae_hash :: bytes

datatype host_effect = Unlink bytes | System bytes | Write bytes bytes

type_synonym 'db api_result = "int \<times> ws_io \<times> 'db ws_context option \<times> host_effect list"

definition done_with :: "'db ws_context option \<Rightarrow> int \<times> ws_io \<Rightarrow> 'db api_result" where
  "done_with ctx r = (fst r, snd r, ctx, [])"

section \<open>Responses\<close>

definition HTTP_MAX_BODY :: nat where "HTTP_MAX_BODY = 4096"

definition http_write_all :: "ws_io \<Rightarrow> bytes \<Rightarrow> int \<times> ws_io" where
  "http_write_all io buf = write_loop io_write io buf"

definition http_read_exact :: "ws_io \<Rightarrow> nat \<Rightarrow> bytes option \<times> ws_io" where
  "http_read_exact io len = read_loop io_read io len []"

definition crlf :: bytes where "crlf = [13, 10]"

definition response_head :: "bytes \<Rightarrow> bytes \<Rightarrow> nat \<Rightarrow> bytes" where
  "response_head status_line headers body_len =
     status_line @ chars ''Content-Length: '' @ dec_nat body_len @ crlf @ headers @ crlf"

definition http_send_response :: "ws_io \<Rightarrow> bytes \<Rightarrow> bytes \<Rightarrow> bytes \<Rightarrow> int \<times> ws_io" where
  "http_send_response io status_line headers body =
     (let head = response_head status_line headers (length body)
      in if 1024 \<le> length head then (-1, io)
         else
           let (rc, io) = http_write_all io head
           in if rc \<noteq> 0 then (-1, io)
              else if 0 < length body then http_write_all io body else (0, io))"

definition status_line :: "string \<Rightarrow> bytes" where
  "status_line s = chars (''HTTP/1.1 '' @ s) @ crlf"

definition text_plain :: bytes where
  "text_plain = chars ''Content-Type: text/plain'' @ crlf"

definition plain :: "ws_io \<Rightarrow> string \<Rightarrow> string \<Rightarrow> int \<times> ws_io" where
  "plain io status body = http_send_response io (status_line status) text_plain (chars body)"

definition http_build_cors :: "http_request \<Rightarrow> nat \<Rightarrow> bytes" where
  "http_build_cors req out_size =
     (let allow_origin = (case http_get_header req (chars ''origin'') of None \<Rightarrow> [42] | Some origin \<Rightarrow> origin)
      in snprintf out_size (chars ''Access-Control-Allow-Origin: '' @ allow_origin @ crlf
           @ chars ''Access-Control-Allow-Credentials: true'' @ crlf
           @ chars ''Access-Control-Allow-Headers: Content-Type, Authorization, Cookie'' @ crlf
           @ chars ''Access-Control-Allow-Methods: GET, POST, DELETE, OPTIONS'' @ crlf))"

text \<open>The answer to a preflight request.\<close>

definition preflight :: "ws_io \<Rightarrow> http_request \<Rightarrow> int \<times> ws_io" where
  "preflight io req = http_send_response io (status_line ''204 No Content'') (http_build_cors req 256) []"

section \<open>Fields of a body\<close>

definition json_extract_string :: "bytes \<Rightarrow> bytes \<Rightarrow> nat \<Rightarrow> bytes option" where
  "json_extract_string json key out_size =
     (let pattern = 34 # key @ [34]
      in if out_size = 0 \<or> 64 \<le> length pattern then None
         else
           (case strstr json pattern of
              None \<Rightarrow> None
            | Some p \<Rightarrow>
                let p = dropWhile (\<lambda>b. b = 32 \<or> b = 9 \<or> b = 58) (drop (length pattern) p)
                in if p = [] \<or> hd p \<noteq> 34 then None
                   else
                     (case strchr (tl p) 34 of
                        None \<Rightarrow> None
                      | Some end_ptr \<Rightarrow>
                          let len = length (tl p) - length end_ptr
                          in if len = 0 \<or> out_size \<le> len then None else Some (take len (tl p)))))"

definition api_extract_int_field :: "bytes \<Rightarrow> bytes \<Rightarrow> int option" where
  "api_extract_int_field json key =
     (case strstr json key of
        None \<Rightarrow> None
      | Some p \<Rightarrow>
          let p = dropWhile (\<lambda>b. b = 32 \<or> b = 34) (drop (length key) p);
              p = (if p \<noteq> [] \<and> (hd p = 58 \<or> hd p = 61) then tl p else p)
          in map_option to_int (strtol 10 (dropWhile (\<lambda>b. b = 32 \<or> b = 34) p)))"

section \<open>Login, signup, logout\<close>

definition session_headers :: "bytes \<Rightarrow> bytes \<Rightarrow> bytes" where
  "session_headers sid cors =
     chars ''Content-Type: application/json'' @ crlf @ chars ''Set-Cookie: SID='' @ sid
       @ chars ''; HttpOnly; Path=/; SameSite=Lax'' @ crlf @ cors"

definition session_body :: "bytes \<Rightarrow> bytes \<Rightarrow> bytes \<Rightarrow> bool \<Rightarrow> bytes" where
  \<open>session_body sid user nickname is_admin =
     chars ''{"session_id":"'' @ sid @ chars ''","username":"'' @ user @ chars ''","nickname":"'' @ nickname
       @ chars ''","is_admin":'' @ chars (if is_admin then ''true'' else ''false'') @ chars ''}''\<close>

text \<open>A null context and a context without a database are answered alike.\<close>

definition ctx_database :: "'db ws_context option \<Rightarrow> 'db option" where
  "ctx_database ctx = Option.bind ctx wc_db"

definition handle_login :: "'db api_env \<Rightarrow> ws_io \<Rightarrow> http_request \<Rightarrow> 'db ws_context option \<Rightarrow> bytes \<Rightarrow> 'db api_result" where
  "handle_login env io req ctx body =
     (if ctx_database ctx = None then done_with ctx (plain io ''503 Service Unavailable'' ''service-unavailable'')
      else if strcaseeq (rq_method req) (chars ''OPTIONS'') then done_with ctx (preflight io req)
      else if \<not> strcaseeq (rq_method req) (chars ''POST'') then
        done_with ctx (plain io ''405 Method Not Allowed'' ''method-not-allowed'')
      else
        let body_buf = c_string (take HTTP_MAX_BODY body)
        in (case (json_extract_string body_buf (chars ''username'') 128, json_extract_string body_buf (chars ''password'') 128) of
              (Some user, Some pass) \<Rightarrow>
                let (rc, sid, db) = session_login (ae_sq env) (ae_crypt_rn env) (ae_urandom env) (ctx_database ctx)
                      (Some user) (Some pass) (SESSION_ID_LEN + 1);
                    ctx = set_db ctx db
                in if rc \<noteq> 0 then done_with ctx (plain io ''401 Unauthorized'' ''login-failed'')
                   else
                     let headers = session_headers (the sid) (http_build_cors req 256)
                     in if 512 \<le> length headers then
                          done_with ctx (plain io ''500 Internal Server Error'' ''header-too-long'')
                        else
                          let (rc, row, db) = db_get_user_by_username (ae_sq env) (ctx_database ctx) (Some user);
                              ctx = set_db ctx db;
                              user_row = (case row of None \<Rightarrow> ae_user_row env | Some r \<Rightarrow> r);
                              is_admin = (rc = SQLITE_OK \<and> strcaseeq (us_role user_row) (chars ''admin''));
                              nickname = (if us_nickname user_row \<noteq> [] then us_nickname user_row else user)
                          in done_with ctx (http_send_response io (status_line ''200 OK'') headers
                               (snprintf 512 (session_body (the sid) user nickname is_admin)))
            | _ \<Rightarrow> done_with ctx (plain io ''400 Bad Request'' ''bad-json'')))"

definition handle_signup :: "'db api_env \<Rightarrow> ws_io \<Rightarrow> http_request \<Rightarrow> 'db ws_context option \<Rightarrow> bytes \<Rightarrow> 'db api_result" where
  "handle_signup env io req ctx body =
     (if ctx_database ctx = None then done_with ctx (plain io ''503 Service Unavailable'' ''service-unavailable'')
      else if strcaseeq (rq_method req) (chars ''OPTIONS'') then done_with ctx (preflight io req)
      else if \<not> strcaseeq (rq_method req) (chars ''POST'') then
        done_with ctx (plain io ''405 Method Not Allowed'' ''method-not-allowed'')
      else
        let body_buf = c_string (take HTTP_MAX_BODY body)
        in (case (json_extract_string body_buf (chars ''username'') DB_MAX_USERNAME,
                  json_extract_string body_buf (chars ''password'') 128,
                  json_extract_string body_buf (chars ''nickname'') DB_MAX_NICKNAME) of
              (Some username, Some password, Some nickname) \<Rightarrow>
                let (rc, existing, db) = db_get_user_by_username (ae_sq env) (ctx_database ctx) (Some username);
                    ctx = set_db ctx db
                in if rc = SQLITE_OK then done_with ctx (plain io ''409 Conflict'' ''user-exists'')
                   else
                     let hash = hash_password (ae_gensalt_rn env) (ae_crypt_rn env) (ae_device env) (Some password)
                           HASH_HEX_SIZE (ae_hash env)
                     in if hash = [] then done_with ctx (plain io ''500 Internal Server Error'' ''hash-failed'')
                        else
                          let (rc, new_id, db) = db_create_user (ae_sq env) (ctx_database ctx) (Some username)
                                (Some nickname) (Some hash) (Some (chars ''user''));
                              ctx = set_db ctx db
                          in if rc \<noteq> SQLITE_OK then
                               done_with ctx (plain io ''500 Internal Server Error'' ''create-user-failed'')
                             else
                               let new_user_id = (case new_id of None \<Rightarrow> 0 | Some u \<Rightarrow> u)
                               in (case session_generate_id (ae_urandom env) (SESSION_ID_LEN + 1) of
                                     None \<Rightarrow> done_with ctx (plain io ''500 Internal Server Error'' ''session-failed'')
                                   | Some sid \<Rightarrow>
                                       let (rc, db) = db_create_session (ae_sq env) (ctx_database ctx) new_user_id
                                             (Some sid) SESSION_TTL_SECONDS;
                                           ctx = set_db ctx db;
                                           headers = session_headers sid (http_build_cors req 256)
                                       in if rc \<noteq> SQLITE_OK then
                                            done_with ctx (plain io ''500 Internal Server Error'' ''session-failed'')
                                          else if 512 \<le> length headers then
                                            done_with ctx (plain io ''500 Internal Server Error'' ''header-too-long'')
                                          else done_with ctx (http_send_response io (status_line ''200 OK'') headers
                                            (snprintf 512 (session_body sid username nickname False))))
            | _ \<Rightarrow> done_with ctx (plain io ''400 Bad Request'' ''bad-json'')))"

definition logout_headers :: "bytes \<Rightarrow> bytes" where
  "logout_headers cors = text_plain @ chars ''Set-Cookie: SID=; Max-Age=0; HttpOnly; Path=/; SameSite=Lax'' @ crlf @ cors"

definition handle_logout :: "'db api_env \<Rightarrow> ws_io \<Rightarrow> http_request \<Rightarrow> 'db ws_context option \<Rightarrow> 'db api_result" where
  "handle_logout env io req ctx =
     (if ctx_database ctx = None then done_with ctx (plain io ''503 Service Unavailable'' ''service-unavailable'')
      else if strcaseeq (rq_method req) (chars ''OPTIONS'') then done_with ctx (preflight io req)
      else
        (case session_extract_from_headers req (SESSION_ID_LEN + 1) of
           None \<Rightarrow> done_with ctx (plain io ''400 Bad Request'' ''session-missing'')
         | Some sid \<Rightarrow>
             let (_, db) = session_logout (ae_sq env) (ctx_database ctx) (Some sid);
                 ctx = set_db ctx db;
                 headers = logout_headers (http_build_cors req 256)
             in if 512 \<le> length headers then
                  done_with ctx (plain io ''500 Internal Server Error'' ''header-too-long'')
                else done_with ctx (http_send_response io (status_line ''200 OK'') headers (chars ''logged-out''))))"

section \<open>Administration\<close>

text \<open>Whether the session of the request is an administrator's, and the context after looking.\<close>

definition is_admin_user :: "'db api_env \<Rightarrow> 'db option \<Rightarrow> http_request \<Rightarrow> bool \<times> 'db option" where
  "is_admin_user env db req =
     (if db = None then (False, db)
      else
        (case session_extract_from_headers req (SESSION_ID_LEN + 1) of
           None \<Rightarrow> (False, db)
         | Some sid \<Rightarrow>
             (case session_validate_and_extend (ae_sq env) db (Some sid) SESSION_TTL_SECONDS of
                (rc, user, db) \<Rightarrow>
                  let user_id = (case user of None \<Rightarrow> 0 | Some u \<Rightarrow> u)
                  in if rc \<noteq> 0 \<or> user_id \<le> 0 then (False, db)
                     else
                       (case db_get_user_by_id (ae_sq env) db user_id of
                          (rc, row, db) \<Rightarrow>
                            if rc \<noteq> SQLITE_OK then (False, db)
                            else (strcaseeq (us_role (the row)) (chars ''admin''), db)))))"

text \<open>The body is read as a C string although it has no terminator: \<open>body\<close> includes what follows it.\<close>

definition handle_admin_delete :: "'db api_env \<Rightarrow> ws_io \<Rightarrow> http_request \<Rightarrow> 'db ws_context option \<Rightarrow> bytes \<Rightarrow> 'db api_result" where
  "handle_admin_delete env io req ctx body =
     (if ctx_database ctx = None then done_with ctx (plain io ''503 Service Unavailable'' ''service-unavailable'')
      else
        let (admin, db) = is_admin_user env (ctx_database ctx) req; ctx = set_db ctx db
        in if \<not> admin then done_with ctx (plain io ''403 Forbidden'' ''admin-required'')
           else
             (case api_extract_int_field (c_string body) (chars ''video_id'') of
                None \<Rightarrow> done_with ctx (plain io ''400 Bad Request'' ''invalid-video-id'')
              | Some video_id \<Rightarrow>
                  if video_id \<le> 0 then done_with ctx (plain io ''400 Bad Request'' ''invalid-video-id'')
                  else
                    (case db_get_video_by_id (ae_sq env) (ctx_database ctx) video_id of
                       (rc, video, db) \<Rightarrow>
                         let ctx = set_db ctx db
                         in if rc \<noteq> SQLITE_OK then done_with ctx (plain io ''404 Not Found'' ''video-not-found'')
                            else
                              let v = the video;
                                  (_, db) = db_delete_video_by_id (ae_sq env) (ctx_database ctx) video_id;
                                  ctx = set_db ctx db;
                                  effects = (if vi_file_path v \<noteq> [] then [Unlink (vi_file_path v)] else [])
                                    @ (if vi_thumbnail_path v \<noteq> [] then [Unlink (vi_thumbnail_path v)] else [])
                                    @ (if vi_segment_path v \<noteq> []
                                       then [System (snprintf 512 (chars ''rm -rf '' @ vi_segment_path v))] else []);
                                  (rc, io) = plain io ''200 OK'' ''deleted''
                              in (rc, io, ctx, effects))))"

definition handle_admin_update :: "'db api_env \<Rightarrow> ws_io \<Rightarrow> http_request \<Rightarrow> 'db ws_context option \<Rightarrow> bytes \<Rightarrow> 'db api_result" where
  "handle_admin_update env io req ctx body =
     (if ctx_database ctx = None then done_with ctx (plain io ''503 Service Unavailable'' ''service-unavailable'')
      else
        let (admin, db) = is_admin_user env (ctx_database ctx) req; ctx = set_db ctx db
        in if \<not> admin then done_with ctx (plain io ''403 Forbidden'' ''admin-required'')
           else
             (case api_extract_int_field (c_string body) (chars ''video_id'') of
                None \<Rightarrow> done_with ctx (plain io ''400 Bad Request'' ''invalid-video-id'')
              | Some video_id \<Rightarrow>
                  if video_id \<le> 0 then done_with ctx (plain io ''400 Bad Request'' ''invalid-video-id'')
                  else
                    let text_or_empty = (\<lambda>t. case t of None \<Rightarrow> [] | Some s \<Rightarrow> s);
                        new_title = text_or_empty (json_extract_string (c_string body) (chars ''title'') DB_MAX_TITLE);
                        new_desc = text_or_empty (json_extract_string (c_string body) (chars ''description'') DB_MAX_DESCRIPTION);
                        (rc, db) = db_update_video_metadata (ae_sq env) (ctx_database ctx) video_id (Some new_title) (Some new_desc);
                        ctx = set_db ctx db
                    in if rc \<noteq> SQLITE_OK then done_with ctx (plain io ''500 Internal Server Error'' ''update-failed'')
                       else done_with ctx (plain io ''200 OK'' ''updated'')))"

definition sql_admin_list :: bytes where
  "sql_admin_list = chars (''SELECT id, title, IFNULL(description,'' @ quotes @ ''), file_path, IFNULL(thumbnail_path,'' @ quotes @
     '') FROM videos ORDER BY id DESC;'')"

definition admin_item :: "sql_cell list \<Rightarrow> bytes" where
  \<open>admin_item row =
     chars ''{"id":'' @ dec_int (cell_int (row ! 0)) @ chars '',"title":"'' @ column_text row 1
       @ chars ''","description":"'' @ column_text row 2 @ chars ''","file_path":"'' @ column_text row 3
       @ chars ''","thumbnail_path":"'' @ column_text row 4 @ chars ''"}''\<close>

text \<open>\<open>None\<close> is a comma written outside the buffer.\<close>

definition handle_admin_list :: "'db api_env \<Rightarrow> ws_io \<Rightarrow> http_request \<Rightarrow> 'db ws_context option \<Rightarrow> 'db api_result option" where
  \<open>handle_admin_list env io req ctx =
     (if ctx_database ctx = None then Some (done_with ctx (plain io ''503 Service Unavailable'' ''service-unavailable''))
      else
        let (admin, db) = is_admin_user env (ctx_database ctx) req; ctx = set_db ctx db
        in if \<not> admin then Some (done_with ctx (plain io ''403 Forbidden'' ''admin-required''))
           else if sq_prepare (ae_sq env) (the (ctx_database ctx)) sql_admin_list \<noteq> SQLITE_OK then
             Some (done_with ctx (plain io ''500 Internal Server Error'' ''db-error''))
           else
             map_option (\<lambda>t.
               if 8190 \<le> length t then done_with ctx (plain io ''500 Internal Server Error'' ''response-too-large'')
               else done_with ctx (http_send_response io (status_line ''200 OK'')
                      (chars ''Content-Type: application/json'' @ crlf) (t @ [93, 125])))
               (rows_loop 8192 admin_item (fst (sq_rows (ae_sq env) (the (ctx_database ctx)) sql_admin_list [])) True
                  (chars ''{"items":['')))\<close>

section \<open>Uploads and files\<close>

text \<open>\<open>upload\<close> is \<open>handle_upload_request\<close> with the content type and the body; its result is not looked at.\<close>

definition handle_upload :: "(bytes \<Rightarrow> bytes \<Rightarrow> ws_io \<Rightarrow> 'db option \<Rightarrow> int \<times> ws_io \<times> 'db option \<times> host_effect list) \<Rightarrow>
    ws_io \<Rightarrow> http_request \<Rightarrow> 'db ws_context option \<Rightarrow> bytes \<Rightarrow> 'db api_result" where
  "handle_upload upload io req ctx body =
     (if ctx_database ctx = None then done_with ctx (plain io ''503 Service Unavailable'' ''service-unavailable'')
      else if strcaseeq (rq_method req) (chars ''OPTIONS'') then done_with ctx (preflight io req)
      else if body = [] then done_with ctx (plain io ''400 Bad Request'' ''empty-body'')
      else
        (case http_get_header req (chars ''content-type'') of
           None \<Rightarrow> done_with ctx (plain io ''400 Bad Request'' ''missing-content-type'')
         | Some ct \<Rightarrow>
             let (rc, io, db, effects) = upload ct body io (ctx_database ctx)
             in (0, io, set_db ctx db, effects)))"

definition strrchr :: "bytes \<Rightarrow> u8 \<Rightarrow> bytes option" where
  "strrchr s c = (if c \<in> set s then Some (c # rev (takeWhile (\<lambda>b. b \<noteq> c) (rev s))) else None)"

definition guess_mime :: "bytes \<Rightarrow> string" where
  "guess_mime path =
     (case strrchr path 46 of
        None \<Rightarrow> ''application/octet-stream''
      | Some dot \<Rightarrow>
          if strcaseeq dot (chars ''.html'') \<or> strcaseeq dot (chars ''.htm'') then ''text/html; charset=utf-8''
          else if strcaseeq dot (chars ''.js'') then ''application/javascript; charset=utf-8''
          else if strcaseeq dot (chars ''.css'') then ''text/css; charset=utf-8''
          else if strcaseeq dot (chars ''.json'') then ''application/json; charset=utf-8''
          else if strcaseeq dot (chars ''.png'') then ''image/png''
          else if strcaseeq dot (chars ''.jpg'') \<or> strcaseeq dot (chars ''.jpeg'') then ''image/jpeg''
          else if strcaseeq dot (chars ''.mp4'') then ''video/mp4''
          else if strcaseeq dot (chars ''.m3u8'') then ''application/vnd.apple.mpegurl''
          else if strcaseeq dot (chars ''.svg'') then ''image/svg+xml''
          else ''application/octet-stream'')"

definition http_send_file :: "ws_io \<Rightarrow> bytes \<Rightarrow> bytes \<Rightarrow> bytes \<Rightarrow> bool \<Rightarrow> int \<times> ws_io" where
  "http_send_file io status headers body send_body =
     (let head = response_head status headers (length body)
      in if 1024 \<le> length head then (-1, io)
         else
           let (rc, io) = http_write_all io head
           in if rc \<noteq> 0 then (-1, io)
              else if send_body \<and> 0 < length body then http_write_all io body else (0, io))"

text \<open>The path without its query, the directory it is looked up in, and the path below that.\<close>

definition clean_path :: "bytes \<Rightarrow> bytes" where
  "clean_path raw_path = take 255 (takeWhile (\<lambda>b. b \<noteq> 63 \<and> b \<noteq> 35) raw_path)"

definition data_path :: "bytes \<Rightarrow> bool" where
  "data_path path \<longleftrightarrow> path \<noteq> [47] \<and> take 6 path = chars ''/data/''"

definition indexed_path :: "bytes \<Rightarrow> bool" where
  "indexed_path path \<longleftrightarrow> path \<noteq> [47] \<and> \<not> data_path path \<and> tl path \<noteq> [] \<and> last (tl path) = 47"

definition sub_path :: "bytes \<Rightarrow> bytes" where
  "sub_path path =
     (if path = [47] then chars ''index.html''
      else if indexed_path path then tl path @ chars ''index.html'' else tl path)"

definition base_path :: "bytes \<Rightarrow> bytes" where
  "base_path path = (let base_dir = (if data_path path then [] else chars ''web'')
     in base_dir @ (if base_dir \<noteq> [] then [47] else []))"

text \<open>
  The path of the file system for the path of a request: \<open>Inl\<close> a refusal (status and message), \<open>Inr\<close>
  the path relative to its base directory and the path itself.
\<close>

definition static_path :: "bytes \<Rightarrow> (string \<times> string) + (bytes \<times> bytes)" where
  "static_path raw_path =
     (if raw_path = [] \<or> hd raw_path \<noteq> 47 then Inl (''400 Bad Request'', ''bad-path'')
      else
        let path = clean_path raw_path; subpath = sub_path path
        in if strstr path [46, 46] \<noteq> None then Inl (''400 Bad Request'', ''invalid-path'')
           else if indexed_path path \<and> 256 \<le> length subpath then Inl (''414 URI Too Long'', ''path-too-long'')
           else if subpath = [] then Inl (''400 Bad Request'', ''bad-path'')
           else
             let rel = take 255 subpath; fs_path = base_path path @ rel
             in if 4096 \<le> length fs_path then Inl (''414 URI Too Long'', ''path-too-long'')
                else Inr (rel, fs_path))"

definition handle_static_file :: "'db api_env \<Rightarrow> ws_io \<Rightarrow> http_request \<Rightarrow> int \<times> ws_io" where
  "handle_static_file env io req =
     (if \<not> strcaseeq (rq_method req) (chars ''GET'') \<and> \<not> strcaseeq (rq_method req) (chars ''HEAD'') then
        plain io ''405 Method Not Allowed'' ''method-not-allowed''
      else
        (case static_path (rq_path req) of
           Inl (status, message) \<Rightarrow> plain io status message
         | Inr (rel, fs_path) \<Rightarrow>
             let f = ae_fs env fs_path
             in if fv_stat f = None \<or> ae_isdir env fs_path then
                  if rel = chars ''favicon.ico'' then
                    http_send_file io (status_line ''204 No Content'') (chars ''Content-Type: image/x-icon'' @ crlf) [] False
                  else plain io ''404 Not Found'' ''not-found''
                else if 10 * 1024 * 1024 < the (fv_stat f) then plain io ''413 Payload Too Large'' ''file-too-large''
                else if \<not> fv_open f then plain io ''500 Internal Server Error'' ''open-failed''
                else if \<not> ae_mem env then plain io ''500 Internal Server Error'' ''oom''
                else
                  let st_size = nat (the (fv_stat f)); buf = take st_size (fv_data f)
                  in if length buf \<noteq> st_size then plain io ''500 Internal Server Error'' ''read-failed''
                     else
                       let headers = chars ''Content-Type: '' @ chars (guess_mime fs_path) @ crlf
                       in if 256 \<le> length headers then plain io ''500 Internal Server Error'' ''header-too-long''
                          else http_send_file io (status_line ''200 OK'') headers buf
                                 (\<not> strcaseeq (rq_method req) (chars ''HEAD''))))"

section \<open>A request\<close>

definition content_length :: "http_request \<Rightarrow> nat" where
  "content_length req =
     (case Option.bind (http_get_header req (chars ''content-length'')) (strtol 10) of
        None \<Rightarrow> 0 | Some body_len \<Rightarrow> nat body_len)"

text \<open>The handler for the path; the bytes behind the body are what the buffer held before.\<close>

definition dispatch :: "'db api_env \<Rightarrow> (bytes \<Rightarrow> bytes \<Rightarrow> ws_io \<Rightarrow> 'db option \<Rightarrow> int \<times> ws_io \<times> 'db option \<times> host_effect list) \<Rightarrow>
    http_request \<Rightarrow> bytes \<Rightarrow> ws_io \<Rightarrow> 'db ws_context option \<Rightarrow> 'db api_result option" where
  "dispatch env upload req body io ctx =
     (let path = rq_path req; memory = body @ drop (length body) (ae_body_buf env)
      in if path = chars ''/login'' then Some (handle_login env io req ctx body)
         else if path = chars ''/signup'' then Some (handle_signup env io req ctx body)
         else if path = chars ''/logout'' then Some (handle_logout env io req ctx)
         else if path = chars ''/upload'' then Some (handle_upload upload io req ctx body)
         else if path = chars ''/admin/video/delete'' then Some (handle_admin_delete env io req ctx memory)
         else if path = chars ''/admin/video/update'' then Some (handle_admin_update env io req ctx memory)
         else if path = chars ''/admin/video/list'' then handle_admin_list env io req ctx
         else Some (done_with ctx (handle_static_file env io req)))"

definition http_api_handle :: "'db api_env \<Rightarrow> (bytes \<Rightarrow> bytes \<Rightarrow> ws_io \<Rightarrow> 'db option \<Rightarrow> int \<times> ws_io \<times> 'db option \<times> host_effect list) \<Rightarrow>
    http_request \<Rightarrow> bytes \<Rightarrow> ws_io \<Rightarrow> 'db ws_context option \<Rightarrow> 'db api_result option" where
  "http_api_handle env upload req pre_read_body io ctx =
     (let content_len = content_length req;
          is_upload = (rq_path req = chars ''/upload'');
          max_body = (if is_upload then 200 * 1024 * 1024 else HTTP_MAX_BODY)
      in if max_body < content_len then Some (done_with ctx (plain io ''413 Payload Too Large'' ''payload-too-large''))
         else if is_upload \<and> HTTP_MAX_BODY < content_len \<and> \<not> ae_mem env then
           Some (done_with ctx (plain io ''500 Internal Server Error'' ''oom''))
         else
           let to_copy = min (length pre_read_body) content_len;
               start = take to_copy pre_read_body;
               remaining = content_len - to_copy
           in if remaining = 0 then dispatch env upload req start io ctx
              else
                (case http_read_exact io remaining of
                   (None, io) \<Rightarrow> Some (done_with ctx (plain io ''400 Bad Request'' ''body-read-failed''))
                 | (Some rest, io) \<Rightarrow> dispatch env upload req (start @ rest) io ctx))"

section \<open>Responses as the peer sees them\<close>

text \<open>All of the response, or an error and a proper prefix of it.\<close>

lemma response_outcome:
  assumes "http_send_response io st headers body = (rc, io')"
    and "w = response_head st headers (length body) @ body"
  shows "rc = 0 \<and> io_out io' = io_out io @ w \<or> rc = -1 \<and> (\<exists>k < length w. io_out io' = io_out io @ take k w)"
proof -
  let ?h = "response_head st headers (length body)"
  have ne: "?h \<noteq> []" by (simp add: response_head_def crlf_def)
  obtain r1 io1 where c1: "http_write_all io ?h = (r1, io1)" by fastforce
  note o1 = write_all_outcome [OF c1 [unfolded http_write_all_def, folded write_all_def]]
  show ?thesis
  proof (cases "1024 \<le> length ?h \<or> r1 \<noteq> 0")
    case True
    then obtain k where "rc = -1" "k < length ?h" "io_out io' = io_out io @ take k ?h"
      using assms(1) c1 o1 ne by (cases "1024 \<le> length ?h") (auto simp: http_send_response_def Let_def)
    then show ?thesis unfolding assms(2) by (intro disjI2 conjI exI [of _ k]) auto
  next
    case False
    then have h: "io_out io1 = io_out io @ ?h" using o1 by auto
    show ?thesis
    proof (cases "body = []")
      case True
      with False assms h c1 show ?thesis by (auto simp: http_send_response_def Let_def)
    next
      case b: False
      then have c2: "http_write_all io1 body = (rc, io')"
        using False assms(1) c1 by (simp add: http_send_response_def Let_def)
      note o2 = write_all_outcome [OF c2 [unfolded http_write_all_def, folded write_all_def]]
      then show ?thesis
      proof (elim disjE conjE exE)
        assume "rc = 0" "io_out io' = io_out io1 @ body"
        with h show ?thesis by (simp add: assms(2))
      next
        fix k assume "rc = -1" "k < length body" "io_out io' = io_out io1 @ take k body"
        with h show ?thesis by (intro disjI2 conjI exI [of _ "length ?h + k"]) (auto simp: assms(2))
      qed
    qed
  qed
qed

end
