(* ===== verification/Api_Safety.thy ===== *)
theory Api_Safety
  imports Http_Api "HOL-Library.Sublist"
begin

text \<open>
  What the HTTP answers of \<open>src/http/api.c\<close> keep safe: which files a request can reach, who reaches
  the administration, and whether a response is well framed.
\<close>

section \<open>Which files are served\<close>

lemma strstr_sublist: "strstr s p = None \<longleftrightarrow> \<not> sublist p s"
proof -
  have "(\<exists>k \<le> length s. take (length p) (drop k s) = p) \<longleftrightarrow> sublist p s"
  proof
    assume "\<exists>k \<le> length s. take (length p) (drop k s) = p"
    then obtain k where "take (length p) (drop k s) = p" by blast
    then have "drop k s = p @ drop (length p) (drop k s)" by (metis append_take_drop_id)
    then have "s = take k s @ p @ drop (length p) (drop k s)" by (metis append_take_drop_id)
    then show "sublist p s" by (metis sublist_def)
  next
    assume "sublist p s"
    then obtain a b where "s = a @ p @ b" by (auto simp: sublist_def)
    then have "length a \<le> length s" "take (length p) (drop (length a) s) = p" by simp_all
    then show "\<exists>k \<le> length s. take (length p) (drop k s) = p" by blast
  qed
  moreover have "(\<exists>r. strstr s p = Some r) \<longleftrightarrow> (\<exists>k \<le> length s. take (length p) (drop k s) = p)"
  proof
    assume "\<exists>k \<le> length s. take (length p) (drop k s) = p"
    then have ex: "\<exists>k. k \<le> length s \<and> take (length p) (drop k s) = p" by blast
    let ?k = "LEAST k. k \<le> length s \<and> take (length p) (drop k s) = p"
    have "?k \<le> length s \<and> take (length p) (drop ?k s) = p" using LeastI_ex [OF ex] .
    moreover have "take (length p) (drop j s) \<noteq> p" if "j < ?k" for j
      using not_less_Least [OF that] that calculation by auto
    ultimately show "\<exists>r. strstr s p = Some r" unfolding strstr_Some by blast
  qed (auto simp: strstr_Some)
  ultimately show ?thesis by (metis not_None_eq option.exhaust)
qed

text \<open>The files below the two directories, reached without a parent step.\<close>

definition served :: "bytes \<Rightarrow> bool" where
  "served p \<longleftrightarrow> (prefix (chars ''web/'') p \<or> prefix (chars ''data/'') p) \<and> \<not> sublist [46, 46] p"

lemma dots_append:
  assumes "\<not> sublist [46, 46] a" and "\<not> sublist [46, 46] b" and "a = [] \<or> last a \<noteq> 46"
  shows "\<not> sublist [46, 46 :: u8] (a @ b)"
proof
  assume "sublist [46, 46] (a @ b)"
  then obtain x y where xy: "[46, 46] = x @ y" "suffix x a" "prefix y b"
    using assms(1,2) by (auto simp: sublist_append)
  then show False
    using assms by (cases x) (auto simp: suffix_def prefix_imp_sublist Cons_eq_append_conv split: if_splits)
qed

lemma dots_take: "\<not> sublist p s \<Longrightarrow> \<not> sublist p (take n s)"
  by (meson prefix_imp_sublist sublist_order.order_trans take_is_prefix)

lemma sub_path_dots:
  assumes "\<not> sublist [46, 46] path"
  shows "\<not> sublist [46, 46] (sub_path path)"
proof -
  have index: "\<not> sublist [46, 46] (chars ''index.html'')" by (simp add: chars_def sublist_code)
  have tail: "\<not> sublist [46, 46] (tl path)" using assms by (meson sublist_order.order_trans sublist_tl)
  have "\<not> sublist [46, 46] (tl path @ chars ''index.html'')" if "indexed_path path"
    using that by (intro dots_append [OF tail index]) (simp add: indexed_path_def)
  with index tail show ?thesis by (simp add: sub_path_def)
qed

lemma static_served:
  assumes "static_path raw = Inr (rel, p)"
  shows "served p"
proof -
  let ?path = "clean_path raw"
  have ok: "strstr ?path [46, 46] = None" and rel: "rel = take 255 (sub_path ?path)" and p: "p = base_path ?path @ rel"
    using assms by (auto simp: static_path_def Let_def split: if_splits)
  have "\<not> sublist [46, 46] ?path" using ok by (simp add: strstr_sublist)
  then have dots: "\<not> sublist [46, 46] rel" unfolding rel by (intro dots_take sub_path_dots)
  show ?thesis
  proof (cases "data_path ?path")
    case True
    then obtain r where r: "?path = chars ''/data/'' @ r" by (metis append_take_drop_id data_path_def)
    have "\<not> indexed_path ?path" "?path \<noteq> [47]" using True by (simp_all add: indexed_path_def data_path_def)
    then have "rel = take 255 (tl ?path)" by (simp add: rel sub_path_def)
    then have "prefix (chars ''data/'') rel" unfolding r by (simp add: chars_def)
    with True p dots show ?thesis by (simp add: served_def base_path_def)
  next
    case False
    then have "p = chars ''web/'' @ rel" using p by (simp add: base_path_def chars_def)
    moreover have "\<not> sublist [46, 46] (chars ''web/'' @ rel)"
      by (intro dots_append dots) (simp_all add: chars_def sublist_code)
    ultimately show ?thesis by (simp add: served_def)
  qed
qed

section \<open>Framing\<close>

lemma lines_without_blank:
  assumes "list_all line_ok ls" and "ls \<noteq> []"
  shows "strstr (join_lines [13, 10] ls @ [13, 10]) crlf_crlf = None"
  using assms
proof (induction "[13 :: u8, 10]" ls rule: join_lines.induct)
  case (2 l)
  have "strstr [13, 10] crlf_crlf = None" by code_simp
  with 2 show ?case by (simp add: line_ok_def crlf_crlf_def strstr_skip)
next
  case (3 l l' ls)
  let ?rest = "join_lines [13, 10] (l' # ls) @ [13, 10]"
  obtain c t where c: "?rest = c # t" "c \<noteq> 13"
    using 3(2) by (cases l'; cases ls) (auto simp: line_ok_def)
  have "strstr (13 # 10 # c # t) crlf_crlf = strstr (10 # c # t) crlf_crlf"
    using c(2) by (subst strstr.simps) (simp add: crlf_crlf_def)
  also have "\<dots> = strstr (c # t) crlf_crlf" by (subst strstr.simps) (simp add: crlf_crlf_def)
  finally have "strstr (13 # 10 # ?rest) crlf_crlf = strstr ?rest crlf_crlf" by (simp only: c(1))
  with 3 show ?case by (simp add: line_ok_def crlf_crlf_def strstr_skip)
qed simp

lemma separator_none: "strstr raw crlf_crlf = None \<Longrightarrow> find_separator raw = None"
proof (rule ccontr)
  assume none: "strstr raw crlf_crlf = None" and "find_separator raw \<noteq> None"
  then obtain k where "k \<le> length raw" "take 4 (drop k raw) = crlf_crlf" by (auto simp: find_separator_Some)
  then have "take k raw @ crlf_crlf @ drop (k + 4) raw = raw"
    by (metis add.commute append_take_drop_id drop_drop)
  then have "sublist crlf_crlf raw" by (metis sublist_def)
  with none show False by (simp add: strstr_sublist)
qed

text \<open>The lines of the head of the answer to a preflight request from \<open>orig\<close>.\<close>

definition preflight_lines :: "bytes \<Rightarrow> bytes list" where
  "preflight_lines orig = [chars ''HTTP/1.1 204 No Content'', chars ''Content-Length: 0'',
     chars ''Access-Control-Allow-Origin: '' @ orig, chars ''Access-Control-Allow-Credentials: true'',
     chars ''Access-Control-Allow-Headers: Content-Type, Authorization, Cookie'']"

definition methods_line :: bytes where
  "methods_line = chars ''Access-Control-Allow-Methods: GET, POST, DELETE, OPTIONS''"

lemma preflight_lines_ok:
  assumes "0 \<notin> set orig" and "10 \<notin> set orig" and "13 \<notin> set orig"
  shows "list_all line_ok (preflight_lines orig)"
  using assms by (simp add: preflight_lines_def line_ok_def chars_def)

lemma preflight_head:
  assumes "http_get_header req (chars ''origin'') = Some orig"
  shows "length orig \<le> 59 \<Longrightarrow> response_head (status_line ''204 No Content'') (http_build_cors req 256) 0 =
      join_lines [13, 10] (preflight_lines orig @ [methods_line]) @ crlf_crlf"
    and "61 \<le> length orig \<Longrightarrow> length orig \<le> 116 \<Longrightarrow>
      response_head (status_line ''204 No Content'') (http_build_cors req 256) 0 =
      join_lines [13, 10] (preflight_lines orig @ [take (117 - length orig) methods_line]) @ [13, 10]"
proof -
  have d: "dec_nat 0 = [48]" by (simp add: dec_nat.simps)
  let ?full = "concat (map (\<lambda>l. l @ [13, 10]) (drop 2 (preflight_lines orig)))"
  have cors: "http_build_cors req 256 = take 255 (?full @ methods_line @ [13, 10])"
    using assms by (simp add: http_build_cors_def snprintf_def preflight_lines_def methods_line_def crlf_def
        numeral_2_eq_2)
  have len: "length ?full = 138 + length orig" "length methods_line = 56"
    by (simp_all add: preflight_lines_def methods_line_def chars_def numeral_2_eq_2)
  have head: "response_head (status_line ''204 No Content'') h 0 =
      concat (map (\<lambda>l. l @ [13, 10]) (take 2 (preflight_lines orig))) @ h @ [13, 10]" for h
    by (simp add: response_head_def status_line_def d crlf_def preflight_lines_def chars_def numeral_2_eq_2)
  have all: "concat (map (\<lambda>l. l @ [13, 10]) (take 2 (preflight_lines orig))) @ ?full @ x =
      join_lines [13, 10] (preflight_lines orig @ [x])" for x
    by (simp add: preflight_lines_def numeral_2_eq_2)
  show "response_head (status_line ''204 No Content'') (http_build_cors req 256) 0 =
      join_lines [13, 10] (preflight_lines orig @ [methods_line]) @ crlf_crlf" if "length orig \<le> 59"
    using that len all [of methods_line] by (simp add: cors head crlf_crlf_def flip: append_assoc) 
  show "response_head (status_line ''204 No Content'') (http_build_cors req 256) 0 =
      join_lines [13, 10] (preflight_lines orig @ [take (117 - length orig) methods_line]) @ [13, 10]"
    if "61 \<le> length orig" "length orig \<le> 116"
    using that len all [of "take (117 - length orig) methods_line"] by (simp add: cors head flip: append_assoc)
qed

lemma preflight_separator:
  assumes "http_get_header req (chars ''origin'') = Some orig"
    and "0 \<notin> set orig" and "10 \<notin> set orig" and "13 \<notin> set orig"
    and "head = response_head (status_line ''204 No Content'') (http_build_cors req 256) 0"
  shows "length orig \<le> 59 \<Longrightarrow> find_separator head = Some (length head - 4)"
    and "61 \<le> length orig \<Longrightarrow> length orig \<le> 116 \<Longrightarrow> find_separator head = None"
proof -
  note ok = preflight_lines_ok [OF assms(2-4)]
  have m: "line_ok methods_line" by (simp add: methods_line_def line_ok_def chars_def)
  have cut: "line_ok (take n methods_line)" if "0 < n" for n
    using m that by (auto simp: line_ok_def dest: in_set_takeD)
  show "find_separator head = Some (length head - 4)" if "length orig \<le> 59"
  proof -
    have h: "head = join_lines [13, 10] (preflight_lines orig @ [methods_line]) @ crlf_crlf"
      using preflight_head(1) [OF assms(1) that] assms(5) by simp
    have "strstr head crlf_crlf = Some crlf_crlf"
      unfolding h using strstr_head [of "preflight_lines orig @ [methods_line]" "[]"] ok m by simp
    then show ?thesis using find_separator_strstr by (simp add: crlf_crlf_def)
  qed
  show "find_separator head = None" if "61 \<le> length orig" "length orig \<le> 116"
  proof -
    have h: "head = join_lines [13, 10] (preflight_lines orig @ [take (117 - length orig) methods_line]) @ [13, 10]"
      using preflight_head(2) [OF assms(1) that] assms(5) by simp
    show ?thesis
      unfolding h using ok cut that by (intro separator_none lines_without_blank) auto
  qed
qed

section \<open>Administration\<close>

lemma not_admin:
  assumes "sqlite_tables (ae_sq env) T"
    and "case session_extract_from_headers req (SESSION_ID_LEN + 1) of None \<Rightarrow> True | Some s \<Rightarrow> live T db s = None"
  obtains d where "is_admin_user env (Some db) req = (False, Some d)" and "tb_content T d = tb_content T db"
proof (cases "session_extract_from_headers req (SESSION_ID_LEN + 1)")
  case None
  then show ?thesis by (intro that [of db]) (simp_all add: is_admin_user_def)
next
  case (Some s)
  then have "live T db s = None" using assms(2) by simp
  from validate_dead [OF assms(1) this, of SESSION_TTL_SECONDS] obtain d where
    "session_validate_and_extend (ae_sq env) (Some db) (Some s) SESSION_TTL_SECONDS = (-1, None, Some d)"
    "tb_content T d = tb_content T db" .
  with Some show ?thesis by (intro that [of d]) (simp_all add: is_admin_user_def)
qed

section \<open>Properties\<close>

text \<open>
  C32: The file system is seen only below \<open>web\<close> and \<open>data\<close> and through paths without \<open>..\<close>: two hosts
  that agree on those files give the same answer to every request for a file.
\<close>

theorem static_confined:
  assumes "\<forall>p. served p \<longrightarrow> ae_fs env1 p = ae_fs env2 p \<and> ae_isdir env1 p = ae_isdir env2 p"
    and "ae_mem env1 = ae_mem env2"
  shows "handle_static_file env1 io req = handle_static_file env2 io req"
proof (cases "static_path (rq_path req)")
  case (Inl r)
  then show ?thesis by (cases r) (simp add: handle_static_file_def)
next
  case (Inr r)
  then obtain rel p where r: "static_path (rq_path req) = Inr (rel, p)" by (cases r) simp
  with assms static_served [OF r] have "ae_fs env1 p = ae_fs env2 p" "ae_isdir env1 p = ae_isdir env2 p" by auto
  with r assms(2) show ?thesis by (simp add: handle_static_file_def Let_def)
qed

text \<open>
  C33:: The administration is closed to a request without a live session: whatever its method and body
  and whatever statement fails, the answer is 403, the database keeps its contents, no file is removed
  and no command run.
\<close>

theorem admin_needs_session:
  assumes "sqlite_tables (ae_sq env) T" and "ctx_database ctx = Some db"
    and "case session_extract_from_headers req (SESSION_ID_LEN + 1) of None \<Rightarrow> True | Some s \<Rightarrow> live T db s = None"
    and "rq_path req \<in> {chars ''/admin/video/delete'', chars ''/admin/video/update'', chars ''/admin/video/list''}"
  shows "\<exists>d rc io'. plain io ''403 Forbidden'' ''admin-required'' = (rc, io') \<and> tb_content T d = tb_content T db \<and>
     dispatch env upload req body io ctx = Some (rc, io', set_db ctx (Some d), [])"
proof -
  obtain d where d: "is_admin_user env (Some db) req = (False, Some d)" "tb_content T d = tb_content T db"
    by (rule not_admin [OF assms(1,3)])
  obtain rc io' where p: "plain io ''403 Forbidden'' ''admin-required'' = (rc, io')" by fastforce
  have "dispatch env upload req body io ctx = Some (rc, io', set_db ctx (Some d), [])"
    using assms(2,4) d(1) p
    by (auto simp: dispatch_def handle_admin_delete_def handle_admin_update_def handle_admin_list_def done_with_def chars_def)
  with d(2) p show ?thesis by blast
qed

text \<open>
  The answer to a preflight request: with an origin of at most 59 characters its head ends with
  the blank line and has no other; with one of 61 to 116 characters the header text is cut in its
  last line and the answer has no blank line at all, so the peer never sees the end of its head.
\<close>

theorem preflight_framed:
  assumes "http_get_header req (chars ''origin'') = Some orig"
    and "0 \<notin> set orig" and "10 \<notin> set orig" and "13 \<notin> set orig"
    and "preflight io req = (0, io')"
  shows "\<exists>w. io_out io' = io_out io @ w \<and>
     (if length orig \<le> 59 then find_separator w = Some (length w - 4)
      else if 61 \<le> length orig \<and> length orig \<le> 116 then find_separator w = None
      else True)"
proof -
  let ?w = "response_head (status_line ''204 No Content'') (http_build_cors req 256) 0"
  have "io_out io' = io_out io @ ?w"
    using response_outcome [OF assms(5) [unfolded preflight_def] refl] by simp
  then show ?thesis using preflight_separator [OF assms(1-4) refl] by auto
qed

text \<open>
  A file that is served is sent whole: the head announces its type by the name and its length, and
  its bytes follow unchanged.
\<close>

theorem file_sent:
  assumes "strcaseeq (rq_method req) (chars ''GET'')" and "static_path (rq_path req) = Inr (rel, p)"
    and "fv_stat (ae_fs env p) = Some (int (length d))" and "fv_open (ae_fs env p)" and "fv_data (ae_fs env p) = d"
    and "\<not> ae_isdir env p" and "length d \<le> 10 * 1024 * 1024" and "ae_mem env"
    and "w = response_head (status_line ''200 OK'') (chars ''Content-Type: '' @ chars (guess_mime p) @ crlf) (length d) @ d"
    and "writes_ready io (length w)"
  shows "\<exists>io'. handle_static_file env io req = (0, io') \<and> io_out io' = io_out io @ w"
proof -
  let ?h = "response_head (status_line ''200 OK'') (chars ''Content-Type: '' @ chars (guess_mime p) @ crlf) (length d)"
  have mime: "length (chars (guess_mime p)) \<le> 40"
    by (auto simp: guess_mime_def chars_def split: option.split)
  have "length (dec_nat (length d)) \<le> 10" using assms(7) by (intro length_dec_nat) simp_all
  with mime have short: "length ?h < 1024" "length (chars ''Content-Type: '' @ chars (guess_mime p) @ crlf) < 256"
    by (simp_all add: response_head_def status_line_def crlf_def chars_def)
  have nohead: "\<not> strcaseeq (rq_method req) (chars ''HEAD'')"
    using assms(1) by (auto simp: strcaseeq_def chars_def tolower_def)
  have send: "handle_static_file env io req =
      http_send_file io (status_line ''200 OK'') (chars ''Content-Type: '' @ chars (guess_mime p) @ crlf) d True"
    using assms(1-8) short(2) nohead by (simp add: handle_static_file_def Let_def)
  obtain io1 where 1: "http_write_all io ?h = (0, io1)" "io_out io1 = io_out io @ ?h" "writes_ready io1 (length d)"
    using write_all_ready [of io ?h "length d"] assms(9,10) by (auto simp: http_write_all_def write_all_def)
  obtain io2 where 2: "http_write_all io1 d = (0, io2)" "io_out io2 = io_out io1 @ d"
    using write_all_ready [of io1 d 0] 1(3) by (auto simp: http_write_all_def write_all_def)
  show ?thesis
  proof (cases "d = []")
    case True
    with 1 short send assms(9) show ?thesis by (auto simp: http_send_file_def Let_def)
  next
    case False
    with 1 2 short send assms(9) show ?thesis by (auto simp: http_send_file_def Let_def)
  qed
qed

section \<open>Examples\<close>

definition db_file :: file_view where
  "db_file = \<lparr>fv_stat = Some 15, fv_open = True, fv_seek = True, fv_tell = 15, fv_data = chars ''SQLite format 3''\<rparr>"

definition sample_api :: "memory_db api_env" where
  "sample_api = \<lparr>ae_sq = memory_sqlite,
     ae_fs = (\<lambda>p. if p = chars ''data/ott.db'' then db_file
       else \<lparr>fv_stat = None, fv_open = False, fv_seek = False, fv_tell = 0, fv_data = []\<rparr>),
     ae_isdir = (\<lambda>_. False), ae_mem = True, ae_crypt_rn = memory_crypt, ae_gensalt_rn = (\<lambda>_ _ _ _. None),
     ae_device = \<lparr>rd_open = False, rd_reads = [], rd_close = []\<rparr>, ae_urandom = None, ae_body_buf = [],
     ae_user_row = \<lparr>us_id = 0, us_username = [], us_nickname = [], us_password_hash = [], us_role = [], us_created_at = []\<rparr>,
     ae_hash = []\<rparr>"

definition get_request :: "string \<Rightarrow> http_header list \<Rightarrow> http_request" where
  "get_request path hs = \<lparr>rq_method = chars ''GET'', rq_path = chars path, rq_version = chars ''HTTP/1.1'', rq_headers = hs\<rparr>"

definition api_context :: "memory_db ws_context" where
  "api_context = \<lparr>wc_quic_engine = None, wc_db = Some (Map.empty, 0), wc_next_packet_number = 1,
     wc_segment_sent_ok = 0, wc_segment_sent_fail = 0\<rparr>"

definition open_io :: ws_io where
  "open_io = \<lparr>io_in = [], io_out = [], io_reads = [], io_writes = replicate 1024 1\<rparr>"

theorem static_confined_witness:
  "handle_static_file sample_api open_io (get_request ''/../etc/passwd'' []) =
   handle_static_file (sample_api\<lparr>ae_fs := (ae_fs sample_api)(chars ''/etc/passwd'' := db_file)\<rparr>) open_io
     (get_request ''/../etc/passwd'' [])"
  by (rule static_confined) (auto simp: served_def chars_def)

text \<open>The session of the request expires at 10, and the clock shows 10.\<close>

theorem admin_needs_session_witness:
  "\<exists>d rc io'. plain open_io ''403 Forbidden'' ''admin-required'' = (rc, io') \<and> fst d = [[97] \<mapsto> (5, 10)] \<and>
     dispatch sample_api (\<lambda>_ _ io db. (0, io, db, []))
       (get_request ''/admin/video/delete'' [\<lparr>hd_name = chars ''authorization'', hd_value = chars ''Bearer a''\<rparr>]) [] open_io
       (Some (api_context\<lparr>wc_db := Some ([[97] \<mapsto> (5, 10)], 10)\<rparr>)) =
     Some (rc, io', Some (api_context\<lparr>wc_db := Some d\<rparr>), [])"
proof -
  let ?req = "get_request ''/admin/video/delete'' [\<lparr>hd_name = chars ''authorization'', hd_value = chars ''Bearer a''\<rparr>]"
  have "sqlite_tables (ae_sq sample_api) memory_tables" using memory_sqlite_tables by (simp add: sample_api_def)
  moreover have "session_extract_from_headers ?req (SESSION_ID_LEN + 1) = Some [97]" by code_simp
  moreover have "live memory_tables ([[97] \<mapsto> (5, 10)], 10) [97] = None" by (simp add: live_def memory_tables_def)
  ultimately show ?thesis
    using admin_needs_session [of sample_api memory_tables "Some (api_context\<lparr>wc_db := Some ([[97] \<mapsto> (5, 10)], 10)\<rparr>)"
        "([[97] \<mapsto> (5, 10)], 10)" ?req open_io "\<lambda>_ _ io db. (0, io, db, [])" "[]"]
    by (simp add: ctx_database_def get_request_def memory_tables_def set_db_def)
qed

theorem preflight_framed_witness:
  "\<exists>w. io_out (snd (preflight open_io (get_request ''/login'' [\<lparr>hd_name = chars ''origin'', hd_value = replicate 100 97\<rparr>]))) = w \<and>
     find_separator w = None"
proof -
  let ?req = "get_request ''/login'' [\<lparr>hd_name = chars ''origin'', hd_value = replicate 100 97\<rparr>]"
  have o: "http_get_header ?req (chars ''origin'') = Some (replicate 100 97)"
    by (simp add: http_get_header_def get_request_def)
  let ?h = "response_head (status_line ''204 No Content'') (http_build_cors ?req 256) 0"
  have len: "length ?h < 1024" by code_simp
  then have "writes_ready open_io (length ?h + 0)" by (simp add: open_io_def writes_ready_def)
  then obtain io' where "write_all open_io ?h = (0, io')" by (rule write_all_ready)
  with len have p: "preflight open_io ?req = (0, io')"
    by (simp add: preflight_def http_send_response_def http_write_all_def write_all_def Let_def)
  have "0 \<notin> set (replicate 100 97 :: bytes)" "10 \<notin> set (replicate 100 97 :: bytes)" "13 \<notin> set (replicate 100 97 :: bytes)"
    by simp_all
  from preflight_framed [OF o this p] have "\<exists>w. io_out io' = io_out open_io @ w \<and> find_separator w = None"
    by simp
  moreover have "io_out open_io = []" by (simp add: open_io_def)
  ultimately show ?thesis by (simp add: p)
qed

theorem file_sent_witness:
  "\<exists>io' h. handle_static_file sample_api open_io (get_request ''/data/ott.db'' []) = (0, io') \<and>
     io_out io' = h @ chars ''SQLite format 3''"
proof -
  let ?d = "chars ''SQLite format 3''" and ?p = "chars ''data/ott.db''"
  let ?w = "response_head (status_line ''200 OK'') (chars ''Content-Type: '' @ chars (guess_mime ?p) @ crlf) (length ?d) @ ?d"
  have "static_path (rq_path (get_request ''/data/ott.db'' [])) = Inr (?p, ?p)" by code_simp
  moreover have "length ?w \<le> 1024" by code_simp
  then have "writes_ready open_io (length ?w)" by (simp add: open_io_def writes_ready_def)
  moreover have "ae_fs sample_api ?p = db_file" "\<not> ae_isdir sample_api ?p" "ae_mem sample_api"
    by (simp_all add: sample_api_def)
  moreover have "fv_stat db_file = Some (int (length ?d))" "fv_open db_file" "fv_data db_file = ?d"
    "length ?d \<le> 10 * 1024 * 1024"
    by (simp_all add: db_file_def chars_def)
  moreover have "strcaseeq (rq_method (get_request ''/data/ott.db'' [])) (chars ''GET'')" by (simp add: get_request_def)
  ultimately have "\<exists>io'. handle_static_file sample_api open_io (get_request ''/data/ott.db'' []) = (0, io') \<and>
      io_out io' = io_out open_io @ ?w"
    by (intro file_sent [where p = ?p and rel = ?p]) simp_all
  then show ?thesis by (auto simp: open_io_def simp flip: append_assoc)
qed

end
