(* ===== verification/Login_Flow.thy ===== *)
theory Login_Flow
  imports Api_Safety
begin

text \<open>
  Logging in over HTTP: the body a page sends, the cookie of the answer, and what a later request
  with that cookie may do.
\<close>

section \<open>The body of a login\<close>

definition login_text :: "bytes \<Rightarrow> bytes \<Rightarrow> bytes" where
  \<open>login_text name pw = chars ''{"username":"'' @ name @ chars ''","password":"'' @ pw @ chars ''"}''\<close>

text \<open>The text of a value: not empty, short enough for its array, no quote and no terminator in it.\<close>

definition field_text_ok :: "bytes \<Rightarrow> bool" where
  "field_text_ok v \<longleftrightarrow> v \<noteq> [] \<and> length v < 128 \<and> 34 \<notin> set v \<and> 0 \<notin> set v"

lemma json_string_here:
  assumes "strstr json (34 # key @ [34]) = Some (34 # key @ 34 # 58 # 34 # v @ 34 # r)"
    and "length key < 62" and "field_text_ok v"
  shows "json_extract_string json key 128 = Some v"
proof -
  have "strchr (v @ 34 # r) 34 = Some (34 # r)" using assms(3) by (simp add: strchr_Some field_text_ok_def)
  with assms show ?thesis by (simp add: json_extract_string_def field_text_ok_def)
qed

lemma login_fields:
  assumes "field_text_ok name" and "field_text_ok pw" and "name \<noteq> chars ''password''"
  shows "json_extract_string (login_text name pw) (chars ''username'') 128 = Some name"
    and "json_extract_string (login_text name pw) (chars ''password'') 128 = Some pw"
proof -
  let ?u = "chars ''username''" and ?p = "chars ''password''"
  let ?rest = "34 # ?p @ 34 # 58 # 34 # pw @ 34 # [125]"
  have body: "login_text name pw = 123 # 34 # ?u @ 34 # 58 # 34 # name @ 34 # 44 # ?rest"
    by (simp add: login_text_def chars_def)
  have q: "34 \<notin> set ?u" "34 \<notin> set ?p" "?u \<noteq> ?p" "?p \<noteq> []" "hd ?p = 112" by (simp_all add: chars_def)
  have "strstr (login_text name pw) (34 # ?u @ [34]) = Some (34 # ?u @ 34 # 58 # 34 # name @ 34 # 44 # ?rest)"
    using strstr_found [of "34 # ?u @ [34]" "58 # 34 # name @ 34 # 44 # ?rest"] by (simp add: body strstr_skip_one)
  then show "json_extract_string (login_text name pw) ?u 128 = Some name"
    by (rule json_string_here) (simp_all add: assms chars_def)
  have "strstr (login_text name pw) (34 # ?p @ [34]) = strstr (34 # ?u @ 34 # (58 # 34 # name @ 34 # 44 # ?rest)) (34 # ?p @ [34])"
    by (simp add: body strstr_skip_one)
  also have "\<dots> = strstr (58 # 34 # name @ 34 # 44 # ?rest) (34 # ?p @ [34])"
    using q by (intro skip_quoted) simp_all
  also have "\<dots> = strstr (34 # name @ 34 # (44 # ?rest)) (34 # ?p @ [34])" by (simp add: strstr_skip_one)
  also have "\<dots> = strstr (44 # ?rest) (34 # ?p @ [34])"
    using q assms(1,3) by (intro skip_quoted) (simp_all add: field_text_ok_def)
  also have "\<dots> = strstr ?rest (34 # ?p @ [34])" by (simp add: strstr_skip_one)
  also have "\<dots> = Some ?rest" using strstr_found [of "34 # ?p @ [34]" "58 # 34 # pw @ 34 # [125]"] by simp
  finally show "json_extract_string (login_text name pw) ?p 128 = Some pw"
    by (rule json_string_here) (simp_all add: assms chars_def)
qed

text \<open>A user whose name is \<open>password\<close> cannot log in: the key is looked up in the text of the value.\<close>

lemma login_of_password: "json_extract_string (login_text (chars ''password'') pw) (chars ''password'') 128 = None"
proof -
  let ?u = "chars ''username''" and ?p = "chars ''password''"
  let ?rest = "34 # ?p @ 34 # 44 # 34 # ?p @ 34 # 58 # 34 # pw @ 34 # [125]"
  have "login_text ?p pw = 123 # 34 # ?u @ 34 # (58 # ?rest)" by (simp add: login_text_def chars_def)
  then have "strstr (login_text ?p pw) (34 # ?p @ [34]) = strstr (34 # ?u @ 34 # (58 # ?rest)) (34 # ?p @ [34])"
    by (simp add: strstr_skip_one)
  also have "\<dots> = strstr (58 # ?rest) (34 # ?p @ [34])"
    by (intro skip_quoted) (simp_all add: chars_def)
  also have "\<dots> = strstr ?rest (34 # ?p @ [34])" by (simp add: strstr_skip_one)
  also have "\<dots> = Some ?rest" using strstr_found [of "34 # ?p @ [34]"] by simp
  finally show ?thesis by (simp add: json_extract_string_def Let_def)
qed

section \<open>The cookie\<close>

lemma session_granted:
  assumes "sqlite_tables (ae_sq env) T" and "no_failures (ae_sq env) T" and "row \<in> users T db" and "0 < cell_int (row ! 0)"
    and "live T db sid = Some (cell_int (row ! 0))" and "session_extract_from_headers req (SESSION_ID_LEN + 1) = Some sid"
  shows "fst (is_admin_user env (Some db) req) = strcaseeq (us_role (user_of_row row)) (chars ''admin'')"
proof -
  obtain d t where v: "session_validate_and_extend (ae_sq env) (Some db) (Some sid) SESSION_TTL_SECONDS =
      (0, Some (cell_int (row ! 0)), Some d)" and d: "users T d = users T db"
    by (rule validate_live [OF assms(1,2,5,3) refl, of SESSION_TTL_SECONDS]) (simp_all add: SESSION_TTL_SECONDS_def)
  obtain rc u c where g: "db_get_user_by_id (ae_sq env) (Some d) (cell_int (row ! 0)) = (rc, u, c)" by (metis prod_cases3)
  from get_user_outcome(2) [OF assms(1) g, of row] assms(2,3) d have "rc = SQLITE_OK" "u = Some (user_of_row row)" by auto
  with v g assms(4,6) show ?thesis by (simp add: is_admin_user_def)
qed

lemma session_refused:
  assumes "sqlite_tables (ae_sq env) T" and "live T db sid = None"
    and "session_extract_from_headers req (SESSION_ID_LEN + 1) = Some sid"
  shows "\<not> fst (is_admin_user env (Some db) req)"
proof -
  have "case session_extract_from_headers req (SESSION_ID_LEN + 1) of None \<Rightarrow> True | Some s \<Rightarrow> live T db s = None"
    using assms(2,3) by simp
  from not_admin [OF assms(1) this] obtain d where "is_admin_user env (Some db) req = (False, Some d)" .
  then show ?thesis by simp
qed

lemma cookie_found:
  assumes "session_generate_id u n = Some sid" and "http_get_header req (chars ''authorization'') = None"
    and "http_get_header req (chars ''cookie'') = Some (cookie_text [(SID, sid)])"
  shows "session_extract_from_headers req (SESSION_ID_LEN + 1) = Some sid"
  using assms id_cookie [OF assms(1)] by (simp add: session_extract_from_headers_def SESSION_ID_LEN_def)

lemma headers_short:
  assumes "length sid = 64"
  shows "length (session_headers sid (http_build_cors req 256)) < 512"
proof -
  have "length (http_build_cors req 256) \<le> 255" by (simp only: http_build_cors_def Let_def snprintf_def length_take)
  with assms show ?thesis by (simp add: session_headers_def crlf_def chars_def)
qed

lemma cookie_in_head:
  "\<exists>a b. response_head st (session_headers sid cors) n @ t = a @ chars ''Set-Cookie: SID='' @ sid @ chars ''; HttpOnly'' @ b"
proof -
  have "chars ''; HttpOnly; Path=/; SameSite=Lax'' = chars ''; HttpOnly'' @ chars ''; Path=/; SameSite=Lax''"
    by (simp add: chars_def)
  then show ?thesis
    unfolding response_head_def session_headers_def
    by (intro exI [of _ "st @ chars ''Content-Length: '' @ dec_nat n @ crlf @ chars ''Content-Type: application/json'' @ crlf"]
        exI [of _ "chars ''; Path=/; SameSite=Lax'' @ crlf @ cors @ crlf @ t"]) simp
qed

lemma login_answer:
  assumes "sqlite_tables (ae_sq env) T" and "no_failures (ae_sq env) T" and "row \<in> users T db" and "cell_text (row ! 1) = Some name"
    and "verify_password (ae_crypt_rn env) (Some pw) (Some (us_password_hash (user_of_row row))) = 0"
    and "session_generate_id (ae_urandom env) 65 = Some sid" and "sessions T db sid = None"
    and "field_text_ok name" and "field_text_ok pw" and "name \<noteq> chars ''password''"
    and "strcaseeq (rq_method req) (chars ''POST'')" and "ctx_database ctx = Some db"
    and "handle_login env io req ctx (login_text name pw) = (rc, io', ctx', eff)"
  obtains d e t where "ctx_database ctx' = Some d" and "users T d = users T db" and "sessions T d sid = Some (cell_int (row ! 0), e)"
    and "tb_clock T db + SESSION_TTL_SECONDS \<le> e"
    and "http_send_response io (status_line ''200 OK'') (session_headers sid (http_build_cors req 256)) t = (rc, io')"
proof -
  obtain d1 e where login: "session_login (ae_sq env) (ae_crypt_rn env) (ae_urandom env) (Some db) (Some name) (Some pw) 65 = (0, Some sid, Some d1)"
    and d1: "users T d1 = users T db" "sessions T d1 sid = Some (cell_int (row ! 0), e)" "tb_clock T db + SESSION_TTL_SECONDS \<le> e"
    by (rule login_outcome [OF assms(1-7)])
  obtain rc2 u c2 where g: "db_get_user_by_username (ae_sq env) (Some d1) (Some name) = (rc2, u, c2)" by (metis prod_cases3)
  from get_user_outcome(1) [OF assms(1) g] obtain d2 where d2: "c2 = Some d2" "tb_content T d2 = tb_content T d1" by blast
  have body: "c_string (take HTTP_MAX_BODY (login_text name pw)) = login_text name pw"
  proof -
    have "length (login_text name pw) \<le> HTTP_MAX_BODY" "0 \<notin> set (login_text name pw)"
      using assms(8,9) by (simp_all add: login_text_def field_text_ok_def HTTP_MAX_BODY_def chars_def)
    then show ?thesis by (simp add: c_string_id)
  qed
  have opt: "\<not> strcaseeq (rq_method req) (chars ''OPTIONS'')"
    using assms(11) by (auto simp: strcaseeq_def chars_def tolower_def)
  obtain c where c: "ctx = Some c" using assms(12) by (cases ctx) (simp_all add: ctx_database_def)
  obtain t where "handle_login env io req ctx (login_text name pw) = done_with (Some (c\<lparr>wc_db := Some d2\<rparr>))
      (http_send_response io (status_line ''200 OK'') (session_headers sid (http_build_cors req 256)) t)"
    using assms(11,12) login g d2 body opt c login_fields [OF assms(8-10)] headers_short [OF conjunct1 [OF length_id [OF assms(6)]], of req]
    by (simp add: handle_login_def SESSION_ID_LEN_def Let_def set_db_def ctx_database_def)
  then show thesis
    using assms(13) d1 d2 by (intro that [of d2 e t]) (auto simp: done_with_def ctx_database_def)
qed

section \<open>Properties\<close>


section \<open>Examples\<close>

definition login_api :: "memory_db api_env" where
  "login_api = sample_api\<lparr>ae_urandom := Some (replicate 32 0xA7)\<rparr>"


end
