(* ===== verification/Upload.thy ===== *)
theory Upload
  imports Http_Api
begin

text \<open>
  \<open>src/server/upload.c\<close> and the commands of \<open>src/utils/thumbnail.c\<close>: the multipart parser and
  \<open>handle_upload_request\<close>. The record \<open>upload_env\<close> is what the host answers: whether a path exists, what
  a command returns, how many bytes \<open>fwrite\<close> takes (\<open>None\<close>: the file cannot be opened), the line a
  command prints (\<open>None\<close>: no pipe or no line) and what \<open>atof\<close> makes of it, cut to the integer that is
  stored; \<open>ue_heap\<close> is what the memory holds behind a block.
\<close>

section \<open>The host\<close>

record 'db upload_env =
  ue_sq :: "'db sqlite"
  ue_mem :: bool
  ue_access :: "bytes \<Rightarrow> bool"
  ue_system :: "bytes \<Rightarrow> int"
  ue_fwrite :: "bytes \<Rightarrow> nat option"
  ue_time :: int
  ue_popen :: "bytes \<Rightarrow> bytes option"
  ue_seconds :: "bytes \<Rightarrow> int"
  ue_heap :: bytes

definition ensure_dir :: "'db upload_env \<Rightarrow> bytes \<Rightarrow> int \<times> host_effect list" where
  "ensure_dir env path =
     (if ue_access env path then (0, [])
      else let cmd = snprintf 256 (chars ''mkdir -p '' @ path) in (ue_system env cmd, [System cmd]))"

definition write_file :: "'db upload_env \<Rightarrow> bytes \<Rightarrow> bytes \<Rightarrow> int \<times> host_effect list" where
  "write_file env path data =
     (case ue_fwrite env path of
        None \<Rightarrow> (-1, [])
      | Some n \<Rightarrow> (if length data \<le> n then 0 else -1, [Write path (take n data)]))"

definition video_extract_thumbnail :: "'db upload_env \<Rightarrow> bytes \<Rightarrow> bytes \<Rightarrow> bytes \<Rightarrow> int \<times> host_effect list" where
  \<open>video_extract_thumbnail env input_path output_path timestamp =
     (let cmd = snprintf 512 (chars ''ffmpeg -y -loglevel error -i "'' @ input_path @ chars ''" -ss '' @ timestamp
            @ chars '' -vframes 1 -q:v 2 "'' @ output_path @ chars ''"'')
      in (if ue_system env cmd = 0 then 0 else -1, [System cmd]))\<close>

definition video_probe_duration :: "'db upload_env \<Rightarrow> bytes \<Rightarrow> int option \<times> host_effect list" where
  \<open>video_probe_duration env input_path =
     (let cmd = snprintf 512 (chars ''ffprobe -v error -show_entries format=duration -of default=noprint_wrappers=1:nokey=1 "''
            @ input_path @ chars ''"'')
      in (map_option (ue_seconds env) (ue_popen env cmd), [System cmd]))\<close>

section \<open>Multipart bodies\<close>

text \<open>The rest of \<open>haystack\<close> from the first \<open>needle\<close> on.\<close>

definition find_bytes :: "bytes \<Rightarrow> bytes \<Rightarrow> bytes option" where
  "find_bytes haystack needle =
     (if haystack = [] \<or> needle = [] \<or> length haystack < length needle then None else strstr haystack needle)"

lemma find_bytes_length: "find_bytes h n = Some r \<Longrightarrow> length r \<le> length h \<and> n \<noteq> [] \<and> length n \<le> length r"
proof -
  assume f: "find_bytes h n = Some r"
  then have s: "strstr h n = Some r" and n: "n \<noteq> []" by (auto simp: find_bytes_def split: if_splits)
  then obtain k where "r = drop k h" "take (length n) r = n" by (auto simp: strstr_Some)
  then show ?thesis using n by (metis length_drop length_take diff_le_self min.cobounded1)
qed

text \<open>
  What the parser has found: the block of the file and \<open>*out_file_len\<close>, which are set apart, the
  title and the description.
\<close>

record form =
  fo_file :: "bytes option"
  fo_file_len :: nat
  fo_title :: bytes
  fo_desc :: bytes

text \<open>One part: its head as a C string of at most 511 characters, and its data.\<close>

definition part_name :: "bytes \<Rightarrow> bytes option" where
  \<open>part_name disp = map_option (drop 6) (strstr disp (chars ''name="''))\<close>

definition part_filename :: "bytes \<Rightarrow> bytes option" where
  \<open>part_filename disp = map_option (drop 10) (strstr disp (chars ''filename="''))\<close>

definition take_part :: "bool \<Rightarrow> bytes \<Rightarrow> bytes \<Rightarrow> form \<Rightarrow> form" where
  "take_part mem hdr data f =
     (let disp = strstr hdr (chars ''Content-Disposition:'');
          name = Option.bind disp part_name;
          filename = Option.bind disp part_filename
      in if filename \<noteq> None then
           (let f = f\<lparr>fo_file := (if mem then Some data else None)\<rparr>
            in if mem \<and> 0 < length data then f\<lparr>fo_file_len := length data\<rparr> else f)
         else
           (case name of
              None \<Rightarrow> f
            | Some nm \<Rightarrow>
                if take 5 nm = chars ''title'' then f\<lparr>fo_title := take 127 data\<rparr>
                else if take 11 nm = chars ''description'' then f\<lparr>fo_desc := take 255 data\<rparr>
                else f))"

definition trim_crlf :: "bytes \<Rightarrow> bytes" where
  "trim_crlf data =
     (if 2 \<le> length data \<and> drop (length data - 2) data = [13, 10] then take (length data - 2) data else data)"

function multipart_loop :: "bool \<Rightarrow> bytes \<Rightarrow> bytes \<Rightarrow> form \<Rightarrow> form" where
  "multipart_loop mem boundary p f =
     (case find_bytes p boundary of
        None \<Rightarrow> f
      | Some b \<Rightarrow>
          let p = drop (length boundary) b
          in if length p < 2 then f
             else if p ! 0 = 45 \<and> p ! 1 = 45 then f
             else
               (case find_bytes p crlf_crlf of
                  None \<Rightarrow> f
                | Some hdr_end \<Rightarrow>
                    let hdr_len = length p - length hdr_end;
                        hdr = c_string (take (if 512 \<le> hdr_len then 511 else hdr_len) p);
                        data_start = drop 4 hdr_end
                    in (case find_bytes data_start boundary of
                          None \<Rightarrow> f
                        | Some nxt \<Rightarrow>
                            let data = trim_crlf (take (length data_start - length nxt) data_start)
                            in multipart_loop mem boundary nxt (take_part mem hdr data f))))"
  by pat_completeness auto
termination
proof (relation "measure (\<lambda>(mem, boundary, p, f). length p)", goal_cases)
  case 1
  then show ?case by simp
next
  case (2 mem boundary p f b p' hdr_end hdr_len hdr data_start nxt data)
  have "length b \<le> length p" "boundary \<noteq> []" "length boundary \<le> length b"
    using find_bytes_length [OF 2(1)] by auto
  moreover have "length hdr_end \<le> length p'" using find_bytes_length [OF 2(5)] by simp
  moreover have "length nxt \<le> length data_start" using find_bytes_length [OF 2(9)] by simp
  moreover have "0 < length boundary" using \<open>boundary \<noteq> []\<close> by simp
  moreover have "length p' = length b - length boundary" "length data_start = length hdr_end - 4" using 2(2,8) by simp_all
  ultimately have "length nxt < length p" by linarith
  then show ?case by simp
qed

declare multipart_loop.simps [simp del]

text \<open>\<open>None\<close> for \<open>-1\<close>.\<close>

definition parse_multipart :: "bool \<Rightarrow> bytes \<Rightarrow> bytes \<Rightarrow> form option" where
  "parse_multipart mem body boundary =
     (let f = multipart_loop mem boundary body \<lparr>fo_file = None, fo_file_len = 0, fo_title = [], fo_desc = []\<rparr>
      in if fo_file f \<noteq> None \<and> 0 < fo_file_len f then Some f else None)"

section \<open>An upload\<close>

text \<open>One call of \<open>write\<close> or \<open>SSL_write\<close>, not repeated when it takes less than all.\<close>

definition write_resp :: "ws_io \<Rightarrow> bytes \<Rightarrow> ws_io" where
  "write_resp io resp = snd (io_write io resp)"

definition upload_headers :: bytes where
  "upload_headers = chars ''Content-Type: application/json'' @ crlf @ chars ''Access-Control-Allow-Origin: *'' @ crlf
     @ chars ''Access-Control-Allow-Credentials: true'' @ crlf @ crlf"

definition upload_error :: "ws_io \<Rightarrow> string \<Rightarrow> string \<Rightarrow> ws_io" where
  \<open>upload_error io status message = write_resp io (status_line status @ upload_headers
     @ chars ''{"status":"error","message":"'' @ chars message @ chars ''"}'')\<close>

definition boundary_of :: "bytes \<Rightarrow> bytes" where
  "boundary_of ct = rev (dropWhile (\<lambda>b. b = 13 \<or> b = 10) (rev (snprintf 128 ([45, 45] @ take 100 ct))))"

definition segment_command :: "int \<Rightarrow> bytes \<Rightarrow> bytes" where
  "segment_command video_id video_path =
     snprintf 512 (chars ''tools/segment_video.sh '' @ dec_int video_id @ [32] @ video_path)"

text \<open>The names of what an upload stores.\<close>

definition base_name :: "'db upload_env \<Rightarrow> bytes" where
  "base_name env = snprintf 64 (chars ''video_'' @ dec_int (ue_time env))"

definition video_file :: "'db upload_env \<Rightarrow> bytes" where
  "video_file env = snprintf 256 (chars ''data/videos/'' @ base_name env @ chars ''.mp4'')"

definition thumb_file :: "'db upload_env \<Rightarrow> bytes" where
  "thumb_file env = snprintf 256 (chars ''data/thumbs/'' @ base_name env @ chars ''.jpg'')"

text \<open>
  From the stored file on: the thumbnail, the row, the segments; when the row or the segments fail,
  what was stored is taken back. \<open>file_len\<close> bytes are written, past the block when it is shorter.
\<close>

definition store_upload :: "'db upload_env \<Rightarrow> form \<Rightarrow> ws_io \<Rightarrow> 'db option \<Rightarrow> int \<times> ws_io \<times> 'db option \<times> host_effect list" where
  \<open>store_upload env f io db =
     (let video_path = video_file env;
          (rc, e1) = write_file env video_path (take (fo_file_len f) (the (fo_file f) @ ue_heap env))
      in if rc \<noteq> 0 then (-1, io, db, e1)
         else
           let (probed, e0) = video_probe_duration env video_path;
               duration = (case probed of None \<Rightarrow> 0 | Some seconds \<Rightarrow> seconds);
               thumb_path = thumb_file env;
               (_, e2) = video_extract_thumbnail env video_path thumb_path (chars ''00:00:05'');
               title = c_string (fo_title f); desc = c_string (fo_desc f);
               (rc, new_id, db) = db_create_video (ue_sq env) db (Some (if title \<noteq> [] then title else base_name env))
                 (Some (if desc \<noteq> [] then desc else chars ''uploaded'')) (Some video_path) (Some thumb_path) None duration
           in if rc \<noteq> SQLITE_OK then (-1, io, db, e1 @ e0 @ e2 @ [Unlink video_path, Unlink thumb_path])
              else
                let video_id = (case new_id of None \<Rightarrow> 0 | Some i \<Rightarrow> i);
                    cmd = segment_command video_id video_path
                in if ue_system env cmd \<noteq> 0 then
                     let (_, db) = db_delete_video_by_id (ue_sq env) db video_id
                     in (-1, io, db, e1 @ e0 @ e2 @ [System cmd, Unlink video_path, Unlink thumb_path])
                   else
                     let (_, db) = db_update_video_segment_path (ue_sq env) db video_id
                           (Some (snprintf 256 (chars ''data/segments/'' @ dec_int video_id)));
                         resp = snprintf 256 (status_line ''200 OK'' @ upload_headers
                           @ chars ''{"status":"ok","video_id":'' @ dec_int video_id @ chars ''}'')
                     in (0, write_resp io resp, db, e1 @ e0 @ e2 @ [System cmd]))\<close>

definition handle_upload_request :: "'db upload_env \<Rightarrow> bytes \<Rightarrow> bytes \<Rightarrow> ws_io \<Rightarrow> 'db option \<Rightarrow>
    int \<times> ws_io \<times> 'db option \<times> host_effect list" where
  "handle_upload_request env content_type body io db =
     (if body = [] \<or> db = None then (-1, io, db, [])
      else if 2 * 1024 * 1024 * 1024 < length body then
        (-1, upload_error io ''413 Payload Too Large'' ''payload-too-large'', db, [])
      else
        (case strstr content_type (chars ''multipart/form-data; boundary='') of
           None \<Rightarrow> (-1, upload_error io ''400 Bad Request'' ''multipart-required'', db, [])
         | Some ct \<Rightarrow>
        (case strchr ct 61 of
           None \<Rightarrow> (-1, upload_error io ''400 Bad Request'' ''missing-boundary'', db, [])
         | Some ct \<Rightarrow>
             let boundary = boundary_of (tl ct)
             in if length boundary < 4 \<or> 127 \<le> length boundary then
                  (-1, upload_error io ''400 Bad Request'' ''invalid-boundary'', db, [])
                else
                  (case parse_multipart (ue_mem env) body boundary of
                     None \<Rightarrow> (-1, upload_error io ''400 Bad Request'' ''invalid-multipart'', db, [])
                   | Some f \<Rightarrow>
                       let (r1, d1) = ensure_dir env (chars ''data/videos'');
                           (r2, d2) = (if r1 \<noteq> 0 then (r1, []) else ensure_dir env (chars ''data/thumbs''));
                           (r3, d3) = (if r2 \<noteq> 0 then (r2, []) else ensure_dir env (chars ''data/segments''))
                       in if r3 \<noteq> 0 then (-1, io, db, d1 @ d2 @ d3)
                          else
                            let (rc, io, db, effects) = store_upload env f io db
                            in (rc, io, db, d1 @ d2 @ d3 @ effects)))))"

section \<open>Printed forms\<close>

text \<open>Parts, each a head and its data behind the boundary, and the closing boundary.\<close>

fun multipart_text :: "bytes \<Rightarrow> (bytes \<times> bytes) list \<Rightarrow> bytes" where
  "multipart_text B [] = B @ [45, 45, 13, 10]"
| "multipart_text B ((h, d) # parts) = B @ crlf @ h @ crlf_crlf @ d @ crlf @ multipart_text B parts"

definition title_head :: bytes where
  \<open>title_head = chars ''Content-Disposition: form-data; name="title"''\<close>

definition desc_head :: bytes where
  \<open>desc_head = chars ''Content-Disposition: form-data; name="description"''\<close>

definition file_head :: "bytes \<Rightarrow> bytes" where
  \<open>file_head fname = chars ''Content-Disposition: form-data; name="file"; filename="'' @ fname @ [34]\<close>

text \<open>
  The fields of the upload form as browsers and \<open>curl\<close> print them: the head of the file has more lines, such
  as \<open>Content-Type\<close>.
\<close>

datatype form_field =
    Title_field bytes
  | Desc_field bytes
  | File_field (file_name: bytes) (more_lines: "bytes list") bytes

fun field_part :: "form_field \<Rightarrow> bytes \<times> bytes" where
  "field_part (Title_field d) = (title_head, d)"
| "field_part (Desc_field d) = (desc_head, d)"
| "field_part (File_field fname extra d) = (join_lines [13, 10] (file_head fname # extra), d)"

definition form_text :: "bytes \<Rightarrow> form_field list \<Rightarrow> bytes" where
  "form_text B fs = multipart_text B (map field_part fs)"

text \<open>The boundary does not occur before its place behind the data.\<close>

definition apart :: "bytes \<Rightarrow> bytes \<Rightarrow> bool" where
  "apart B d \<longleftrightarrow> strstr (d @ crlf @ B) B = Some B"

fun field_ok :: "bytes \<Rightarrow> form_field \<Rightarrow> bool" where
  "field_ok B (Title_field d) \<longleftrightarrow> apart B d"
| "field_ok B (Desc_field d) \<longleftrightarrow> apart B d"
| "field_ok B (File_field fname extra d) \<longleftrightarrow>
     0 \<notin> set fname \<and> 10 \<notin> set fname \<and> 13 \<notin> set fname \<and> list_all line_ok extra \<and> apart B d"

definition part_ok :: "bytes \<Rightarrow> bytes \<times> bytes \<Rightarrow> bool" where
  "part_ok B part \<longleftrightarrow> (\<exists>ls. ls \<noteq> [] \<and> list_all line_ok ls \<and> fst part = join_lines [13, 10] ls) \<and> apart B (snd part)"

lemma drop_append_self: "drop (length a) (a @ b) = b"
  by simp

lemma strstr_extend:
  assumes "strstr (a @ p) p = Some p"
  shows "strstr (a @ p @ r) p = Some (p @ r)"
proof -
  obtain k where k: "k \<le> length (a @ p)" "drop k (a @ p) = p" "\<forall>j < k. take (length p) (drop j (a @ p)) \<noteq> p"
    using assms unfolding strstr_Some by metis
  have "length (drop k (a @ p)) = length p" using k(2) by simp
  then have ka: "k = length a" using k(1) by auto
  have "take (length p) (drop j (a @ p @ r)) \<noteq> p" if "j < k" for j
    using k(3) that ka by (auto simp: take_append)
  then show ?thesis
    unfolding strstr_Some ka by (intro exI [of _ "length a"]) auto
qed

lemma find_in: "strstr (a @ p) p = Some p \<Longrightarrow> p \<noteq> [] \<Longrightarrow> find_bytes (a @ p @ r) p = Some (p @ r)"
  using strstr_extend [of a p r] by (simp add: find_bytes_def)

lemma lines_ok_set:
  "list_all line_ok ls \<Longrightarrow> 0 \<notin> set (join_lines [13, 10] ls)"
  by (induction "[13 :: u8, 10]" ls rule: join_lines.induct) (auto simp: line_ok_def)

lemma header_end:
  assumes "list_all line_ok ls" and "ls \<noteq> []"
  shows "find_bytes (crlf @ join_lines [13, 10] ls @ crlf_crlf @ r) crlf_crlf = Some (crlf_crlf @ r)"
proof -
  obtain c t where c: "join_lines [13, 10] ls @ crlf_crlf @ r = c # t" "c \<noteq> 13"
    using assms by (cases ls rule: list.exhaust; cases "hd ls"; cases "tl ls") (auto simp: line_ok_def)
  have "strstr (13 # 10 # c # t) crlf_crlf = strstr (10 # c # t) crlf_crlf"
    using c(2) by (subst strstr.simps) (simp add: crlf_crlf_def)
  also have "\<dots> = strstr (c # t) crlf_crlf" by (subst strstr.simps) (simp add: crlf_crlf_def)
  also have "\<dots> = Some (crlf_crlf @ r)"
    using strstr_head [OF assms, of r] by (simp flip: c(1))
  finally have "strstr (crlf @ join_lines [13, 10] ls @ crlf_crlf @ r) crlf_crlf = Some (crlf_crlf @ r)"
    by (simp add: crlf_def c(1))
  then show ?thesis by (simp add: find_bytes_def crlf_crlf_def)
qed

text \<open>The loop hands the parts over one by one, with at most 511 bytes of each head.\<close>

lemma multipart_parts:
  assumes "B \<noteq> []"
  shows "list_all (part_ok B) parts \<Longrightarrow>
     multipart_loop mem B (multipart_text B parts) f = fold (\<lambda>(h, d). take_part mem (take 511 (crlf @ h)) d) parts f"
proof (induction parts arbitrary: f)
  case Nil
  have "find_bytes (B @ [45, 45, 13, 10]) B = Some (B @ [45, 45, 13, 10])"
    using assms by (simp add: find_bytes_def strstr_found)
  then show ?case by (subst multipart_loop.simps) simp
next
  case (Cons part parts)
  obtain h d where part: "part = (h, d)" by (cases part)
  obtain ls where ls: "list_all line_ok ls" "ls \<noteq> []" "h = join_lines [13, 10] ls" and ap: "apart B d"
    using Cons.prems by (auto simp: part_ok_def part)
  obtain r where r: "multipart_text B parts = B @ r"
    by (cases parts rule: list.exhaust; cases "hd parts") auto
  define ds where "ds = d @ crlf @ B @ r"
  define p where "p = crlf @ h @ crlf_crlf @ ds"
  have 1: "find_bytes (B @ p) B = Some (B @ p)" using assms by (simp add: find_bytes_def strstr_found)
  have 2: "find_bytes p crlf_crlf = Some (crlf_crlf @ ds)" unfolding p_def ls(3) by (rule header_end [OF ls(1,2)])
  have 3: "find_bytes ds B = Some (B @ r)"
    using find_in [of "d @ crlf" B r] ap assms by (simp add: apart_def ds_def)
  have 4: "\<not> length p < 2" "p ! 0 \<noteq> 45" by (simp_all add: p_def crlf_def)
  have four: "drop 4 (crlf_crlf @ ds) = ds" by (simp add: crlf_crlf_def)
  have len: "length p - length (crlf_crlf @ ds) = 2 + length h" by (simp add: p_def crlf_def)
  have hdr: "c_string (take (if 512 \<le> 2 + length h then 511 else 2 + length h) p) = take 511 (crlf @ h)"
  proof -
    have "take (2 + length h) p = crlf @ h" by (simp add: p_def crlf_def)
    then have "take (if 512 \<le> 2 + length h then 511 else 2 + length h) p = take 511 (crlf @ h)"
      by (cases "512 \<le> 2 + length h") (auto simp: p_def crlf_def)
    moreover have "0 \<notin> set (crlf @ h)" using lines_ok_set [OF ls(1)] ls(3) by (simp add: crlf_def)
    ultimately show ?thesis by (metis c_string_id in_set_takeD)
  qed
  have data: "trim_crlf (take (length ds - length (B @ r)) ds) = d"
    by (simp add: ds_def trim_crlf_def crlf_def)
  have "multipart_loop mem B (B @ p) f = multipart_loop mem B (B @ r) (take_part mem (take 511 (crlf @ h)) d f)"
    using 4 by (subst multipart_loop.simps) (simp only: 1 2 3 four len hdr data Let_def option.case
        append_eq_conv_conj if_False simp_thms drop_append_self)
  then show ?case using Cons by (simp add: part r p_def ds_def)
qed

text \<open>What the fields mean to \<open>take_part\<close>.\<close>

lemma field_part_ok: "field_ok B f \<Longrightarrow> part_ok B (field_part f)"
proof (cases f)
  case (File_field fname extra d)
  assume ok: "field_ok B f"
  then have "line_ok (file_head fname)" by (simp add: File_field file_head_def line_ok_def chars_def)
  then have "list_all line_ok (file_head fname # extra)" using ok by (simp add: File_field)
  then show ?thesis using ok unfolding File_field part_ok_def field_part.simps by (metis field_ok.simps(3) fst_conv list.discI snd_conv)
next
  case (Title_field d)
  assume "field_ok B f"
  then show ?thesis
    by (auto simp: Title_field part_ok_def title_head_def line_ok_def chars_def intro!: exI [of _ "[title_head]"])
next
  case (Desc_field d)
  assume "field_ok B f"
  then show ?thesis
    by (auto simp: Desc_field part_ok_def desc_head_def line_ok_def chars_def intro!: exI [of _ "[desc_head]"])
qed

fun take_field :: "form_field \<Rightarrow> form \<Rightarrow> form" where
  "take_field (Title_field d) f = f\<lparr>fo_title := take 127 d\<rparr>"
| "take_field (Desc_field d) f = f\<lparr>fo_desc := take 255 d\<rparr>"
| "take_field (File_field fname extra d) f = (let f = f\<lparr>fo_file := Some d\<rparr> in if d = [] then f else f\<lparr>fo_file_len := length d\<rparr>)"

lemma take_title: "take_part mem (take 511 (crlf @ title_head)) d f = f\<lparr>fo_title := take 127 d\<rparr>"
proof -
  let ?h = "take 511 (crlf @ title_head)"
  have "Option.bind (strstr ?h (chars ''Content-Disposition:'')) part_filename = None" by code_simp
  moreover have "map_option (take 5) (Option.bind (strstr ?h (chars ''Content-Disposition:'')) part_name) = Some (chars ''title'')"
    by code_simp
  ultimately show ?thesis by (auto simp: take_part_def Let_def)
qed

lemma take_desc: "take_part mem (take 511 (crlf @ desc_head)) d f = f\<lparr>fo_desc := take 255 d\<rparr>"
proof -
  let ?h = "take 511 (crlf @ desc_head)"
  have "Option.bind (strstr ?h (chars ''Content-Disposition:'')) part_filename = None" by code_simp
  moreover have n: "map_option (take 11) (Option.bind (strstr ?h (chars ''Content-Disposition:'')) part_name) = Some (chars ''description'')"
    by code_simp
  moreover have "map_option (take 5) (Option.bind (strstr ?h (chars ''Content-Disposition:'')) part_name) \<noteq> Some (chars ''title'')"
    by code_simp
  ultimately show ?thesis by (auto simp: take_part_def Let_def)
qed

lemma take_file: "take_part True (take 511 (crlf @ join_lines [13, 10] (file_head fname # extra))) d f =
    take_field (File_field fname extra d) f"
proof -
  let ?c = "chars ''Content-Disposition:''" and ?n = \<open>chars ''filename="''\<close>
  let ?m = \<open>chars '' form-data; name="file"; ''\<close>
  obtain r where r: "join_lines [13, 10] (file_head fname # extra) = file_head fname @ r" by (cases extra) auto
  define q where "q = take (511 - length (crlf @ ?c @ ?m @ ?n)) (fname @ [34] @ r)"
  have h: "take 511 (crlf @ join_lines [13, 10] (file_head fname # extra)) = crlf @ ?c @ ?m @ ?n @ q"
    unfolding r by (simp add: file_head_def q_def crlf_def chars_def)
  have "strstr (crlf @ ?c) ?c = Some ?c" by code_simp
  then have 1: "strstr (crlf @ ?c @ ?m @ ?n @ q) ?c = Some (?c @ ?m @ ?n @ q)"
    by (rule strstr_extend)
  have "strstr ((?c @ ?m) @ ?n) ?n = Some ?n" by code_simp
  then have "strstr ((?c @ ?m) @ ?n @ q) ?n = Some (?n @ q)" by (rule strstr_extend)
  then obtain y where y: "part_filename (?c @ ?m @ ?n @ q) = Some y" by (simp add: part_filename_def)
  show ?thesis unfolding h take_part_def Let_def 1 bind.simps y by simp
qed

lemma form_loop:
  assumes "B \<noteq> []" and "\<forall>x \<in> set fs. field_ok B x"
  shows "multipart_loop True B (form_text B fs) f = fold take_field fs f"
proof -
  have step: "(case field_part x of (h, d) \<Rightarrow> take_part True (take 511 (crlf @ h)) d) = take_field x" for x
    by (cases x; rule ext) (simp_all only: field_part.simps prod.case take_title take_desc take_file take_field.simps(1,2))
  have "list_all (part_ok B) (map field_part fs)" using assms(2) by (simp add: list_all_iff field_part_ok)
  from multipart_parts [OF assms(1) this] show ?thesis
    by (simp add: form_text_def fold_map comp_def step del: take_append)
qed

text \<open>
  A second file part without data: the block is the new, empty one, the length is still that of the
  first, and \<open>store_upload\<close> writes as many bytes of the memory behind it.
\<close>

lemma stale_length:
  assumes "B \<noteq> []" and "field_ok B (File_field a [] d)" and "field_ok B (File_field b [] [])" and "d \<noteq> []"
  shows "parse_multipart True (form_text B [File_field a [] d, File_field b [] []]) B =
     Some \<lparr>fo_file = Some [], fo_file_len = length d, fo_title = [], fo_desc = []\<rparr>"
  using assms form_loop [OF assms(1), of "[File_field a [] d, File_field b [] []]"]
  by (simp add: parse_multipart_def)

text \<open>The order of the fields does not matter.\<close>

lemma fields_taken:
  "set fs \<subseteq> {Title_field title, Desc_field desc, File_field fname extra file} \<Longrightarrow> file \<noteq> [] \<Longrightarrow>
     fold take_field fs f =
       \<lparr>fo_file = (if File_field fname extra file \<in> set fs then Some file else fo_file f),
        fo_file_len = (if File_field fname extra file \<in> set fs then length file else fo_file_len f),
        fo_title = (if Title_field title \<in> set fs then take 127 title else fo_title f),
        fo_desc = (if Desc_field desc \<in> set fs then take 255 desc else fo_desc f)\<rparr>"
  by (induction fs arbitrary: f) auto

lemma form_read_back:
  assumes "B \<noteq> []" and "set fs = {Title_field title, Desc_field desc, File_field fname extra file}"
    and "\<forall>x \<in> set fs. field_ok B x" and "file \<noteq> []"
  shows "parse_multipart True (form_text B fs) B =
     Some \<lparr>fo_file = Some file, fo_file_len = length file, fo_title = take 127 title, fo_desc = take 255 desc\<rparr>"
  using form_loop [OF assms(1,3)] fields_taken [OF equalityD1 [OF assms(2)] assms(4)] assms(2,4)
  by (simp add: parse_multipart_def)

section \<open>Properties\<close>

text \<open>
  C38:: The parser reads back what a browser prints: from the text of a form with a title, a description
  and a file that is not empty, in any order of the three, with any more lines such as a content type
  in the head of the file, and any boundary that does not occur in the data, it takes the file byte
  for byte, and the title and the description up to the size of their arrays.
\<close>

theorem multipart_read_back:
  assumes "B \<noteq> []" and "set fs = {Title_field title, Desc_field desc, File_field fname extra file}"
    and "\<forall>x \<in> set fs. field_ok B x" and "file \<noteq> []"
  shows "parse_multipart True (form_text B fs) B =
     Some \<lparr>fo_file = Some file, fo_file_len = length file, fo_title = take 127 title, fo_desc = take 255 desc\<rparr>"
  by (rule form_read_back [OF assms])

definition sample_fields :: "form_field list" where
  "sample_fields = [File_field (chars ''a.mp4'') [chars ''Content-Type: video/mp4''] [0, 13, 10, 45, 45],
     Title_field (chars ''Sea''), Desc_field []]"

lemma sample_fields_ok: "\<forall>x \<in> set sample_fields. field_ok (chars ''--x7'') x"
  by code_simp

theorem multipart_read_back_witness:
  "parse_multipart True (form_text (chars ''--x7'') sample_fields)
     (chars ''--x7'') = Some \<lparr>fo_file = Some [0, 13, 10, 45, 45], fo_file_len = 5, fo_title = chars ''Sea'', fo_desc = []\<rparr>"
proof -
  have "set sample_fields = {Title_field (chars ''Sea''), Desc_field [],
      File_field (chars ''a.mp4'') [chars ''Content-Type: video/mp4''] [0, 13, 10, 45, 45]}"
    by (auto simp: sample_fields_def)
  from multipart_read_back [OF _ this sample_fields_ok] show ?thesis by (simp add: chars_def)
qed

end
