(* ===== verification/Upload_Flow.thy ===== *)
theory Upload_Flow
  imports Upload
begin

text \<open>
  Uploads from the request to the disk: the form a browser sends ends up byte for byte in one file,
  named after the second of the upload, and in a row of the database, and an upload that fails takes
  its files back.
\<close>

section \<open>From the request to the form\<close>

definition form_type :: "bytes \<Rightarrow> bytes" where
  "form_type b = chars ''multipart/form-data; boundary='' @ b"

text \<open>A title, a description and a file that is not empty, in any order, behind a boundary that fits.\<close>

definition form_ok :: "bytes \<Rightarrow> form_field list \<Rightarrow> bytes \<Rightarrow> bytes \<Rightarrow> bytes \<Rightarrow> bool" where
  "form_ok b fs title desc data \<longleftrightarrow>
     2 \<le> length b \<and> length b \<le> 100 \<and> last b \<noteq> 13 \<and> last b \<noteq> 10 \<and> data \<noteq> [] \<and>
     (\<exists>fname extra. set fs = {Title_field title, Desc_field desc, File_field fname extra data}) \<and>
     (\<forall>x \<in> set fs. field_ok ([45, 45] @ b) x)"

lemma form_boundary:
  assumes "form_ok b fs title desc data"
  shows "strstr (form_type b) (chars ''multipart/form-data; boundary='') = Some (form_type b)"
    and "strchr (form_type b) 61 = Some (61 # b)" and "boundary_of b = [45, 45] @ b"
proof -
  show "strstr (form_type b) (chars ''multipart/form-data; boundary='') = Some (form_type b)"
    by (simp add: form_type_def strstr_found)
  show "strchr (form_type b) 61 = Some (61 # b)"
    by (simp add: form_type_def chars_def strchr_def)
  obtain a c where "b = a @ [c]" "c \<noteq> 13" "c \<noteq> 10" "length b \<le> 100"
    using assms by (cases b rule: rev_cases) (auto simp: form_ok_def)
  then show "boundary_of b = [45, 45] @ b"
    by (simp add: boundary_of_def snprintf_def)
qed

lemma form_parsed:
  assumes "form_ok b fs title desc data"
  shows "parse_multipart True (form_text ([45, 45] @ b) fs) ([45, 45] @ b) =
     Some \<lparr>fo_file = Some data, fo_file_len = length data, fo_title = take 127 title, fo_desc = take 255 desc\<rparr>"
  using assms form_read_back [of "[45, 45] @ b" fs title desc _ _ data] by (auto simp: form_ok_def)

section \<open>From the form to the disk\<close>

definition stored_duration :: "'db upload_env \<Rightarrow> int" where
  "stored_duration env = (case fst (video_probe_duration env (video_file env)) of None \<Rightarrow> 0 | Some s \<Rightarrow> s)"

fun on_file :: "host_effect \<Rightarrow> bool" where
  "on_file (System cmd) = False"
| "on_file _ = True"

text \<open>Commands leave the files of an upload alone; what a write does is on its file.\<close>

lemma command_effects:
  "ensure_dir env p = (rc, e) \<Longrightarrow> filter on_file e = []"
  "video_probe_duration env p = (d, e) \<Longrightarrow> filter on_file e = []"
  "video_extract_thumbnail env p q t = (rc, e) \<Longrightarrow> filter on_file e = []"
  "write_file env p data = (rc, e) \<Longrightarrow> filter on_file e = e"
  by (auto simp: ensure_dir_def video_probe_duration_def video_extract_thumbnail_def write_file_def Let_def
      split: if_splits option.splits)

text \<open>What the upload does to files: writes the video, and takes the video and the thumbnail back.\<close>

lemma store_effects:
  assumes "store_upload env f io db = (rc, io', db', eff)"
    and "write_file env (video_file env) (take (fo_file_len f) (the (fo_file f) @ ue_heap env)) = (wrc, w)"
  shows "filter on_file eff = (if wrc \<noteq> 0 \<or> rc = 0 then w else w @ [Unlink (video_file env), Unlink (thumb_file env)])
     \<and> (wrc \<noteq> 0 \<longrightarrow> rc \<noteq> 0)"
  using assms
  by (auto simp: store_upload_def Let_def command_effects split: prod.splits if_splits)

lemma write_cases:
  assumes "write_file env p data = (rc, e)"
  obtains d where "rc = 0" "e = [Write p d]" | "rc \<noteq> 0" "e = []"
    | d where "rc \<noteq> 0" "ue_fwrite env p = Some (length d)" "e = [Write p d]"
  using assms
proof (cases "ue_fwrite env p")
  case (Some n)
  then show ?thesis using assms that(1,3) by (cases "length data \<le> n") (auto simp: write_file_def intro: that(3) [of "take n data"])
qed (auto simp: write_file_def)

lemma form_text_ne: "form_text (x # b) fs \<noteq> []"
  by (cases fs; cases "hd fs") (simp_all add: form_text_def)

lemma form_stored:
  assumes "form_ok b fs title desc data" and "ue_mem env" and "\<forall>p. fst (ensure_dir env p) = 0"
    and "length (form_text ([45, 45] @ b) fs) \<le> 2 * 1024 * 1024 * 1024"
  shows "\<exists>dirs. filter on_file dirs = [] \<and>
     handle_upload_request env (form_type b) (form_text ([45, 45] @ b) fs) io (Some db) =
       (let (rc, io, db, eff) = store_upload env \<lparr>fo_file = Some data, fo_file_len = length data, fo_title = take 127 title,
              fo_desc = take 255 desc\<rparr> io (Some db)
        in (rc, io, db, dirs @ eff))"
proof -
  define body where "body = form_text ([45, 45] @ b) fs"
  note parsed = form_parsed [OF assms(1), folded body_def]
  have ne: "body \<noteq> []" using form_text_ne by (simp add: body_def)
  have len: "\<not> length b < 2" "\<not> 125 \<le> length b" using assms(1) by (simp_all add: form_ok_def)
  obtain d1 d2 d3 where d: "ensure_dir env (chars ''data/videos'') = (0, d1)" "ensure_dir env (chars ''data/thumbs'') = (0, d2)"
    "ensure_dir env (chars ''data/segments'') = (0, d3)"
    using assms(3) by (metis prod.collapse)
  have "filter on_file (d1 @ d2 @ d3) = []" using d command_effects(1) by fastforce
  moreover have "handle_upload_request env (form_type b) body io (Some db) =
      (let (rc, io, db, eff) = store_upload env \<lparr>fo_file = Some data, fo_file_len = length data, fo_title = take 127 title,
              fo_desc = take 255 desc\<rparr> io (Some db)
        in (rc, io, db, (d1 @ d2 @ d3) @ eff))"
    using assms(4) ne
    by (simp add: handle_upload_request_def form_boundary [OF assms(1)] parsed len d assms(2) not_less Let_def
        flip: body_def del: append.simps)
  ultimately show ?thesis unfolding body_def by blast
qed

section \<open>Properties\<close>

text \<open>
  C35:: An upload arrives: when the form a browser sends fits, in any order of its fields, the host does
  what it is asked and the row is created, the one thing that happens to files is that the bytes of the
  file, exactly those, are written under the name of the current second (replacing what an upload of the
  same second has left there), the row gets the path of its segments, and the answer carries its
  identifier.
\<close>

theorem upload_stored:
  assumes "form_ok b fs title desc data" and "ue_mem env" and "\<forall>p. fst (ensure_dir env p) = 0"
    and "length (form_text ([45, 45] @ b) fs) \<le> 2 * 1024 * 1024 * 1024"
    and "ue_fwrite env (video_file env) = Some n" and "length data \<le> n"
    and "db_create_video (ue_sq env) (Some db)
        (Some (if c_string (take 127 title) \<noteq> [] then c_string (take 127 title) else base_name env))
        (Some (if c_string (take 255 desc) \<noteq> [] then c_string (take 255 desc) else chars ''uploaded''))
        (Some (video_file env)) (Some (thumb_file env)) None (stored_duration env) = (SQLITE_OK, Some i, Some db1)"
    and "ue_system env (segment_command i (video_file env)) = 0"
  shows "\<exists>eff. handle_upload_request env (form_type b) (form_text ([45, 45] @ b) fs) io (Some db) =
       (0, write_resp io (snprintf 256 (status_line ''200 OK'' @ upload_headers
             @ chars ''{\"status\":\"ok\",\"video_id\":'' @ dec_int i @ chars ''}'')),
        snd (db_update_video_segment_path (ue_sq env) (Some db1) i (Some (snprintf 256 (chars ''data/segments/'' @ dec_int i)))),
        eff) \<and>
     filter on_file eff = [Write (video_file env) data]"
proof -
  let ?f = "\<lparr>fo_file = Some data, fo_file_len = length data, fo_title = take 127 title, fo_desc = take 255 desc\<rparr>"
  have w: "write_file env (video_file env) (take (fo_file_len ?f) (the (fo_file ?f) @ ue_heap env)) = (0, [Write (video_file env) data])"
    using assms(5,6) by (simp add: write_file_def)
  obtain d e0 where p: "video_probe_duration env (video_file env) = (d, e0)" by fastforce
  then have dur: "stored_duration env = (case d of None \<Rightarrow> 0 | Some s \<Rightarrow> s)" by (simp add: stored_duration_def)
  obtain eff where st: "store_upload env ?f io (Some db) = (0, write_resp io (snprintf 256 (status_line ''200 OK'' @ upload_headers
             @ chars ''{\"status\":\"ok\",\"video_id\":'' @ dec_int i @ chars ''}'')),
        snd (db_update_video_segment_path (ue_sq env) (Some db1) i (Some (snprintf 256 (chars ''data/segments/'' @ dec_int i)))), eff)"
    using w assms(7,8) by (simp add: store_upload_def p dur split_beta Let_def)
  with store_effects [OF st w] form_stored [OF assms(1-4), of io db] show ?thesis by auto
qed

text \<open>
  Whatever is sent and however the host and the database fail: an upload that succeeds has written its
  video and touched no other file; one that fails has written nothing, or has removed the video and
  its thumbnail again, or the disk was full, when the part that fitted stays behind.
\<close>

theorem upload_undone:
  assumes "handle_upload_request env ct body io db = (rc, io', db', eff)"
  shows "(\<exists>d. filter on_file eff = (if rc = 0 then [Write (video_file env) d]
        else [Write (video_file env) d, Unlink (video_file env), Unlink (thumb_file env)])) \<or>
     rc \<noteq> 0 \<and> (filter on_file eff = [] \<or>
        (\<exists>d. ue_fwrite env (video_file env) = Some (length d) \<and> filter on_file eff = [Write (video_file env) d]))"
proof -
  have stored: "(\<exists>d. filter on_file e = (if rc = 0 then [Write (video_file env) d]
        else [Write (video_file env) d, Unlink (video_file env), Unlink (thumb_file env)])) \<or>
     rc \<noteq> 0 \<and> (filter on_file e = [] \<or>
        (\<exists>d. ue_fwrite env (video_file env) = Some (length d) \<and> filter on_file e = [Write (video_file env) d]))"
    if st: "store_upload env f io db = (rc, io', db', e)" for f e
  proof -
    obtain wrc w where w: "write_file env (video_file env) (take (fo_file_len f) (the (fo_file f) @ ue_heap env)) = (wrc, w)"
      by fastforce
    from w show ?thesis by (cases rule: write_cases) (use store_effects [OF st w] in auto)
  qed
  from assms have "rc \<noteq> 0 \<and> filter on_file eff = [] \<or>
      (\<exists>f e. store_upload env f io db = (rc, io', db', e) \<and> filter on_file eff = filter on_file e)"
    by (auto simp: handle_upload_request_def Let_def command_effects split: if_splits option.splits prod.splits) blast+
  then show ?thesis
  proof (elim disjE exE conjE)
    fix f e
    assume "store_upload env f io db = (rc, io', db', e)" and "filter on_file eff = filter on_file e"
    with stored [of f e] show ?thesis by simp
  qed simp
qed

section \<open>Examples\<close>

definition sample_upload :: "memory_db upload_env" where
  "sample_upload = \<lparr>ue_sq = memory_sqlite, ue_mem = True, ue_access = (\<lambda>_. True), ue_system = (\<lambda>_. 0),
     ue_fwrite = (\<lambda>_. Some 1024), ue_time = 0, ue_popen = (\<lambda>_. None), ue_seconds = (\<lambda>_. 0), ue_heap = []\<rparr>"

definition silent_io :: ws_io where
  "silent_io = \<lparr>io_in = [], io_out = [], io_reads = [], io_writes = []\<rparr>"

lemma sample_form: "form_ok (chars ''x7'') sample_fields (chars ''Sea'') [] [0, 13, 10, 45, 45]"
  "length (form_text ([45, 45] @ chars ''x7'') sample_fields) \<le> 2 * 1024 * 1024 * 1024"
proof -
  have "set sample_fields = {Title_field (chars ''Sea''), Desc_field [],
      File_field (chars ''a.mp4'') [chars ''Content-Type: video/mp4''] [0, 13, 10, 45, 45]}"
    by (auto simp: sample_fields_def)
  moreover have "[45, 45] @ chars ''x7'' = chars ''--x7''" by (simp add: chars_def)
  ultimately show "form_ok (chars ''x7'') sample_fields (chars ''Sea'') [] [0, 13, 10, 45, 45]"
    using sample_fields_ok by (auto simp: form_ok_def chars_def)
  show "length (form_text ([45, 45] @ chars ''x7'') sample_fields) \<le> 2 * 1024 * 1024 * 1024"
    by (simp add: form_text_def sample_fields_def title_head_def desc_head_def file_head_def crlf_def crlf_crlf_def chars_def)
qed

lemma sample_created:
  "db_create_video memory_sqlite (Some (Map.empty, 0)) (Some t) (Some d) (Some v) (Some th) None n = (SQLITE_OK, Some 1, Some (Map.empty, 1))"
proof -
  have "sql_insert_video \<noteq> sql_get_session" "sql_insert_video \<noteq> sql_insert_session" "sql_insert_video \<noteq> sql_delete_session"
    "sql_insert_video \<noteq> sql_user_by_name"
    by (simp_all add: sql_insert_video_def sql_user_by_name_def sql_insert_session_def sql_get_session_def sql_delete_session_def chars_def quotes_def)
  moreover have "to_int 1 = 1" by (simp add: to_int_id)
  ultimately show ?thesis
    by (simp add: db_create_video_def run_insert_def memory_sqlite_def memory_step_def sqlite_codes Let_def)
qed

theorem upload_stored_witness:
  "\<exists>io' db' eff. handle_upload_request sample_upload (form_type (chars ''x7''))
       (form_text (chars ''--x7'') sample_fields) silent_io (Some (Map.empty, 0)) =
     (0, io', db', eff) \<and>
     filter on_file eff = [Write (chars ''data/videos/video_0.mp4'') [0, 13, 10, 45, 45]]"
proof -
  have "video_file sample_upload = chars ''data/videos/video_0.mp4''" by code_simp
  moreover have "[45, 45] @ chars ''x7'' = chars ''--x7''" by (simp add: chars_def)
  ultimately show ?thesis
    using upload_stored [OF sample_form(1) _ _ sample_form(2), of sample_upload 1024 "(Map.empty, 0)" 1 "(Map.empty, 1)" silent_io]
      sample_created
    by (auto simp: sample_upload_def ensure_dir_def)
qed

text \<open>The script that makes the segments fails.\<close>

theorem upload_undone_witness:
  "\<exists>io' db' eff. handle_upload_request (sample_upload\<lparr>ue_system := \<lambda>_. 1\<rparr>) (form_type (chars ''x7''))
       (form_text (chars ''--x7'') sample_fields) silent_io (Some (Map.empty, 0)) =
     (-1, io', db', eff) \<and>
     (\<exists>d. filter on_file eff = [Write (chars ''data/videos/video_0.mp4'') d, Unlink (chars ''data/videos/video_0.mp4''),
        Unlink (chars ''data/thumbs/video_0.jpg'')])"
proof -
  let ?E = "sample_upload\<lparr>ue_system := \<lambda>_. 1\<rparr>" and ?d = "[0, 13, 10, 45, 45] :: bytes"
  let ?f = "\<lparr>fo_file = Some ?d, fo_file_len = length ?d, fo_title = take 127 (chars ''Sea''), fo_desc = take 255 []\<rparr>"
  have w: "write_file ?E (video_file ?E) (take (fo_file_len ?f) (the (fo_file ?f) @ ue_heap ?E)) = (0, [Write (video_file ?E) ?d])"
    by (simp add: write_file_def sample_upload_def)
  obtain x y where "db_delete_video_by_id memory_sqlite (Some (Map.empty, 1)) 1 = (x, y)" by fastforce
  then obtain io' db' e where st: "store_upload ?E ?f silent_io (Some (Map.empty, 0)) = (-1, io', db', e)"
    using w sample_created by (simp add: store_upload_def Let_def split_beta) (simp add: sample_upload_def split_beta)
  have "ue_mem ?E" "\<forall>p. fst (ensure_dir ?E p) = 0" by (simp_all add: ensure_dir_def sample_upload_def)
  from form_stored [OF sample_form(1) this sample_form(2), of silent_io "(Map.empty, 0)"] obtain dirs where
    "filter on_file dirs = []" and run: "handle_upload_request ?E (form_type (chars ''x7''))
       (form_text ([45, 45] @ chars ''x7'') sample_fields) silent_io (Some (Map.empty, 0)) =
     (-1, io', db', dirs @ e)"
    by (simp only: st Let_def prod.case) blast
  moreover have "length (filter on_file e) = 3" using store_effects [OF st w] by simp
  ultimately have "\<exists>d. filter on_file (dirs @ e) = [Write (video_file ?E) d, Unlink (video_file ?E), Unlink (thumb_file ?E)]"
    using upload_undone [OF run] by auto
  moreover have "video_file ?E = chars ''data/videos/video_0.mp4''" "thumb_file ?E = chars ''data/thumbs/video_0.jpg''"
    by code_simp+
  moreover have "[45, 45] @ chars ''x7'' = chars ''--x7''" by (simp add: chars_def)
  ultimately show ?thesis using run by simp
qed

end
