(* ===== verification/Server_Pool.thy ===== *)
theory Server_Pool
  imports Prelude
begin

text \<open>
  \<open>src/server/server.c\<close>: the TCP server. The context and the functions of the main thread, the accept
  loop and the client threads. A pool is the context with where the accept thread stands and the
  client threads that run; a step of the relation is one critical section, or one call that decides
  how a thread goes on, so every interleaving of the threads is a run. What the socket calls and the
  TLS library answer is an argument of a function or the choice of a step. A TLS context is there
  or not.
\<close>

section \<open>The context\<close>

record 'ws server_ctx =
  sv_listen_fd :: int
  sv_running :: bool
  sv_client_count :: nat
  sv_max_clients :: nat
  sv_port :: u16
  sv_bind_ip :: bytes
  sv_ws_context :: "'ws option"
  sv_ssl_ctx :: bool

text \<open>A negative descriptor is closed already.\<close>

definition server_close_socket :: "int \<Rightarrow> int" where
  "server_close_socket fd = (if 0 \<le> fd then -1 else fd)"

text \<open>What the socket calls of \<open>server_init\<close> answer.\<close>

record socket_answers =
  sa_socket :: int
  sa_setsockopt :: int
  sa_inet_pton :: int
  sa_bind :: int
  sa_listen :: int

definition server_init :: "socket_answers \<Rightarrow> bytes option \<Rightarrow> u16 \<Rightarrow> int \<Rightarrow> 'ws server_ctx \<Rightarrow> int \<times> 'ws server_ctx" where
  "server_init sa bind_ip port max_clients ctx =
     (case bind_ip of
        None \<Rightarrow> (-1, ctx)
      | Some ip \<Rightarrow>
          if max_clients \<le> 0 then (-1, ctx)
          else
            let ctx = \<lparr>sv_listen_fd = sa_socket sa, sv_running = False, sv_client_count = 0, sv_max_clients = nat max_clients,
                  sv_port = port, sv_bind_ip = take 15 ip, sv_ws_context = None, sv_ssl_ctx = False\<rparr>;
                closed = ctx\<lparr>sv_listen_fd := server_close_socket (sa_socket sa)\<rparr>
            in if sa_socket sa < 0 then (-1, ctx)
               else if sa_setsockopt sa < 0 then (-1, closed)
               else if sa_inet_pton sa \<noteq> 1 then (-1, closed)
               else if sa_bind sa < 0 then (-1, closed)
               else if sa_listen sa < 0 then (-1, closed)
               else (0, ctx\<lparr>sv_running := True\<rparr>))"

text \<open>\<open>new_ctx\<close> and \<open>set_up\<close>: whether the TLS context can be made, and the answers to the four calls that set it up.\<close>

definition server_enable_tls :: "bool \<Rightarrow> int list \<Rightarrow> bytes option \<Rightarrow> bytes option \<Rightarrow> 'ws server_ctx \<Rightarrow> int \<times> 'ws server_ctx" where
  "server_enable_tls new_ctx set_up cert_path key_path ctx =
     (if cert_path = None \<or> key_path = None then (-1, ctx)
      else if \<not> new_ctx then (-1, ctx\<lparr>sv_ssl_ctx := False\<rparr>)
      else if list_ex (\<lambda>rc. rc \<noteq> 1) set_up then (-1, ctx\<lparr>sv_ssl_ctx := False\<rparr>)
      else (0, ctx\<lparr>sv_ssl_ctx := True\<rparr>))"

definition server_set_websocket_context :: "'ws option \<Rightarrow> 'ws server_ctx \<Rightarrow> 'ws server_ctx" where
  "server_set_websocket_context ws ctx = ctx\<lparr>sv_ws_context := ws\<rparr>"

definition server_request_stop :: "'ws server_ctx \<Rightarrow> 'ws server_ctx" where
  "server_request_stop ctx = ctx\<lparr>sv_running := False, sv_listen_fd := server_close_socket (sv_listen_fd ctx)\<rparr>"

definition server_destroy :: "'ws server_ctx \<Rightarrow> 'ws server_ctx" where
  "server_destroy ctx = \<lparr>sv_listen_fd = 0, sv_running = False, sv_client_count = 0, sv_max_clients = 0, sv_port = 0,
     sv_bind_ip = [], sv_ws_context = None, sv_ssl_ctx = False\<rparr>"

section \<open>The threads\<close>

text \<open>
  The accept thread waits in \<open>accept\<close>, or has counted a client whose thread is not started yet, or
  has ended. A client thread shakes hands first when there is a TLS context, then serves.
\<close>

datatype accept_phase = A_none | A_wait | A_counted | A_exited

datatype client_phase = C_handshake | C_serving

record 'ws pool =
  po_ctx :: "'ws server_ctx"
  po_accept :: accept_phase
  po_clients :: "client_phase list"

definition server_start :: "int \<Rightarrow> 'ws pool \<Rightarrow> int \<times> 'ws pool" where
  "server_start pthread_create p =
     (if sv_listen_fd (po_ctx p) < 0 then (-1, p)
      else if pthread_create \<noteq> 0 then (-1, p)
      else (0, p\<lparr>po_accept := A_wait\<rparr>))"

definition set_count :: "nat \<Rightarrow> 'ws pool \<Rightarrow> 'ws pool" where
  "set_count n p = p\<lparr>po_ctx := (po_ctx p)\<lparr>sv_client_count := n\<rparr>\<rparr>"

text \<open>\<open>accept\<close> failed: go on while the server runs.\<close>

definition accept_failed :: "'ws pool \<Rightarrow> 'ws pool" where
  "accept_failed p = (if sv_running (po_ctx p) then p else p\<lparr>po_accept := A_exited\<rparr>)"

text \<open>A connection: count it when there is room, otherwise send it away.\<close>

definition can_accept :: "'ws server_ctx \<Rightarrow> bool" where
  "can_accept ctx \<longleftrightarrow> sv_client_count ctx < sv_max_clients ctx"

definition accept_client :: "'ws pool \<Rightarrow> 'ws pool" where
  "accept_client p =
     (if can_accept (po_ctx p) then (set_count (sv_client_count (po_ctx p) + 1) p)\<lparr>po_accept := A_counted\<rparr> else p)"

text \<open>No memory for the task, or no thread: the client is not counted any more.\<close>

definition drop_client :: "'ws pool \<Rightarrow> 'ws pool" where
  "drop_client p = (set_count (sv_client_count (po_ctx p) - 1) p)\<lparr>po_accept := A_wait\<rparr>"

definition start_client :: "'ws pool \<Rightarrow> 'ws pool" where
  "start_client p = p\<lparr>po_accept := A_wait, po_clients := po_clients p @ [if sv_ssl_ctx (po_ctx p) then C_handshake else C_serving]\<rparr>"

definition remove_nth :: "nat \<Rightarrow> 'a list \<Rightarrow> 'a list" where
  "remove_nth i xs = take i xs @ drop (Suc i) xs"

text \<open>
  A client thread: the handshake succeeds; it fails, and the thread ends at \<open>done\<close>; the client has
  been served, and the thread ends after the critical section that counts it out.
\<close>

definition handshake_done :: "nat \<Rightarrow> 'ws pool \<Rightarrow> 'ws pool" where
  "handshake_done i p = p\<lparr>po_clients := (po_clients p)[i := C_serving]\<rparr>"

definition handshake_failed :: "nat \<Rightarrow> 'ws pool \<Rightarrow> 'ws pool" where
  "handshake_failed i p = p\<lparr>po_clients := remove_nth i (po_clients p)\<rparr>"

definition client_served :: "nat \<Rightarrow> 'ws pool \<Rightarrow> 'ws pool" where
  "client_served i p =
     (let n = sv_client_count (po_ctx p)
      in (set_count (if 0 < n then n - 1 else n) p)\<lparr>po_clients := remove_nth i (po_clients p)\<rparr>)"

definition stop_pool :: "'ws pool \<Rightarrow> 'ws pool" where
  "stop_pool p = p\<lparr>po_ctx := server_request_stop (po_ctx p)\<rparr>"

text \<open>\<open>server_join\<close> returns when the accept thread has ended and no client is counted.\<close>

definition server_join_returns :: "'ws pool \<Rightarrow> bool" where
  "server_join_returns p \<longleftrightarrow> po_accept p = A_exited \<and> \<not> 0 < sv_client_count (po_ctx p)"

inductive pool_step :: "'ws pool \<Rightarrow> 'ws pool \<Rightarrow> bool" where
  failed: "po_accept p = A_wait \<Longrightarrow> pool_step p (accept_failed p)"
| accepted: "po_accept p = A_wait \<Longrightarrow> pool_step p (accept_client p)"
| dropped: "po_accept p = A_counted \<Longrightarrow> pool_step p (drop_client p)"
| started: "po_accept p = A_counted \<Longrightarrow> pool_step p (start_client p)"
| shaken: "i < length (po_clients p) \<Longrightarrow> po_clients p ! i = C_handshake \<Longrightarrow> pool_step p (handshake_done i p)"
| shake_failed: "i < length (po_clients p) \<Longrightarrow> po_clients p ! i = C_handshake \<Longrightarrow> pool_step p (handshake_failed i p)"
| served: "i < length (po_clients p) \<Longrightarrow> po_clients p ! i = C_serving \<Longrightarrow> pool_step p (client_served i p)"
| stopped: "pool_step p (stop_pool p)"

inductive_cases pool_stepE: "pool_step p q"

definition initial_pool :: "'ws pool \<Rightarrow> bool" where
  "initial_pool p \<longleftrightarrow> po_accept p = A_wait \<and> po_clients p = [] \<and> sv_client_count (po_ctx p) = 0"

section \<open>Counting\<close>

text \<open>The clients there are: threads, and one that is about to get its thread.\<close>

definition clients :: "'ws pool \<Rightarrow> nat" where
  "clients p = length (po_clients p) + (if po_accept p = A_counted then 1 else 0)"

definition pool_ok :: "'ws pool \<Rightarrow> bool" where
  "pool_ok p \<longleftrightarrow> clients p \<le> sv_client_count (po_ctx p) \<and> sv_client_count (po_ctx p) \<le> sv_max_clients (po_ctx p) \<and>
     (\<not> sv_ssl_ctx (po_ctx p) \<longrightarrow> C_handshake \<notin> set (po_clients p) \<and> clients p = sv_client_count (po_ctx p))"

lemmas pool_ops = accept_failed_def accept_client_def drop_client_def start_client_def handshake_done_def
  handshake_failed_def client_served_def stop_pool_def server_request_stop_def set_count_def can_accept_def

lemma length_remove_nth [simp]: "i < length xs \<Longrightarrow> length (remove_nth i xs) = length xs - 1"
  by (simp add: remove_nth_def min_def)

lemma set_remove_nth: "set (remove_nth i xs) \<subseteq> set xs"
  by (auto simp: remove_nth_def dest: in_set_takeD in_set_dropD)

lemma pool_step_config:
  "pool_step p q \<Longrightarrow> sv_max_clients (po_ctx q) = sv_max_clients (po_ctx p) \<and> sv_ssl_ctx (po_ctx q) = sv_ssl_ctx (po_ctx p)"
  by (erule pool_stepE) (auto simp: pool_ops Let_def)

lemma pool_step_ok:
  assumes "pool_step p q" and "pool_ok p"
  shows "pool_ok q"
  using assms
proof (cases rule: pool_step.cases)
  case (shake_failed i)
  moreover have "C_handshake \<in> set (po_clients p)" using shake_failed nth_mem by metis
  ultimately show ?thesis
    using assms(2) by (auto simp: pool_ok_def clients_def pool_ops split: if_splits)
next
  case (shaken i)
  moreover have "C_handshake \<in> set (po_clients p)" using shaken nth_mem by metis
  ultimately show ?thesis
    using assms(2) by (auto simp: pool_ok_def clients_def pool_ops split: if_splits)
next
  case (served i)
  then show ?thesis
    using assms(2) set_remove_nth [of i "po_clients p"]
    by (auto simp: pool_ok_def clients_def pool_ops Let_def split: if_splits)
qed (auto simp: pool_ok_def clients_def pool_ops split: if_splits)

lemma pool_run_ok: "pool_step\<^sup>*\<^sup>* p q \<Longrightarrow> pool_ok p \<Longrightarrow> pool_ok q"
  by (induction rule: rtranclp_induct) (auto intro: pool_step_ok)

lemma initial_ok: "initial_pool p \<Longrightarrow> pool_ok p"
  by (simp add: initial_pool_def pool_ok_def clients_def)

text \<open>Clients that are counted but gone: their number never falls, and a failed handshake adds one.\<close>

definition leaked :: "'ws pool \<Rightarrow> nat" where
  "leaked p = sv_client_count (po_ctx p) - clients p"

lemma leaked_step:
  assumes "pool_step p q" and "pool_ok p"
  shows "leaked p \<le> leaked q"
  using assms
proof (cases rule: pool_step.cases)
  case (served i)
  then have "clients (client_served i p) = clients p - 1" "0 < clients p"
    by (auto simp: clients_def pool_ops Let_def)
  with served assms(2) show ?thesis by (auto simp: leaked_def pool_ok_def pool_ops Let_def)
qed (auto simp: leaked_def pool_ok_def clients_def pool_ops split: if_splits)

lemma leaked_run: "pool_step\<^sup>*\<^sup>* p q \<Longrightarrow> pool_ok p \<Longrightarrow> leaked p \<le> leaked q"
  by (induction rule: rtranclp_induct) (auto intro: order_trans leaked_step pool_run_ok)

lemma config_run:
  "pool_step\<^sup>*\<^sup>* p q \<Longrightarrow> sv_max_clients (po_ctx q) = sv_max_clients (po_ctx p) \<and> sv_ssl_ctx (po_ctx q) = sv_ssl_ctx (po_ctx p)"
  by (induction rule: rtranclp_induct) (auto dest: pool_step_config)

text \<open>A full leak leaves no room for a client, and it stays.\<close>

lemma full_leak:
  assumes "pool_ok p" and "leaked p = sv_max_clients (po_ctx p)"
  shows "po_clients p = []" and "accept_client p = p" and "sv_client_count (po_ctx p) = sv_max_clients (po_ctx p)"
  using assms by (cases "po_clients p"; auto simp: leaked_def pool_ok_def clients_def accept_client_def can_accept_def
      split: if_splits)+

lemma full_leak_stays:
  assumes "pool_ok p" and "leaked p = sv_max_clients (po_ctx p)" and "pool_step\<^sup>*\<^sup>* p q"
  shows "pool_ok q" and "leaked q = sv_max_clients (po_ctx q)"
proof -
  show ok: "pool_ok q" by (rule pool_run_ok [OF assms(3,1)])
  have "leaked q \<le> sv_max_clients (po_ctx q)" using ok by (auto simp: leaked_def pool_ok_def)
  moreover have "sv_max_clients (po_ctx p) \<le> leaked q" using leaked_run [OF assms(3,1)] assms(2) by simp
  ultimately show "leaked q = sv_max_clients (po_ctx q)" using config_run [OF assms(3)] by simp
qed

text \<open>One client whose handshake fails: accepted, started, gone.\<close>

lemma failed_handshake:
  assumes "po_accept p = A_wait" and "po_clients p = []" and "sv_ssl_ctx (po_ctx p)" and "can_accept (po_ctx p)"
  shows "\<exists>q. pool_step\<^sup>*\<^sup>* p q \<and> po_accept q = A_wait \<and> po_clients q = [] \<and>
     sv_client_count (po_ctx q) = sv_client_count (po_ctx p) + 1"
proof -
  let ?a = "accept_client p"
  let ?b = "start_client ?a"
  let ?c = "handshake_failed 0 ?b"
  have "pool_step p ?a" using assms(1) by (rule accepted)
  moreover have "pool_step ?a ?b" using assms by (intro started) (simp add: accept_client_def)
  moreover have "pool_step ?b ?c" using assms by (intro shake_failed) (simp_all add: pool_ops)
  ultimately have "pool_step\<^sup>*\<^sup>* p ?c" by (meson converse_rtranclp_into_rtranclp rtranclp.rtrancl_refl)
  moreover have "po_accept ?c = A_wait \<and> po_clients ?c = [] \<and> sv_client_count (po_ctx ?c) = sv_client_count (po_ctx p) + 1"
    using assms by (simp add: pool_ops remove_nth_def)
  ultimately show ?thesis by blast
qed

lemma failed_handshakes:
  assumes "initial_pool p" and "sv_ssl_ctx (po_ctx p)"
  shows "k \<le> sv_max_clients (po_ctx p) \<Longrightarrow> \<exists>q. pool_step\<^sup>*\<^sup>* p q \<and> po_accept q = A_wait \<and> po_clients q = [] \<and>
     sv_client_count (po_ctx q) = k"
proof (induction k)
  case 0
  show ?case using assms(1) by (intro exI [of _ p]) (simp add: initial_pool_def)
next
  case (Suc k)
  then obtain q where q: "pool_step\<^sup>*\<^sup>* p q" "po_accept q = A_wait" "po_clients q = []" "sv_client_count (po_ctx q) = k" by auto
  note c = config_run [OF q(1)]
  have "sv_ssl_ctx (po_ctx q)" "can_accept (po_ctx q)" using c q(4) Suc.prems assms(2) by (simp_all add: can_accept_def)
  from failed_handshake [OF q(2,3) this] q show ?case by (metis Suc_eq_plus1 rtranclp_trans)
qed

section \<open>Properties\<close>

text \<open>
  C40: At no moment, in no interleaving of the accept loop and the client threads, are there more
  clients than the limit; without TLS the counter is exactly the number of clients; and when
  \<open>server_join\<close> returns no client thread runs.
\<close>

theorem pool_bounded:
  assumes "initial_pool p" and "pool_step\<^sup>*\<^sup>* p q"
  shows "clients q \<le> sv_max_clients (po_ctx p) \<and>
     (sv_ssl_ctx (po_ctx p) \<or> sv_client_count (po_ctx q) = clients q) \<and>
     (server_join_returns q \<longrightarrow> po_clients q = [])"
  using pool_run_ok [OF assms(2) initial_ok [OF assms(1)]] config_run [OF assms(2)]
  by (auto simp: pool_ok_def server_join_returns_def clients_def)

text \<open>
  With TLS, as many failed handshakes as there may be clients bring the server to a state without
  any client from which, whatever happens, it sends every client away and \<open>server_join\<close> never
  returns: the thread of a failed handshake ends without counting its client out.
\<close>

theorem handshakes_exhaust:
  assumes "initial_pool p" and "sv_ssl_ctx (po_ctx p)" and "0 < sv_max_clients (po_ctx p)"
  shows "\<exists>q. pool_step\<^sup>*\<^sup>* p q \<and> po_clients q = [] \<and>
     (\<forall>r. pool_step\<^sup>*\<^sup>* q r \<longrightarrow> accept_client r = r \<and> \<not> server_join_returns r)"
proof -
  obtain q where q: "pool_step\<^sup>*\<^sup>* p q" "po_accept q = A_wait" "po_clients q = []"
    "sv_client_count (po_ctx q) = sv_max_clients (po_ctx p)"
    using failed_handshakes [OF assms(1,2) order_refl] by blast
  have ok: "pool_ok q" by (rule pool_run_ok [OF q(1) initial_ok [OF assms(1)]])
  have full: "leaked q = sv_max_clients (po_ctx q)"
    using q config_run [OF q(1)] by (simp add: leaked_def clients_def)
  have "accept_client r = r \<and> \<not> server_join_returns r" if r: "pool_step\<^sup>*\<^sup>* q r" for r
    using full_leak [OF full_leak_stays [OF ok full r]] config_run [OF r] config_run [OF q(1)] assms(3)
    by (simp add: server_join_returns_def)
  with q show ?thesis by blast
qed

definition sample_pool :: "bool \<Rightarrow> unit pool" where
  "sample_pool tls = \<lparr>po_ctx = \<lparr>sv_listen_fd = 3, sv_running = True, sv_client_count = 0, sv_max_clients = 5, sv_port = 8080,
     sv_bind_ip = [], sv_ws_context = None, sv_ssl_ctx = tls\<rparr>, po_accept = A_wait, po_clients = []\<rparr>"

theorem pool_bounded_witness:
  "clients (start_client (accept_client (sample_pool False))) \<le> 5 \<and>
   sv_client_count (po_ctx (start_client (accept_client (sample_pool False)))) = 1"
proof -
  let ?p = "sample_pool False"
  have i: "initial_pool ?p" by (simp add: sample_pool_def initial_pool_def)
  have "pool_step ?p (accept_client ?p)" by (rule accepted) (simp add: sample_pool_def)
  moreover have "pool_step (accept_client ?p) (start_client (accept_client ?p))"
    by (rule started) (simp add: sample_pool_def pool_ops)
  ultimately have "pool_step\<^sup>*\<^sup>* ?p (start_client (accept_client ?p))"
    by (meson converse_rtranclp_into_rtranclp rtranclp.rtrancl_refl)
  from pool_bounded [OF i this] show ?thesis by (simp add: sample_pool_def pool_ops)
qed

theorem handshakes_exhaust_witness:
  "\<exists>q. pool_step\<^sup>*\<^sup>* (sample_pool True) q \<and> accept_client q = q \<and> \<not> server_join_returns q"
  using handshakes_exhaust [of "sample_pool True"] by (auto simp: sample_pool_def initial_pool_def)

end
