(* ===== verification/Server_System.thy ===== *)
theory Server_System
  imports Ws_Dialogue Login_Flow Upload_Flow Server_Pool
begin

text \<open>
  The parts together: a client thread with the HTTP answers and the uploads of this program behind
  \<open>websocket_handle_client\<close>.
\<close>

section \<open>A client thread\<close>

definition client_thread :: "sha1_ctx \<Rightarrow> 'db api_env \<Rightarrow> 'db upload_env \<Rightarrow> (nat \<Rightarrow> 'db ws_env) \<Rightarrow> ws_io \<Rightarrow>
    'db ws_context option \<Rightarrow> 'db api_result option" where
  "client_thread local aenv uenv env io ctx =
     websocket_handle_client local (http_api_handle aenv (handle_upload_request uenv)) env io ctx"

lemma admin_list_in_bounds: "handle_admin_list env io req ctx \<noteq> None"
proof -
  have "rows_loop 8192 item rows True start \<noteq> None" for item :: "sql_cell list \<Rightarrow> bytes" and rows start
    using rows_loop_spec [of True start 8192 item rows] by auto
  then show ?thesis by (simp add: handle_admin_list_def split_beta Let_def del: not_None_eq)
qed

lemma api_in_bounds: "http_api_handle env upload req b io ctx \<noteq> None"
proof -
  have "dispatch env upload req body io ctx \<noteq> None" for body io
    by (simp add: dispatch_def Let_def admin_list_in_bounds del: not_None_eq)
  then show ?thesis by (simp add: http_api_handle_def Let_def del: not_None_eq split: prod.split option.split)
qed

text \<open>The answers of this program keep the contract of the connection.\<close>

interpretation program: http_answers "http_api_handle aenv (handle_upload_request uenv)" for aenv uenv
  by unfold_locales (rule api_in_bounds)

section \<open>Properties\<close>

text \<open>
  A request that is no upgrade reaches the HTTP answers whole: they get the request the bytes of
  the connection start with, and between what was read with the head and what is still unread no
  byte of the body is lost.
\<close>

theorem plain_request:
  assumes "request_ok r" and "\<not> validate_websocket_request r" and "ctx_db ctx \<noteq> None" and "en_mem (env 0)"
    and "io_in io = request_text r @ body" and "length (request_text r) \<le> WS_MAX_HTTP_BUFFER"
    and "reads_ready io (length (request_text r))"
  shows "\<exists>b io'. body = b @ io_in io' \<and> io_out io' = io_out io \<and>
     client_thread local aenv uenv env io ctx = http_api_handle aenv (handle_upload_request uenv) r b io' ctx"
  unfolding client_thread_def by (rule program.handed_over [where env = env, OF assms])

theorem plain_request_witness:
  "\<exists>b io'. [1, 2, 3] = b @ io_in io' \<and> io_out io' = [] \<and>
     client_thread sample_ctx sample_api sample_upload (\<lambda>_. sample_env)
         (steady_io (request_text (get_request ''/x'' []) @ [1, 2, 3])) (Some api_context) =
       http_api_handle sample_api (handle_upload_request sample_upload) (get_request ''/x'' []) b io' (Some api_context)"
proof -
  let ?r = "get_request ''/x'' []"
  have "request_ok ?r" "\<not> validate_websocket_request ?r" "length (request_text ?r) \<le> WS_MAX_HTTP_BUFFER"
    by code_simp+
  moreover have "reads_ready (steady_io (request_text ?r @ [1, 2, 3])) (length (request_text ?r))"
    by (simp add: steady_io_def reads_ready_def)
  ultimately show ?thesis
    using plain_request [of ?r "Some api_context" "\<lambda>_. sample_env" "steady_io (request_text ?r @ [1, 2, 3])" "[1, 2, 3]"
        sample_ctx sample_api sample_upload]
    by (simp add: ctx_db_def api_context_def sample_env_def)
qed

text \<open>
  C29:: The listings of a client's commands are all or nothing: the reply is the rows in their order,
  separated by commas, between the brackets, exactly when that text and the closing brackets fit the
  buffer of \<open>n\<close> bytes, and the error message otherwise, never a part of the listing. And whatever
  bytes a client sends up to the end of its connection, whatever the database, the files, the host and
  the network answer, no listing, that of the administration included, writes a comma outside its buffer.
\<close>

theorem listings_in_bounds:
  "send_listing io n start item rows =
     Some (if length (start @ join_lines [44] (map item rows)) < n - 2
           then send_text io (start @ join_lines [44] (map item rows) @ chars '']}'')
           else reply io ''error'' ''internal_error'' ''response-too-large'') \<and>
   client_thread local aenv uenv env conn ctx \<noteq> None"
proof (rule conjI)
  have "chars '']}'' = [93, 125]" by (simp add: chars_def)
  then show "send_listing io n start item rows =
     Some (if length (start @ join_lines [44] (map item rows)) < n - 2
           then send_text io (start @ join_lines [44] (map item rows) @ chars '']}'')
           else reply io ''error'' ''internal_error'' ''response-too-large'')"
    by (simp add: listing_outcome [OF refl] not_less)
  show "client_thread local aenv uenv env conn ctx \<noteq> None"
    unfolding client_thread_def by (rule program.client_in_bounds)
qed

end
