(* ===== verification/Server_Main.thy ===== *)
theory Server_Main
  imports Server_System Engine_Properties
begin

text \<open>
  \<open>src/main.c\<close>: the server is started part by part, runs until a signal, and gives back what it has
  taken. What the environment, the sockets, the thread library and OpenSSL answer is a record. The
  context of the WebSocket clients holds pointers to the engine and the database; here the objects
  stand beside it, and it keeps what they were when it was made.
\<close>

section \<open>Settings\<close>

definition get_port_from_env :: "bytes option \<Rightarrow> u16 \<Rightarrow> u16" where
  "get_port_from_env env_value default_port =
     (case Option.bind env_value (strtol 10) of
        None \<Rightarrow> default_port
      | Some port_val \<Rightarrow> if port_val \<le> 0 \<or> 65535 < port_val then default_port else word_of_int port_val)"

record 'db host =
  ho_getenv :: "string \<Rightarrow> bytes option"
  ho_sq :: "'db sqlite"
  ho_udp_socket :: int
  ho_udp_bind :: int
  ho_engine_thread :: int
  ho_tcp :: socket_answers
  ho_tls_new :: bool
  ho_tls_set :: "int list"
  ho_accept_thread :: int
  ho_stack_ctx :: "'db ws_context server_ctx"
  ho_stack_ws :: "'db ws_context"

definition bind_address :: "'db host \<Rightarrow> bytes" where
  "bind_address h =
     (case ho_getenv h ''HOST'' of None \<Rightarrow> chars ''0.0.0.0'' | Some ip \<Rightarrow> if ip = [] then chars ''0.0.0.0'' else ip)"

section \<open>The parts of the process\<close>

text \<open>\<open>None\<close>: nothing has been put there yet. The flags are those of \<open>main\<close>.\<close>

record 'db process =
  ps_db :: "'db option"
  ps_engine :: "quic_engine option"
  ps_engine_thread :: bool
  ps_ws :: "'db ws_context option"
  ps_pool :: "'db ws_context pool option"
  ps_quic_initialized :: bool
  ps_quic_started :: bool
  ps_ws_initialized :: bool
  ps_server_initialized :: bool
  ps_server_started :: bool
  ps_db_initialized :: bool
  ps_exit_code :: int

definition empty_process :: "'db process" where
  "empty_process = \<lparr>ps_db = None, ps_engine = None, ps_engine_thread = False, ps_ws = None, ps_pool = None,
     ps_quic_initialized = False, ps_quic_started = False, ps_ws_initialized = False,
     ps_server_initialized = False, ps_server_started = False, ps_db_initialized = False, ps_exit_code = 0\<rparr>"

text \<open>\<open>Inl\<close>: \<open>goto cleanup\<close>.\<close>

definition failed :: "'db process \<Rightarrow> 'db process + 'db process" where
  "failed p = Inl (p\<lparr>ps_exit_code := 1\<rparr>)"

definition and_then :: "'a + 'a \<Rightarrow> ('a \<Rightarrow> 'a + 'a) \<Rightarrow> 'a + 'a" where
  "and_then r f = (case r of Inl p \<Rightarrow> Inl p | Inr p \<Rightarrow> f p)"

definition start_db :: "'db host \<Rightarrow> 'db process \<Rightarrow> 'db process + 'db process" where
  "start_db h p =
     (let (rc, db) = db_init (ho_sq h) (chars ''data/ott.db''); p = p\<lparr>ps_db := db\<rparr>
      in if rc \<noteq> SQLITE_OK then failed p
         else
           let (rc, db) = db_initialize_schema (ho_sq h) (ps_db p); p = p\<lparr>ps_db := db\<rparr>
           in if rc \<noteq> SQLITE_OK then failed p else Inr (p\<lparr>ps_db_initialized := True\<rparr>))"

definition start_quic :: "'db host \<Rightarrow> 'db process \<Rightarrow> 'db process + 'db process" where
  "start_quic h p =
     (let (rc, e) = quic_engine_init (ho_udp_socket h) (ho_udp_bind h) 9443 True; p = p\<lparr>ps_engine := Some e\<rparr>
      in if rc \<noteq> 0 then failed p
         else
           let p = p\<lparr>ps_quic_initialized := True\<rparr>
           in if quic_engine_start (ho_engine_thread h) e \<noteq> 0 then failed p
              else Inr (p\<lparr>ps_engine_thread := True, ps_quic_started := True\<rparr>))"

definition start_context :: "'db host \<Rightarrow> 'db process \<Rightarrow> 'db process + 'db process" where
  "start_context h p =
     Inr (p\<lparr>ps_ws := websocket_context_init (ps_engine p) (ps_db p) (Some (ho_stack_ws h)), ps_ws_initialized := True\<rparr>)"

definition start_server :: "'db host \<Rightarrow> 'db process \<Rightarrow> 'db process + 'db process" where
  "start_server h p =
     (let (rc, ctx) = server_init (ho_tcp h) (Some (bind_address h)) (get_port_from_env (ho_getenv h ''PORT'') 8080) 5 (ho_stack_ctx h);
          p = p\<lparr>ps_pool := Some \<lparr>po_ctx = ctx, po_accept = A_none, po_clients = []\<rparr>\<rparr>
      in if rc \<noteq> 0 then failed p
         else
           let p = p\<lparr>ps_server_initialized := True\<rparr>;
               cert = ho_getenv h ''TLS_CERT_PATH''; key = ho_getenv h ''TLS_KEY_PATH'';
               (rc, ctx) = (if cert \<noteq> None \<and> key \<noteq> None then server_enable_tls (ho_tls_new h) (ho_tls_set h) cert key ctx
                            else (0, ctx));
               p = p\<lparr>ps_pool := Some \<lparr>po_ctx = ctx, po_accept = A_none, po_clients = []\<rparr>\<rparr>
           in if rc \<noteq> 0 then failed p
              else
                let ctx = server_set_websocket_context (ps_ws p) ctx;
                    (rc, pool) = server_start (ho_accept_thread h) \<lparr>po_ctx = ctx, po_accept = A_none, po_clients = []\<rparr>;
                    p = p\<lparr>ps_pool := Some pool\<rparr>
                in if rc \<noteq> 0 then failed p else Inr (p\<lparr>ps_server_started := True\<rparr>))"

definition startup :: "'db host \<Rightarrow> 'db process + 'db process" where
  "startup h = and_then (and_then (and_then (start_db h empty_process) (start_quic h)) (start_context h)) (start_server h)"

section \<open>Running and stopping\<close>

text \<open>
  While the server runs, and while it is being joined, the engine has its events, the clients change
  the database, and the pool makes its steps.
\<close>

inductive run_step :: "world \<Rightarrow> 'db process \<Rightarrow> 'db process \<Rightarrow> bool" where
  engine: "ps_engine p = Some e \<Longrightarrow> engine_step w e e' \<Longrightarrow> run_step w p (p\<lparr>ps_engine := Some e'\<rparr>)"
| database: "ps_db p = Some d \<Longrightarrow> run_step w p (p\<lparr>ps_db := Some d'\<rparr>)"
| clients: "ps_pool p = Some po \<Longrightarrow> pool_step po po' \<Longrightarrow> run_step w p (p\<lparr>ps_pool := Some po'\<rparr>)"

inductive_cases run_stepE: "run_step w p q"

definition request_stop :: "'db process \<Rightarrow> 'db process" where
  "request_stop p = p\<lparr>ps_pool := map_option stop_pool (ps_pool p)\<rparr>"

text \<open>The rest of the cleanup, behind \<open>server_join\<close>.\<close>

definition release_server :: "'db process \<Rightarrow> 'db process" where
  "release_server p = (if ps_server_initialized p then
     p\<lparr>ps_pool := map_option (\<lambda>po. po\<lparr>po_ctx := server_destroy (po_ctx po)\<rparr>) (ps_pool p)\<rparr> else p)"

definition release_context :: "'db process \<Rightarrow> 'db process" where
  "release_context p = (if ps_ws_initialized p then p\<lparr>ps_ws := websocket_context_destroy (ps_ws p)\<rparr> else p)"

definition release_quic :: "'db process \<Rightarrow> 'db process" where
  "release_quic p =
     (let p = (if ps_quic_started p then
                 p\<lparr>ps_engine := map_option quic_engine_stop (ps_engine p), ps_engine_thread := False\<rparr> else p)
      in if ps_quic_initialized p then p\<lparr>ps_engine := map_option quic_engine_destroy (ps_engine p)\<rparr> else p)"

definition release_db :: "'db process \<Rightarrow> 'db process" where
  "release_db p = (if ps_db_initialized p then p\<lparr>ps_db := db_close (ps_db p)\<rparr> else p)"

definition release :: "'db process \<Rightarrow> 'db process" where
  "release p = release_db (release_quic (release_context (release_server p)))"

text \<open>A run of \<open>main\<close> that returns, with the process at its end.\<close>

inductive main_returns :: "'db host \<Rightarrow> world \<Rightarrow> 'db process \<Rightarrow> bool" where
  not_started: "startup h = Inl p \<Longrightarrow> main_returns h w (release p)"
| shut_down: "startup h = Inr p \<Longrightarrow> (run_step w)\<^sup>*\<^sup>* p q \<Longrightarrow> (run_step w)\<^sup>*\<^sup>* (request_stop q) r \<Longrightarrow>
     ps_pool r = Some po \<Longrightarrow> server_join_returns po \<Longrightarrow> main_returns h w (release r)"

inductive_cases main_returnsE: "main_returns h w p"

section \<open>What is taken is flagged\<close>

text \<open>No client thread and no accept thread runs, and what else there is has its flag.\<close>

definition accounted :: "'db process \<Rightarrow> bool" where
  "accounted p \<longleftrightarrow> (ps_engine_thread p \<longrightarrow> ps_quic_started p) \<and>
     (\<forall>e. ps_engine p = Some e \<longrightarrow> ps_quic_initialized p \<or> qe_sockfd e < 0) \<and>
     (\<forall>po. ps_pool p = Some po \<longrightarrow> po_clients po = [] \<and> po_accept po \<in> {A_none, A_exited} \<and>
        (ps_server_initialized p \<or> \<not> sv_ssl_ctx (po_ctx po)))"

text \<open>The end of the process: no thread, no TLS context, no socket of the engine.\<close>

definition released :: "'db process \<Rightarrow> bool" where
  "released p \<longleftrightarrow> \<not> ps_engine_thread p \<and> (\<forall>e. ps_engine p = Some e \<longrightarrow> qe_sockfd e < 0) \<and>
     (\<forall>po. ps_pool p = Some po \<longrightarrow> po_clients po = [] \<and> po_accept po \<in> {A_none, A_exited} \<and> \<not> sv_ssl_ctx (po_ctx po))"

named_theorems start_defs

lemmas [start_defs] = start_db_def start_quic_def start_context_def start_server_def and_then_def failed_def empty_process_def

lemma engine_closed: "qe_sockfd (quic_engine_destroy e) < 0" "qe_sockfd (quic_engine_stop e) < 0"
  by (simp_all add: quic_engine_destroy_def quic_engine_stop_def Let_def)

lemma release_accounted:
  assumes "accounted p"
  shows "released (release p)"
  using assms engine_closed
  by (auto simp: released_def accounted_def release_def release_db_def release_quic_def release_context_def
      release_server_def server_destroy_def Let_def)

lemma release_exit: "ps_exit_code (release p) = ps_exit_code p"
  by (simp add: release_def release_db_def release_quic_def release_context_def release_server_def Let_def)

lemma release_database:
  "ps_db_initialized (release p) = ps_db_initialized p" "ps_db_initialized p \<Longrightarrow> ps_db (release p) = None"
  "\<not> ps_db_initialized p \<Longrightarrow> ps_db (release p) = ps_db p"
  by (simp_all add: release_def release_db_def release_quic_def release_context_def release_server_def Let_def db_close_def)

lemma db_part:
  "start_db h empty_process = Inl p \<Longrightarrow> accounted p \<and> ps_exit_code p = 1 \<and> \<not> ps_db_initialized p"
  "start_db h empty_process = Inr p \<Longrightarrow> p = empty_process\<lparr>ps_db := ps_db p, ps_db_initialized := True\<rparr>"
  by (auto simp: start_defs Let_def accounted_def split: prod.splits if_splits)

lemma quic_part:
  assumes "ps_pool p = None" and "\<not> ps_engine_thread p"
  shows "start_quic h p = Inl q \<Longrightarrow> accounted q \<and> ps_exit_code q = 1 \<and> ps_db_initialized q = ps_db_initialized p"
    and "start_quic h p = Inr q \<Longrightarrow> q = p\<lparr>ps_engine := ps_engine q, ps_quic_initialized := True, ps_engine_thread := True,
       ps_quic_started := True\<rparr> \<and> ps_engine q \<noteq> None"
  using assms
  by (auto simp: start_defs quic_engine_init_def Let_def accounted_def split: prod.splits if_splits)

lemma server_init_count:
  "server_init sa (Some ip) port 5 c = (rc, ctx) \<Longrightarrow> sv_client_count ctx = 0 \<and> \<not> sv_ssl_ctx ctx"
  by (auto simp: server_init_def Let_def split: if_splits)

lemma enable_tls_count: "server_enable_tls new set_up cert key ctx = (rc, ctx') \<Longrightarrow> sv_client_count ctx' = sv_client_count ctx"
  by (auto simp: server_enable_tls_def split: if_splits)

lemma server_part:
  assumes "ps_quic_initialized p" and "ps_quic_started p"
  shows "start_server h p = Inl q \<Longrightarrow> accounted q \<and> ps_exit_code q = 1 \<and> ps_db_initialized q = ps_db_initialized p"
    and "start_server h p = Inr q \<Longrightarrow> (\<exists>po. ps_pool q = Some po \<and> initial_pool po) \<and> ps_server_initialized q \<and>
       ps_quic_initialized q \<and> ps_quic_started q \<and> ps_db_initialized q = ps_db_initialized p \<and> ps_exit_code q = ps_exit_code p"
  using assms
  by (auto simp: start_defs server_start_def server_set_websocket_context_def Let_def accounted_def initial_pool_def
      dest!: server_init_count enable_tls_count split: prod.splits if_splits)

lemma startup_failed:
  assumes "startup h = Inl p"
  shows "accounted p \<and> ps_exit_code p = 1 \<and> (isl (start_db h empty_process) \<or> ps_db_initialized p)"
proof (cases "start_db h empty_process")
  case (Inl q)
  with assms db_part(1) [OF Inl] show ?thesis by (simp add: startup_def and_then_def)
next
  case db: (Inr q)
  define s where "s = and_then (start_quic h q) (start_context h)"
  have q: "ps_pool q = None" "\<not> ps_engine_thread q" "ps_db_initialized q"
    by (subst db_part(2) [OF db], simp add: empty_process_def)+
  have s: "and_then s (start_server h) = Inl p" using assms by (simp add: startup_def db and_then_def s_def)
  show ?thesis
  proof (cases "start_quic h q")
    case (Inl r)
    with s quic_part(1) [OF q(1,2) Inl] q(3) show ?thesis by (simp add: s_def and_then_def)
  next
    case (Inr r)
    note r = quic_part(2) [OF q(1,2) Inr]
    have "ps_quic_initialized r" "ps_quic_started r" "ps_db_initialized r" using q(3) by (subst conjunct1 [OF r], simp)+
    with s server_part(1) [of "r\<lparr>ps_ws := websocket_context_init (ps_engine r) (ps_db r) (Some (ho_stack_ws h)), ps_ws_initialized := True\<rparr>" h p]
    show ?thesis by (simp add: s_def Inr and_then_def start_context_def)
  qed
qed

lemma startup_done:
  assumes "startup h = Inr p"
  shows "\<exists>po. ps_pool p = Some po \<and> initial_pool po \<and> ps_quic_initialized p \<and> ps_quic_started p \<and>
     ps_server_initialized p \<and> ps_db_initialized p \<and> ps_exit_code p = 0"
proof -
  obtain q where db: "start_db h empty_process = Inr q" using assms by (auto simp: startup_def and_then_def split: sum.splits)
  have q: "ps_pool q = None" "\<not> ps_engine_thread q" "ps_db_initialized q" "ps_exit_code q = 0"
    by (subst db_part(2) [OF db], simp add: empty_process_def)+
  obtain r where sq: "start_quic h q = Inr r" using assms db by (auto simp: startup_def and_then_def split: sum.splits)
  note r = quic_part(2) [OF q(1,2) sq]
  define t where "t = r\<lparr>ps_ws := websocket_context_init (ps_engine r) (ps_db r) (Some (ho_stack_ws h)), ps_ws_initialized := True\<rparr>"
  have t: "ps_quic_initialized t" "ps_quic_started t" "ps_db_initialized t" "ps_exit_code t = 0"
    unfolding t_def using q(3,4) by (subst conjunct1 [OF r], simp)+
  have "start_server h t = Inr p" using assms by (simp add: startup_def and_then_def db sq start_context_def t_def)
  from server_part(2) [OF t(1,2) this] t(3,4) show ?thesis by auto
qed

text \<open>Running changes the objects, not what is flagged.\<close>

definition same_flags :: "'db process \<Rightarrow> 'db process \<Rightarrow> bool" where
  "same_flags p q \<longleftrightarrow> ps_quic_initialized q = ps_quic_initialized p \<and> ps_quic_started q = ps_quic_started p \<and>
     ps_server_initialized q = ps_server_initialized p \<and> ps_db_initialized q = ps_db_initialized p \<and>
     ps_exit_code q = ps_exit_code p \<and> (\<forall>po. ps_pool p = Some po \<longrightarrow> (\<exists>po'. ps_pool q = Some po' \<and> pool_step\<^sup>*\<^sup>* po po'))"

lemma run_same: "(run_step w)\<^sup>*\<^sup>* p q \<Longrightarrow> same_flags p q"
proof (induction rule: rtranclp_induct)
  case base
  show ?case by (simp add: same_flags_def)
next
  case (step q r)
  from step(2,3) show ?case
    by (cases rule: run_step.cases) (auto simp: same_flags_def intro: rtranclp.rtrancl_into_rtrancl)
qed

lemma shut_down_accounted:
  assumes "startup h = Inr p" and "(run_step w)\<^sup>*\<^sup>* p q" and "(run_step w)\<^sup>*\<^sup>* (request_stop q) r"
    and "ps_pool r = Some po" and "server_join_returns po"
  shows "accounted r \<and> ps_exit_code r = 0 \<and> ps_db_initialized r"
proof -
  obtain p1 where p1: "ps_pool p = Some p1" "initial_pool p1" and flags: "ps_quic_initialized p" "ps_quic_started p"
    "ps_server_initialized p" "ps_db_initialized p" "ps_exit_code p = 0"
    using startup_done [OF assms(1)] by blast
  obtain p2 where p2: "ps_pool q = Some p2" "pool_step\<^sup>*\<^sup>* p1 p2"
    using run_same [OF assms(2)] p1(1) by (auto simp: same_flags_def)
  have "ps_pool (request_stop q) = Some (stop_pool p2)" by (simp add: request_stop_def p2(1))
  then have "pool_step\<^sup>*\<^sup>* (stop_pool p2) po"
    using run_same [OF assms(3)] assms(4) by (auto simp: same_flags_def)
  then have "pool_step\<^sup>*\<^sup>* p1 po" using p2(2) pool_step.stopped by (meson rtranclp_trans converse_rtranclp_into_rtranclp)
  then have "pool_ok po" by (rule pool_run_ok [OF _ initial_ok [OF p1(2)]])
  with assms(5) have "po_clients po = []" "po_accept po = A_exited"
    by (auto simp: pool_ok_def server_join_returns_def clients_def)
  moreover have "same_flags p r \<or> ps_quic_initialized r \<and> ps_quic_started r \<and> ps_server_initialized r \<and> ps_db_initialized r \<and>
      ps_exit_code r = 0"
    using run_same [OF assms(2)] run_same [OF assms(3)] flags by (simp add: same_flags_def request_stop_def)
  ultimately show ?thesis using flags assms(4) by (auto simp: accounted_def same_flags_def)
qed

section \<open>Properties\<close>

text \<open>
  C31: Whenever \<open>main\<close> returns, however far the start came and whatever happened while the server ran,
  no thread is left, the socket of the engine and the TLS context are gone, the exit code tells
  whether everything was started, and the database is closed unless it was its own start that failed.
\<close>

theorem main_releases:
  assumes "main_returns h w p"
  shows "released p \<and> ps_exit_code p = (if isl (startup h) then 1 else 0) \<and>
     (ps_db p = None \<or> isl (start_db h empty_process))"
  using assms
proof (cases rule: main_returns.cases)
  case (not_started q)
  with startup_failed [OF not_started(2)] release_accounted [of q] release_exit [of q] release_database [of q]
  show ?thesis by auto
next
  case (shut_down q1 q2 r po)
  with shut_down_accounted [OF shut_down(2-6)] release_accounted [of r] release_exit [of r] release_database [of r]
  show ?thesis by auto
qed

section \<open>Examples\<close>

text \<open>Started, stopped by a signal before any client came, and joined.\<close>

definition sample_host :: "memory_db host" where
  "sample_host = \<lparr>ho_getenv = (\<lambda>_. None), ho_sq = memory_sqlite, ho_udp_socket = 4, ho_udp_bind = 0, ho_engine_thread = 0,
     ho_tcp = \<lparr>sa_socket = 5, sa_setsockopt = 0, sa_inet_pton = 1, sa_bind = 0, sa_listen = 0\<rparr>, ho_tls_new = False,
     ho_tls_set = [], ho_accept_thread = 0,
     ho_stack_ctx = \<lparr>sv_listen_fd = 0, sv_running = False, sv_client_count = 0, sv_max_clients = 0, sv_port = 0,
       sv_bind_ip = [], sv_ws_context = None, sv_ssl_ctx = False\<rparr>,
     ho_stack_ws = api_context\<rparr>"

lemma sample_host_starts:
  "\<not> isl (start_db sample_host empty_process)" "\<not> isl (startup sample_host)"
proof -
  have "\<exists>d. start_db sample_host empty_process = Inr (empty_process\<lparr>ps_db := Some d, ps_db_initialized := True\<rparr>)"
    by (simp add: start_db_def sample_host_def memory_sqlite_def db_init_def db_initialize_schema_def exec_sql_def
        ensure_users_role_column_def sqlite_codes Let_def empty_process_def)
  then obtain d where d: "start_db sample_host empty_process = Inr (empty_process\<lparr>ps_db := Some d, ps_db_initialized := True\<rparr>)" ..
  show "\<not> isl (start_db sample_host empty_process)" by (simp add: d)
  show "\<not> isl (startup sample_host)"
    by (simp add: startup_def and_then_def d)
      (simp add: start_quic_def start_context_def start_server_def quic_engine_init_def quic_engine_start_def server_init_def
        server_start_def server_set_websocket_context_def sample_host_def Let_def)
qed

theorem main_releases_witness:
  "\<exists>p. main_returns sample_host sample_world p \<and> released p \<and> ps_exit_code p = 0 \<and> ps_db p = None"
proof -
  obtain p where p: "startup sample_host = Inr p" using sample_host_starts(2) by (cases "startup sample_host") auto
  then obtain po where po: "ps_pool p = Some po" "initial_pool po" using startup_done by blast
  let ?s = "request_stop p" and ?po = "accept_failed (stop_pool po)"
  let ?r = "?s\<lparr>ps_pool := Some ?po\<rparr>"
  have "ps_pool ?s = Some (stop_pool po)" by (simp add: request_stop_def po(1))
  moreover have "pool_step (stop_pool po) ?po" using po(2) by (intro pool_step.failed) (simp add: initial_pool_def stop_pool_def)
  ultimately have "run_step sample_world ?s ?r" by (rule run_step.clients)
  then have "(run_step sample_world)\<^sup>*\<^sup>* ?s ?r" by (rule r_into_rtranclp)
  moreover have "server_join_returns ?po" using po(2)
    by (simp add: server_join_returns_def initial_pool_def pool_ops)
  ultimately have "main_returns sample_host sample_world (release ?r)"
    by (intro main_returns.shut_down [OF p rtranclp.rtrancl_refl]) simp_all
  with main_releases [OF this] sample_host_starts show ?thesis by auto
qed

end
