(* ===== verification/Quic_Tls.thy ===== *)
theory Quic_Tls
  imports Prelude
begin

text \<open>
  \<open>src/server/quic_tls.c\<close>: the placeholder of the bridge to TLS, with its made-up secrets. No other
  file of the program calls it. \<open>None\<close> is a null pointer.
\<close>

record quic_tls_keys =
  initial_secret :: bytes
  handshake_secret :: bytes
  application_secret :: bytes

record quic_tls_context =
  tc_cert_path :: "bytes option"
  tc_key_path :: "bytes option"

record quic_tls_session =
  ts_connection_id :: u64
  ts_handshake_complete :: bool
  ts_keys :: quic_tls_keys

definition quic_tls_context_init :: "quic_tls_context option \<Rightarrow> bytes option \<Rightarrow> bytes option \<Rightarrow> int \<times> quic_tls_context option" where
  "quic_tls_context_init ctx cert_path key_path =
     (case ctx of
        None \<Rightarrow> (-1, None)
      | Some _ \<Rightarrow> (0, Some \<lparr>tc_cert_path = cert_path, tc_key_path = key_path\<rparr>))"

definition quic_tls_context_free :: "quic_tls_context option \<Rightarrow> quic_tls_context option" where
  "quic_tls_context_free ctx = ctx"

definition zero_keys :: quic_tls_keys where
  "zero_keys = \<lparr>initial_secret = replicate 32 0, handshake_secret = replicate 32 0, application_secret = replicate 32 0\<rparr>"

text \<open>Both secrets are cut to a byte at every place.\<close>

definition initial_byte :: "u64 \<Rightarrow> nat \<Rightarrow> u8" where
  "initial_byte cid i = ucast (cid + of_nat i)"

definition application_byte :: "u64 \<Rightarrow> nat \<Rightarrow> u8" where
  "application_byte cid i = ucast (cid XOR (0xA5 + of_nat i))"

definition quic_tls_session_init :: "quic_tls_session option \<Rightarrow> quic_tls_context option \<Rightarrow> u64 \<Rightarrow> int \<times> quic_tls_session option" where
  "quic_tls_session_init session ctx connection_id =
     (if session = None \<or> ctx = None then (-1, session)
      else (0, Some \<lparr>ts_connection_id = connection_id, ts_handshake_complete = False,
        ts_keys = zero_keys\<lparr>initial_secret := map (initial_byte connection_id) [0..<32]\<rparr>\<rparr>))"

definition quic_tls_process_crypto :: "quic_tls_session option \<Rightarrow> bytes option \<Rightarrow> int \<times> quic_tls_session option" where
  "quic_tls_process_crypto session crypto_data =
     (case (session, crypto_data) of
        (Some s, Some d) \<Rightarrow>
          if d = [] then (-1, session)
          else (0, Some (s\<lparr>ts_handshake_complete := True,
            ts_keys := (ts_keys s)\<lparr>application_secret := map (application_byte (ts_connection_id s)) [0..<32]\<rparr>\<rparr>))
      | _ \<Rightarrow> (-1, session))"

text \<open>\<open>None\<close> for \<open>-1\<close>.\<close>

definition quic_tls_get_1rtt_keys :: "quic_tls_session option \<Rightarrow> quic_tls_keys option" where
  "quic_tls_get_1rtt_keys session =
     (case session of None \<Rightarrow> None | Some s \<Rightarrow> if ts_handshake_complete s then Some (ts_keys s) else None)"

section \<open>The secrets are no secrets\<close>

lemma secrets_bytes:
  "initial_byte cid i = ucast cid + of_nat i" "application_byte cid i = ucast cid XOR (0xA5 + of_nat i)"
proof -
  have add: "(ucast (a + of_nat n :: u64) :: u8) = ucast a + of_nat n" for a n
  proof (induction n)
    case (Suc n)
    have one: "(ucast (b + 1 :: u64) :: u8) = ucast b + 1" for b
      by (rule word_uint_eqI) (simp add: uint_word_ariths unsigned_ucast_eq take_bit_eq_mod mod_mod_cancel mod_simps)
    from one [of "a + of_nat n"] Suc show ?case by (simp add: ac_simps)
  qed simp
  show "initial_byte cid i = ucast cid + of_nat i" by (simp add: initial_byte_def add)
  have "(ucast (a XOR b :: u64) :: u8) = ucast a XOR ucast b" for a b
    by (rule bit_eqI) (simp add: bit_ucast_iff bit_xor_iff)
  then show "application_byte cid i = ucast cid XOR (0xA5 + of_nat i)"
    using add [of "0xA5" i] by (simp add: application_byte_def)
qed

text \<open>
  Every session of the program, whatever its 64-bit identifier and whatever the peer sent, has one of
  256 pairs of secrets: the lowest byte of the identifier decides them.
\<close>

lemma keys_of_low_byte:
  assumes "quic_tls_session_init (Some s) (Some c) cid = (r1, s1)" and "quic_tls_process_crypto s1 (Some d) = (0, s2)"
    and "quic_tls_session_init (Some s') (Some c') cid' = (r1', s1')" and "quic_tls_process_crypto s1' (Some d') = (0, s2')"
    and "(ucast cid :: u8) = ucast cid'"
  shows "quic_tls_get_1rtt_keys s2 = quic_tls_get_1rtt_keys s2' \<and> quic_tls_get_1rtt_keys s2 \<noteq> None \<and>
     quic_tls_get_1rtt_keys s1 = None"
  using assms
  by (auto simp: quic_tls_session_init_def quic_tls_process_crypto_def quic_tls_get_1rtt_keys_def secrets_bytes split: if_splits)

end
