(* ===== verification/Bf_Core.thy ===== *)
theory Bf_Core
  imports Bf_Tables
begin

text \<open>
  Blowfish as \<open>crypt_blowfish.c\<close> computes it, for the target (\<open>BF_SCALE\<close> set, \<open>BF_ASM\<close> not): the
  macros \<open>BF_ROUND\<close>, \<open>BF_ENCRYPT\<close> and \<open>BF_body\<close>. The unrolled encryption is shown to be a Feistel
  network over the list of its round keys, and a permutation.
\<close>

section \<open>One block\<close>

record BF_ctx =
  bf_S :: "u32 list"
  bf_P :: "u32 list"

definition BF_box :: "BF_ctx \<Rightarrow> nat \<Rightarrow> u32 \<Rightarrow> u32" where
  "BF_box ctx k i = bf_S ctx ! (256 * k + unat i)"

text \<open>The new value of the second argument.\<close>

definition BF_ROUND :: "BF_ctx \<Rightarrow> u32 \<Rightarrow> u32 \<Rightarrow> nat \<Rightarrow> u32" where
  "BF_ROUND ctx L R N =
     (let tmp1 = L AND 0xFF;
          tmp2 = drop_bit 8 L;
          tmp2 = tmp2 AND 0xFF;
          tmp3 = drop_bit 16 L;
          tmp3 = tmp3 AND 0xFF;
          tmp4 = drop_bit 24 L;
          tmp1 = BF_box ctx 3 tmp1;
          tmp2 = BF_box ctx 2 tmp2;
          tmp3 = BF_box ctx 1 tmp3;
          tmp3 = tmp3 + BF_box ctx 0 tmp4;
          tmp3 = tmp3 XOR tmp2;
          R = R XOR bf_P ctx ! (N + 1);
          tmp3 = tmp3 + tmp1
      in R XOR tmp3)"

definition BF_ENCRYPT :: "BF_ctx \<Rightarrow> u32 \<times> u32 \<Rightarrow> u32 \<times> u32" where
  "BF_ENCRYPT ctx x =
     (let (L, R) = x;
          L = L XOR bf_P ctx ! 0;
          R = BF_ROUND ctx L R 0;
          L = BF_ROUND ctx R L 1;
          R = BF_ROUND ctx L R 2;
          L = BF_ROUND ctx R L 3;
          R = BF_ROUND ctx L R 4;
          L = BF_ROUND ctx R L 5;
          R = BF_ROUND ctx L R 6;
          L = BF_ROUND ctx R L 7;
          R = BF_ROUND ctx L R 8;
          L = BF_ROUND ctx R L 9;
          R = BF_ROUND ctx L R 10;
          L = BF_ROUND ctx R L 11;
          R = BF_ROUND ctx L R 12;
          L = BF_ROUND ctx R L 13;
          R = BF_ROUND ctx L R 14;
          L = BF_ROUND ctx R L 15;
          tmp4 = R;
          R = L;
          L = tmp4 XOR bf_P ctx ! 17
      in (L, R))"

section \<open>A Feistel network\<close>

text \<open>The round function, and one round under the key \<open>k\<close>: the half that changes comes first.\<close>

definition bf_mix :: "BF_ctx \<Rightarrow> u32 \<Rightarrow> u32" where
  "bf_mix ctx x =
     ((BF_box ctx 1 (drop_bit 16 x AND 0xFF) + BF_box ctx 0 (drop_bit 24 x)) XOR BF_box ctx 2 (drop_bit 8 x AND 0xFF))
       + BF_box ctx 3 (x AND 0xFF)"

fun feistel_step :: "(u32 \<Rightarrow> u32) \<Rightarrow> u32 \<Rightarrow> u32 \<times> u32 \<Rightarrow> u32 \<times> u32" where
  "feistel_step F k (x, y) = (y XOR k XOR F x, x)"

text \<open>The first key whitens the left half, the last one the half that ends up on the left.\<close>

definition feistel :: "(u32 \<Rightarrow> u32) \<Rightarrow> u32 list \<Rightarrow> u32 \<times> u32 \<Rightarrow> u32 \<times> u32" where
  "feistel F ks x =
     (let (a, b) = fold (feistel_step F) (butlast (tl ks)) (fst x XOR hd ks, snd x) in (b XOR last ks, a))"

lemma step_back: "feistel_step F k (prod.swap (feistel_step F k s)) = prod.swap s"
  by (cases s) (simp add: ac_simps)

lemma steps_back: "fold (feistel_step F) (rev ks) (prod.swap (fold (feistel_step F) ks s)) = prod.swap s"
  by (induction ks arbitrary: s) (simp_all add: step_back)

lemma feistel_back:
  assumes "2 \<le> length ks"
  shows "feistel F (rev ks) (feistel F ks x) = x"
proof -
  obtain k r q where ks: "ks = k # r @ [q]"
    using assms by (cases ks; cases "tl ks" rule: rev_cases) auto
  obtain a b where ab: "fold (feistel_step F) r (fst x XOR k, snd x) = (a, b)" by fastforce
  have "fold (feistel_step F) (rev r) (b, a) = (snd x, fst x XOR k)"
    using steps_back [of F r "(fst x XOR k, snd x)"] by (simp add: ab)
  moreover have "feistel F ks x = (b XOR q, a)" by (simp add: feistel_def ks ab)
  moreover have cancel: "(u XOR v) XOR v = u" for u v :: u32 by (simp add: xor.assoc)
  ultimately show ?thesis by (simp add: feistel_def ks cancel)
qed

lemma round_mix: "BF_ROUND ctx L R N = R XOR bf_P ctx ! (N + 1) XOR bf_mix ctx L"
  by (simp add: BF_ROUND_def bf_mix_def Let_def ac_simps)

lemma eighteen:
  assumes "length xs = 18"
  obtains a b c d e f g h i j k l m n p q r s where "xs = [a, b, c, d, e, f, g, h, i, j, k, l, m, n, p, q, r, s]"
  using assms by (auto simp: eval_nat_numeral length_Suc_conv)

lemma encrypt_feistel:
  assumes "length (bf_P ctx) = 18"
  shows "BF_ENCRYPT ctx x = feistel (bf_mix ctx) (bf_P ctx) x"
  using assms
proof (rule eighteen)
  fix a b c d e f g h i j k l m n p q r s
  assume P: "bf_P ctx = [a, b, c, d, e, f, g, h, i, j, k, l, m, n, p, q, r, s]"
  show ?thesis by (cases x) (simp add: BF_ENCRYPT_def feistel_def round_mix P Let_def)
qed

section \<open>The state\<close>

text \<open>The tables have their sizes, so no index of the code is outside them.\<close>

definition bf_ok :: "BF_ctx \<Rightarrow> bool" where
  "bf_ok ctx \<longleftrightarrow> length (bf_S ctx) = 1024 \<and> length (bf_P ctx) = 18"

lemma box_index: "k < 4 \<Longrightarrow> 256 * k + unat (x AND 0xFF) < 1024" "256 * 0 + unat (drop_bit 24 (x :: u32)) < 1024" for x :: u32
proof -
  have "x AND 0xFF \<le> 0xFF" by (rule word_and_le1)
  then have "unat (x AND 0xFF) \<le> 255" by (simp add: word_le_nat_alt)
  then show "k < 4 \<Longrightarrow> 256 * k + unat (x AND 0xFF) < 1024" by linarith
  have "unat (drop_bit 24 x) = unat x div 2 ^ 24" by (subst unat_drop_bit_eq) (rule drop_bit_eq_div)
  moreover have "unat x < 2 ^ 32" using unsigned_less [of x] by simp
  ultimately have "unat (drop_bit 24 x) < 256" by (simp add: less_mult_imp_div_less)
  then show "256 * 0 + unat (drop_bit 24 x) < 1024" by simp
qed

text \<open>
  What the loops store: two words at place \<open>i\<close> of the keys or of the boxes. A pointer that walks
  through \<open>S[0]\<close> up to \<open>S[3][0xFF]\<close> is an index into the boxes one behind the other.
\<close>

definition put_P :: "nat \<Rightarrow> u32 \<times> u32 \<Rightarrow> BF_ctx \<Rightarrow> BF_ctx" where
  "put_P i x ctx = ctx\<lparr>bf_P := (bf_P ctx)[i := fst x, Suc i := snd x]\<rparr>"

definition put_S :: "nat \<Rightarrow> u32 \<times> u32 \<Rightarrow> BF_ctx \<Rightarrow> BF_ctx" where
  "put_S i x ctx = ctx\<lparr>bf_S := (bf_S ctx)[i := fst x, Suc i := snd x]\<rparr>"

definition BF_body :: "BF_ctx \<Rightarrow> BF_ctx" where
  "BF_body ctx =
     (let (ctx, x) = fold (\<lambda>i (ctx, x). let x = BF_ENCRYPT ctx x in (put_P (2 * i) x ctx, x)) [0..<9] (ctx, (0, 0));
          (ctx, x) = fold (\<lambda>i (ctx, x). let x = BF_ENCRYPT ctx x in (put_S (2 * i) x ctx, x)) [0..<512] (ctx, x)
      in ctx)"

lemma put_ok [simp]: "bf_ok (put_P i x ctx) = bf_ok ctx" "bf_ok (put_S i x ctx) = bf_ok ctx"
  by (simp_all add: put_P_def put_S_def bf_ok_def)

lemma fold_ok:
  assumes "\<And>i s. i \<in> set is \<Longrightarrow> bf_ok (fst (f i s)) = bf_ok (fst s)"
  shows "bf_ok (fst (fold f is s)) = bf_ok (fst s)"
  using assms by (induction "is" arbitrary: s) simp_all

lemma body_ok [simp]: "bf_ok (BF_body ctx) = bf_ok ctx"
proof -
  let ?p = "fold (\<lambda>i (ctx, x). let x = BF_ENCRYPT ctx x in (put_P (2 * i) x ctx, x)) [0..<9] (ctx, (0, 0))"
  have "bf_ok (fst ?p) = bf_ok ctx" by (subst fold_ok) (auto simp: Let_def)
  moreover have "bf_ok (fst (fold (\<lambda>i (ctx, x). let x = BF_ENCRYPT ctx x in (put_S (2 * i) x ctx, x)) [0..<512] s)) = bf_ok (fst s)"
    for s by (rule fold_ok) (auto simp: Let_def)
  ultimately show ?thesis unfolding BF_body_def Let_def split_beta by simp
qed

section \<open>Properties\<close>

lemma encrypt_back:
  assumes "length (bf_P ctx) = 18"
  shows "BF_ENCRYPT (ctx\<lparr>bf_P := rev (bf_P ctx)\<rparr>) (BF_ENCRYPT ctx x) = x"
proof -
  have "bf_mix (ctx\<lparr>bf_P := rev (bf_P ctx)\<rparr>) = bf_mix ctx" by (intro ext) (simp add: bf_mix_def BF_box_def)
  then show ?thesis using assms by (simp add: encrypt_feistel feistel_back)
qed

text \<open>
  C36: The unrolled sixteen rounds are a Feistel network over the eighteen round keys, and
  encrypting again with the keys in the opposite order gives the block back: the cipher loses nothing.
\<close>

theorem encrypt_reference:
  assumes "length (bf_P ctx) = 18"
  shows "BF_ENCRYPT ctx x = feistel (bf_mix ctx) (bf_P ctx) x \<and>
    BF_ENCRYPT (ctx\<lparr>bf_P := rev (bf_P ctx)\<rparr>) (BF_ENCRYPT ctx x) = x"
  using encrypt_feistel [OF assms] encrypt_back [OF assms] by blast

theorem encrypt_reference_witness:
  "BF_ENCRYPT \<lparr>bf_S = BF_init_S, bf_P = rev BF_init_P\<rparr> (BF_ENCRYPT \<lparr>bf_S = BF_init_S, bf_P = BF_init_P\<rparr> (1, 2)) = (1, 2)"
  using conjunct2 [OF encrypt_reference [of "\<lparr>bf_S = BF_init_S, bf_P = BF_init_P\<rparr>" "(1, 2)"]] by simp

end
