(* ===== verification/Bf_Radix.thy ===== *)
theory Bf_Radix
  imports Bf_Tables C_String "HOL-Library.Monad_Syntax"
begin

text \<open>
  The radix-64 code of \<open>crypt_blowfish.c\<close>: \<open>BF_decode\<close> and \<open>BF_encode\<close>, three bytes to four digits,
  and what an incomplete last group becomes. Reading gives back what was written, also when more
  text follows; of the last digit only the two bits that belong to a byte are looked at.
\<close>

section \<open>The code\<close>

text \<open>A character of a C string; the place behind the last one holds the terminator.\<close>

definition char_at :: "bytes \<Rightarrow> nat \<Rightarrow> u8" where
  "char_at s i = (if i < length s then s ! i else 0)"

definition BF_safe_atoi64 :: "u8 \<Rightarrow> u32 option" where
  "BF_safe_atoi64 c =
     (let tmp = ucast c - 0x20 :: u32
      in if 0x60 \<le> tmp then None
         else
           let tmp = ucast (BF_atoi64 ! unat tmp) :: u32
           in if 63 < tmp then None else Some tmp)"

text \<open>
  The loop writes one to three bytes per round, until it has written \<open>n\<close>. A round starts while
  there is room, the first one in any case.
\<close>

fun BF_decode :: "bytes \<Rightarrow> nat \<Rightarrow> bytes option" where
  "BF_decode src n =
     do {
       c1 \<leftarrow> BF_safe_atoi64 (char_at src 0);
       c2 \<leftarrow> BF_safe_atoi64 (char_at src 1);
       let b1 = ucast (push_bit 2 c1 OR drop_bit 4 (c2 AND 0x30));
       if n \<le> 1 then Some [b1]
       else do {
         c3 \<leftarrow> BF_safe_atoi64 (char_at src 2);
         let b2 = ucast (push_bit 4 (c2 AND 0x0F) OR drop_bit 2 (c3 AND 0x3C));
         if n \<le> 2 then Some [b1, b2]
         else do {
           c4 \<leftarrow> BF_safe_atoi64 (char_at src 3);
           let b3 = ucast (push_bit 6 (c3 AND 0x03) OR c4);
           if n \<le> 3 then Some [b1, b2, b3]
           else do {
             bs \<leftarrow> BF_decode (drop 4 src) (n - 3);
             Some (b1 # b2 # b3 # bs)
           }
         }
       }
     }"

declare BF_decode.simps [simp del]

definition BF_digit :: "u32 \<Rightarrow> u8" where
  "BF_digit c = BF_itoa64 ! unat c"

text \<open>\<open>size\<close> is the length of the argument, which is never empty.\<close>

fun BF_encode :: "bytes \<Rightarrow> bytes" where
  "BF_encode [] = []"
| "BF_encode [s1] =
     (let c1 = ucast s1 in [BF_digit (drop_bit 2 c1), BF_digit (push_bit 4 (c1 AND 0x03))])"
| "BF_encode [s1, s2] =
     (let c1 = ucast s1; c2 = ucast s2
      in [BF_digit (drop_bit 2 c1), BF_digit (push_bit 4 (c1 AND 0x03) OR drop_bit 4 c2),
          BF_digit (push_bit 2 (c2 AND 0x0f))])"
| "BF_encode (s1 # s2 # s3 # src) =
     (let c1 = ucast s1; c2 = ucast s2; c3 = ucast s3
      in BF_digit (drop_bit 2 c1) # BF_digit (push_bit 4 (c1 AND 0x03) OR drop_bit 4 c2)
         # BF_digit (push_bit 2 (c2 AND 0x0f) OR drop_bit 6 c3) # BF_digit (c3 AND 0x3f)
         # BF_encode src)"

section \<open>Digits\<close>

lemma digit_back:
  assumes "c < 64"
  shows "BF_safe_atoi64 (BF_digit c) = Some c"
proof -
  define x where "x = BF_digit c"
  have c: "unat c < 64" using assms by (simp add: word_less_nat_alt)
  then have "unat c \<in> set [0..<64]" by simp
  from bspec [OF digits_back this] have d: "0x20 \<le> x" "x < 0x80" "BF_atoi64 ! unat (x - 0x20) = of_nat (unat c)"
    by (simp_all only: Let_def x_def BF_digit_def)
  define t where "t = (ucast x - 0x20 :: u32)"
  have xs: "0x20 \<le> unat x" "unat x < 0x80" using d(1,2) by (simp_all add: word_le_nat_alt word_less_nat_alt)
  have widen: "unat (ucast y :: u32) = unat y" for y :: u8 by transfer (simp add: take_bit_eq_mod)
  then have t: "unat t = unat x - 0x20" using xs by (simp add: t_def unat_sub word_le_nat_alt widen)
  moreover have "unat (x - 0x20) = unat x - 0x20" using d(1) by (simp add: unat_sub)
  ultimately have look: "BF_atoi64 ! unat t = of_nat (unat c)" using d(3) by simp
  have u: "unat (of_nat k :: u8) = k" if "k < 64" for k using that by (simp add: unsigned_of_nat take_bit_eq_mod)
  have v: "(ucast (of_nat (unat c) :: u8) :: u32) = c"
    by (subst word_unat_eq_iff, subst widen, rule u [OF c])
  have "\<not> 0x60 \<le> t" using t xs by (simp add: word_le_nat_alt)
  moreover have "\<not> 63 < c" using assms by (simp add: word_less_nat_alt)
  ultimately show ?thesis
    unfolding BF_safe_atoi64_def x_def [symmetric] t_def [symmetric] Let_def look v by simp
qed

lemma digit_bound: "BF_safe_atoi64 x = Some c \<Longrightarrow> c < 64"
  by (auto simp: BF_safe_atoi64_def Let_def word_less_nat_alt split: if_splits)

lemma no_digit [simp]: "BF_safe_atoi64 0 = None"
  by (simp add: BF_safe_atoi64_def)

lemma char_at_Cons [simp]:
  "char_at (c # s) 0 = c" "char_at (c # s) (Suc i) = char_at s i" "char_at [] i = 0"
  by (simp_all add: char_at_def)

lemma char_at_number [simp]: "char_at (c # s) (numeral k) = char_at s (pred_numeral k)" "char_at (c # s) 1 = char_at s 0"
  "char_at (c # d # e # s) 2 = e" "char_at (c # d # e # f # s) 3 = f"
  by (simp_all add: char_at_def numeral_eq_Suc)

lemma char_at_drop: "char_at (drop k s) i = char_at s (k + i)"
  by (auto simp: char_at_def)

section \<open>Round trip\<close>

lemma below_8: "n < 8 \<Longrightarrow> n = 0 \<or> n = 1 \<or> n = 2 \<or> n = 3 \<or> n = 4 \<or> n = 5 \<or> n = 6 \<or> n = (7 :: nat)"
  by arith

lemma masks:
  "0x30 = push_bit 4 (mask 2 :: u32)" "0x0F = (mask 4 :: u32)" "0x3C = push_bit 2 (mask 4 :: u32)"
  "0x03 = (mask 2 :: u32)" "0x3f = (mask 6 :: u32)"
  by (simp_all add: mask_eq_exp_minus_1)

lemma below_64I:
  assumes "\<And>n. 6 \<le> n \<Longrightarrow> \<not> bit w n"
  shows "w < (64 :: u32)"
proof -
  have "w = take_bit 6 w" by (rule bit_word_eqI) (use assms not_less in \<open>auto simp: bit_simps\<close>)
  then have "unat w = take_bit 6 (unat w)" by (metis unsigned_take_bit_eq)
  then have "unat w < 2 ^ 6" by (metis take_bit_nat_less_exp)
  then show ?thesis by (simp add: word_less_nat_alt)
qed

lemma high_bits: "8 \<le> n \<Longrightarrow> \<not> bit (a :: u8) n"
  using bit_imp_le_length [of a n] by auto

text \<open>The digits of three bytes, and the bytes of such digits.\<close>

lemma below_64:
  fixes a b c :: u8
  shows "(drop_bit 2 (ucast a) :: u32) < 64"
    and "(push_bit 4 (ucast a AND 0x03) :: u32) < 64"
    and "(push_bit 4 (ucast a AND 0x03) OR drop_bit 4 (ucast b) :: u32) < 64"
    and "(push_bit 2 (ucast b AND 0x0f) :: u32) < 64"
    and "(push_bit 2 (ucast b AND 0x0f) OR drop_bit 6 (ucast c) :: u32) < 64"
    and "(ucast c AND 0x3f :: u32) < 64"
  by - (unfold masks, (rule below_64I, auto simp: bit_simps high_bits)+)

lemma octets_back:
  fixes a b c :: u8
  shows "(ucast (push_bit 2 (drop_bit 2 (ucast a) :: u32) OR drop_bit 4 ((push_bit 4 (ucast a AND 0x03) OR drop_bit 4 (ucast b)) AND 0x30)) :: u8) = a"
    and "(ucast (push_bit 2 (drop_bit 2 (ucast a) :: u32) OR drop_bit 4 (push_bit 4 (ucast a AND 0x03) AND 0x30)) :: u8) = a"
    and "(ucast (push_bit 4 ((push_bit 4 (ucast a AND 0x03) OR drop_bit 4 (ucast b)) AND 0x0F :: u32) OR drop_bit 2 ((push_bit 2 (ucast b AND 0x0f) OR drop_bit 6 (ucast c)) AND 0x3C)) :: u8) = b"
    and "(ucast (push_bit 4 ((push_bit 4 (ucast a AND 0x03) OR drop_bit 4 (ucast b)) AND 0x0F :: u32) OR drop_bit 2 (push_bit 2 (ucast b AND 0x0f) AND 0x3C)) :: u8) = b"
    and "(ucast (push_bit 6 ((push_bit 2 (ucast b AND 0x0f) OR drop_bit 6 (ucast c)) AND 0x03 :: u32) OR (ucast c AND 0x3f)) :: u8) = c"
  by - (unfold masks, (rule bit_word_eqI, auto dest!: below_8 simp: bit_simps high_bits simp flip: numeral_2_eq_2)+)

lemma decode_group:
  "BF_decode (x1 # x2 # s) 1 =
     do {
       c1 \<leftarrow> BF_safe_atoi64 x1; c2 \<leftarrow> BF_safe_atoi64 x2;
       Some [ucast (push_bit 2 c1 OR drop_bit 4 (c2 AND 0x30))]
     }"
  "BF_decode (x1 # x2 # x3 # s) 2 =
     do {
       c1 \<leftarrow> BF_safe_atoi64 x1; c2 \<leftarrow> BF_safe_atoi64 x2; c3 \<leftarrow> BF_safe_atoi64 x3;
       Some [ucast (push_bit 2 c1 OR drop_bit 4 (c2 AND 0x30)),
             ucast (push_bit 4 (c2 AND 0x0F) OR drop_bit 2 (c3 AND 0x3C))]
     }"
  "BF_decode (x1 # x2 # x3 # x4 # s) (3 + n) =
     do {
       c1 \<leftarrow> BF_safe_atoi64 x1; c2 \<leftarrow> BF_safe_atoi64 x2; c3 \<leftarrow> BF_safe_atoi64 x3; c4 \<leftarrow> BF_safe_atoi64 x4;
       bs \<leftarrow> (if n = 0 then Some [] else BF_decode s n);
       Some (ucast (push_bit 2 c1 OR drop_bit 4 (c2 AND 0x30)) # ucast (push_bit 4 (c2 AND 0x0F) OR drop_bit 2 (c3 AND 0x3C))
         # ucast (push_bit 6 (c3 AND 0x03) OR c4) # bs)
     }"
  by (subst BF_decode.simps; simp add: Let_def cong: option.case_cong)+

lemmas radix_simps = BF_encode.simps Let_def append.simps digit_back below_64 octets_back Option.bind.simps

lemma decode_encode: "bs \<noteq> [] \<Longrightarrow> BF_decode (BF_encode bs @ rest) (length bs) = Some bs"
proof (induction bs rule: BF_encode.induct)
  case (2 s1)
  have "length [s1] = 1" by simp
  then show ?case by (simp only: decode_group radix_simps)
next
  case (3 s1 s2)
  have "length [s1, s2] = 2" by simp
  then show ?case by (simp only: decode_group radix_simps)
next
  case (4 s1 s2 s3 src)
  have "length (s1 # s2 # s3 # src) = 3 + length src" by simp
  moreover have "(if length src = 0 then Some [] else BF_decode (BF_encode src @ rest) (length src)) = Some src"
    using "4.IH" by simp
  ultimately show ?case by (simp only: decode_group radix_simps)
qed simp

section \<open>What is accepted\<close>

lemma digit_forth:
  assumes "BF_safe_atoi64 x = Some c"
  shows "BF_digit c = x"
proof -
  define t where "t = (ucast x - 0x20 :: u32)"
  have widen: "unat (ucast y :: u32) = unat y" for y :: u8 by transfer (simp add: take_bit_eq_mod)
  from assms have t: "t < 0x60" and c: "c = ucast (BF_atoi64 ! unat t)" and d: "\<not> 63 < (ucast (BF_atoi64 ! unat t) :: u32)"
    by (auto simp: BF_safe_atoi64_def Let_def not_le t_def split: if_splits)
  have i: "unat t < 96" using t by (simp add: word_less_nat_alt)
  then have "63 < BF_atoi64 ! unat t \<or> BF_itoa64 ! unat (BF_atoi64 ! unat t) = of_nat (unat t + 0x20)"
    using bspec [OF digits_forth, of "unat t"] by (simp only: Let_def) simp
  moreover have "\<not> 63 < BF_atoi64 ! unat t"
    using d by (simp only: word_less_nat_alt widen) simp
  ultimately have e: "BF_digit c = of_nat (unat t + 0x20)" by (simp only: BF_digit_def c widen) simp
  have "0x20 \<le> (ucast x :: u32)"
  proof (rule ccontr)
    assume "\<not> 0x20 \<le> (ucast x :: u32)"
    then have "unat t = 2 ^ 32 + unat (ucast x :: u32) - 0x20"
      by (simp add: t_def unat_sub_if' word_le_nat_alt)
    then show False using i by simp
  qed
  then have "unat t + 0x20 = unat x" by (simp add: t_def unat_sub word_le_nat_alt widen)
  then show ?thesis by (simp add: e)
qed

lemma digit_iff: "(\<exists>c. BF_safe_atoi64 x = Some c) \<longleftrightarrow> x \<in> set BF_itoa64"
proof
  assume "\<exists>c. BF_safe_atoi64 x = Some c"
  then obtain c where c: "BF_safe_atoi64 x = Some c" ..
  then have "x = BF_itoa64 ! unat c" using digit_forth by (auto simp: BF_digit_def)
  moreover have "unat c < 64" using digit_bound [OF c] by (simp add: word_less_nat_alt)
  ultimately show "x \<in> set BF_itoa64" by simp
next
  assume "x \<in> set BF_itoa64"
  then obtain i where i: "i < 64" "x = BF_itoa64 ! i" by (auto simp: in_set_conv_nth)
  have "unat (of_nat i :: u32) = i" using i(1) by (simp add: unsigned_of_nat take_bit_eq_mod)
  moreover have "(of_nat i :: u32) < 64" using i(1) by (simp add: word_less_nat_alt unsigned_of_nat take_bit_eq_mod)
  ultimately show "\<exists>c. BF_safe_atoi64 x = Some c" using digit_back [of "of_nat i"] i(2) by (auto simp: BF_digit_def)
qed

text \<open>One whole group, and the last one of a size that is one more than a multiple of three.\<close>

lemma decode_step:
  "0 < n \<Longrightarrow> BF_decode s (3 + n) =
     do {
       c1 \<leftarrow> BF_safe_atoi64 (char_at s 0); c2 \<leftarrow> BF_safe_atoi64 (char_at s 1);
       c3 \<leftarrow> BF_safe_atoi64 (char_at s 2); c4 \<leftarrow> BF_safe_atoi64 (char_at s 3);
       bs \<leftarrow> BF_decode (drop 4 s) n;
       Some (ucast (push_bit 2 c1 OR drop_bit 4 (c2 AND 0x30)) # ucast (push_bit 4 (c2 AND 0x0F) OR drop_bit 2 (c3 AND 0x3C))
         # ucast (push_bit 6 (c3 AND 0x03) OR c4) # bs)
     }"
  by (subst BF_decode.simps) (simp add: Let_def)

lemma decode_one:
  "BF_decode s 1 =
     do {
       c1 \<leftarrow> BF_safe_atoi64 (char_at s 0); c2 \<leftarrow> BF_safe_atoi64 (char_at s 1);
       Some [ucast (push_bit 2 c1 OR drop_bit 4 (c2 AND 0x30))]
     }"
  by (subst BF_decode.simps) (simp add: Let_def)

lemma first_four: "(\<forall>i < 4 + m. P i) \<longleftrightarrow> P 0 \<and> P 1 \<and> P 2 \<and> P 3 \<and> (\<forall>i < m. P (4 + i :: nat))"
proof -
  have "i = 0 \<or> i = 1 \<or> i = 2 \<or> i = 3 \<or> (\<exists>j < m. i = 4 + j)" if "i < 4 + m" for i using that by presburger
  then show ?thesis by fastforce
qed

lemma decode_digits:
  "(\<exists>bs. BF_decode s (3 * k + 1) = Some bs \<and> length bs = 3 * k + 1)
     \<longleftrightarrow> (\<forall>i < 4 * k + 2. \<exists>c. BF_safe_atoi64 (char_at s i) = Some c)"
proof (induction k arbitrary: s)
  case 0
  have two: "(\<forall>i < 2. P i) \<longleftrightarrow> P 0 \<and> P (1 :: nat)" for P by (auto simp: less_2_cases_iff)
  show ?case
    by (simp only: mult_0_right add_0 decode_one two) (auto simp: bind_eq_Some_conv simp del: One_nat_def push_bit_or)
next
  case (Suc k)
  have n: "3 * Suc k + 1 = 3 + (3 * k + 1)" "0 < 3 * k + 1" by simp_all
  have "4 * Suc k + 2 = 4 + (4 * k + 2)" by simp
  moreover have "(\<exists>bs. BF_decode s (3 * Suc k + 1) = Some bs \<and> length bs = 3 * Suc k + 1) \<longleftrightarrow>
    (\<exists>c. BF_safe_atoi64 (char_at s 0) = Some c) \<and> (\<exists>c. BF_safe_atoi64 (char_at s 1) = Some c) \<and>
    (\<exists>c. BF_safe_atoi64 (char_at s 2) = Some c) \<and> (\<exists>c. BF_safe_atoi64 (char_at s 3) = Some c) \<and>
    (\<exists>bs. BF_decode (drop 4 s) (3 * k + 1) = Some bs \<and> length bs = 3 * k + 1)"
    unfolding n(1) decode_step [OF n(2)] by (auto simp: bind_eq_Some_conv)
  ultimately show ?case by (simp only: first_four Suc.IH char_at_drop)
qed

lemma decode_length: "BF_decode s (3 * k + 1) = Some bs \<Longrightarrow> length bs = 3 * k + 1"
proof (induction k arbitrary: s bs)
  case 0
  then show ?case by (auto simp only: mult_0_right add_0 decode_one bind_eq_Some_conv) auto
next
  case (Suc k)
  have n: "3 * Suc k + 1 = 3 + (3 * k + 1)" "0 < 3 * k + 1" by simp_all
  from Suc.prems show ?case
    using Suc.IH [of "drop 4 s"] unfolding n(1) decode_step [OF n(2)] by (auto simp: bind_eq_Some_conv)
qed

lemma decode_cong:
  assumes "\<And>i. i < 4 * k + 1 \<Longrightarrow> char_at s i = char_at t i"
    and "map_option (\<lambda>c. c AND 0x30) (BF_safe_atoi64 (char_at s (4 * k + 1)))
       = map_option (\<lambda>c. c AND 0x30) (BF_safe_atoi64 (char_at t (4 * k + 1)))"
  shows "BF_decode s (3 * k + 1) = BF_decode t (3 * k + 1)"
  using assms
proof (induction k arbitrary: s t)
  case 0
  have "char_at s 0 = char_at t 0" using "0.prems"(1) [of 0] by simp
  then show ?case using "0.prems"(2)
    by (simp only: mult_0_right add_0 decode_one)
      (cases "BF_safe_atoi64 (char_at s 1)"; cases "BF_safe_atoi64 (char_at t 1)"; simp del: push_bit_and drop_bit_and)
next
  case (Suc k)
  have n: "3 * Suc k + 1 = 3 + (3 * k + 1)" by simp
  have "BF_decode (drop 4 s) (3 * k + 1) = BF_decode (drop 4 t) (3 * k + 1)"
    by (rule Suc.IH) (use Suc.prems in \<open>simp_all add: char_at_drop\<close>)
  moreover have "char_at s i = char_at t i" if "i < 4" for i using Suc.prems(1) [of i] that by simp
  moreover have p: "0 < 3 * k + 1" by simp
  ultimately show ?case unfolding n decode_step [OF p] by simp
qed

text \<open>The last of 22 digits with the bits that are not used taken away.\<close>

definition norm_digit :: "u8 \<Rightarrow> u8" where
  "norm_digit x = BF_itoa64 ! unat (BF_atoi64 ! unat (x - 0x20) AND 0x30)"

lemma norm_digit_eq:
  assumes "BF_safe_atoi64 x = Some c"
  shows "norm_digit x = BF_digit (c AND 0x30)"
proof -
  have c: "unat c < 64" using digit_bound [OF assms] by (simp add: word_less_nat_alt)
  then have "BF_atoi64 ! unat (BF_digit c - 0x20) = of_nat (unat c)"
    using bspec [OF digits_back, of "unat c"] by (simp only: Let_def BF_digit_def set_upt) simp
  then have "norm_digit x = BF_itoa64 ! unat (of_nat (unat c) AND 0x30 :: u8)"
    by (simp only: norm_digit_def digit_forth [OF assms])
  moreover have "unat (of_nat k AND 0x30 :: u8) = k AND 0x30" if "k < 64" for k
    using that by (simp add: unsigned_and_eq unsigned_of_nat take_bit_eq_mod)
  moreover have "unat (c AND 0x30) = unat c AND 0x30" by (simp add: unsigned_and_eq)
  ultimately show ?thesis using c by (simp only: BF_digit_def)
qed

lemma norm_digit_back:
  assumes "BF_safe_atoi64 x = Some c"
  shows "BF_safe_atoi64 (norm_digit x) = Some (c AND 0x30)" and "norm_digit (norm_digit x) = norm_digit x"
proof -
  have "c AND 0x30 \<le> 0x30" by (rule word_and_le1)
  then have "c AND 0x30 < 64" by (rule le_less_trans) simp
  then show n: "BF_safe_atoi64 (norm_digit x) = Some (c AND 0x30)"
    by (simp only: norm_digit_eq [OF assms] digit_back)
  then show "norm_digit (norm_digit x) = norm_digit x"
    unfolding norm_digit_eq [OF n] by (simp add: norm_digit_eq [OF assms] and.assoc)
qed

lemma decode_norm:
  assumes "length s = 21" and "BF_safe_atoi64 x = Some c"
  shows "BF_decode (s @ norm_digit x # r) 16 = BF_decode (s @ x # r') 16"
proof -
  have "BF_decode (s @ norm_digit x # r) (3 * 5 + 1) = BF_decode (s @ x # r') (3 * 5 + 1)"
    by (rule decode_cong) (use assms in \<open>auto simp: char_at_def nth_append norm_digit_back and.assoc\<close>)
  then show ?thesis by simp
qed

text \<open>What is written are digits.\<close>

lemma encode_digits: "set (BF_encode bs) \<subseteq> set BF_itoa64"
proof -
  have d: "c < 64 \<Longrightarrow> BF_digit c \<in> set BF_itoa64" for c
    using digit_back [of c] digit_iff by blast
  show ?thesis by (induction bs rule: BF_encode.induct) (simp_all only: BF_encode.simps Let_def set_simps below_64 d insert_subset empty_subsetI)
qed

lemma length_encode: "length (BF_encode bs) = (4 * length bs + 2) div 3"
  by (induction bs rule: BF_encode.induct) (simp_all add: Let_def)

section \<open>Properties\<close>

text \<open>
  C37: Bytes that have been written as digits are read back, whatever follows them; only
  digits are written, four for three bytes and two or three for an incomplete group.
\<close>

theorem radix_read_back:
  assumes "bs \<noteq> []"
  shows "BF_decode (BF_encode bs @ rest) (length bs) = Some bs \<and>
    length (BF_encode bs) = (4 * length bs + 2) div 3 \<and> set (BF_encode bs) \<subseteq> set BF_itoa64"
  using decode_encode [OF assms] length_encode encode_digits by blast

theorem radix_read_back_witness:
  "BF_decode (BF_encode [0, 255, 16, 131] @ [36]) 4 = Some [0, 255, 16, 131] \<and> length (BF_encode [0, 255, 16, 131]) = 6"
proof -
  have l: "length [0, 255, 16, 131 :: u8] = 4" by simp
  show ?thesis using radix_read_back [of "[0, 255, 16, 131]" "[36]", unfolded l] by (simp del: BF_encode.simps)
qed

end
