(* ===== verification/Bf_Key.thy ===== *)
theory Bf_Key
  imports Bf_Core Bf_Radix
begin

text \<open>
  The key schedule of \<open>crypt_blowfish.c\<close>: \<open>BF_set_key\<close>, which reads the password over and over, its
  terminator included, and \<open>BF_swap\<close>. The reference says which of the two ways to widen a character
  counts, and when the safety measure described in the comments of the code is taken.
\<close>

section \<open>BF_swap\<close>

definition BF_swap :: "u32 list \<Rightarrow> u32 list" where
  "BF_swap x =
     map (\<lambda>tmp. let tmp = push_bit 16 tmp OR drop_bit 16 tmp
                in push_bit 8 (tmp AND 0x00FF00FF) OR (drop_bit 8 tmp AND 0x00FF00FF)) x"

lemma length_swap [simp]: "length (BF_swap x) = length x"
  by (simp add: BF_swap_def)

section \<open>BF_set_key\<close>

text \<open>One round of the inner loop on the pointer, the two readings of four characters, and \<open>sign\<close>.\<close>

definition set_key_char :: "bytes \<Rightarrow> nat \<Rightarrow> nat \<times> u32 \<times> u32 \<times> u32 \<Rightarrow> nat \<times> u32 \<times> u32 \<times> u32" where
  "set_key_char key j s =
     (let (ptr, tmp0, tmp1, sign) = s;
          c = char_at key ptr;
          tmp0 = push_bit 8 tmp0;
          tmp0 = tmp0 OR ucast c;
          tmp1 = push_bit 8 tmp1;
          tmp1 = tmp1 OR scast c;
          sign = (if j \<noteq> 0 then sign OR (tmp1 AND 0x80) else sign);
          ptr = (if c = 0 then 0 else ptr + 1)
      in (ptr, tmp0, tmp1, sign))"

text \<open>One round of the outer loop; the two keys grow by a word.\<close>

definition set_key_word :: "bytes \<Rightarrow> nat \<Rightarrow> nat \<Rightarrow> nat \<times> u32 \<times> u32 \<times> u32 list \<times> u32 list \<Rightarrow>
    nat \<times> u32 \<times> u32 \<times> u32 list \<times> u32 list" where
  "set_key_word key bug i s =
     (let (ptr, sign, diff, expanded, initial) = s;
          (ptr, tmp0, tmp1, sign) = fold (set_key_char key) [0..<4] (ptr, 0, 0, sign);
          diff = diff OR (tmp0 XOR tmp1);
          tmp = [tmp0, tmp1] ! bug
      in (ptr, sign, diff, expanded @ [tmp], initial @ [BF_init_P ! i XOR tmp]))"

text \<open>The expanded key and the initial one.\<close>

definition BF_set_key :: "bytes \<Rightarrow> u8 \<Rightarrow> u32 list \<times> u32 list" where
  "BF_set_key key flags =
     (let bug = unat (ucast flags AND 1 :: u32);
          safety = push_bit 15 (ucast flags AND 2);
          (ptr, sign, diff, expanded, initial) = fold (set_key_word key bug) [0..<18] (0, 0, 0, [], []);
          diff = diff OR drop_bit 16 diff;
          diff = diff AND 0xffff;
          diff = diff + 0xffff;
          sign = push_bit 9 sign;
          sign = sign AND (NOT diff AND safety)
      in (expanded, initial[0 := initial ! 0 XOR sign]))"

section \<open>The reference\<close>

text \<open>Place \<open>m\<close> of the password and its terminator repeated for ever, and four places from \<open>4 * i\<close>.\<close>

definition key_byte :: "bytes \<Rightarrow> nat \<Rightarrow> u8" where
  "key_byte key m = (key @ [0]) ! (m mod Suc (length key))"

definition key_word :: "(u8 \<Rightarrow> u32) \<Rightarrow> bytes \<Rightarrow> nat \<Rightarrow> u32" where
  "key_word widen key i = foldl (\<lambda>w j. push_bit 8 w OR widen (key_byte key (4 * i + j))) 0 [0, 1, 2, 3]"

text \<open>Some character that is not the first of its four has its top bit set.\<close>

definition extended_at :: "bytes \<Rightarrow> nat \<Rightarrow> bool" where
  "extended_at key i \<longleftrightarrow> list_ex (\<lambda>j. bit (key_byte key (4 * i + j)) 7) [1, 2, 3]"

definition sign_extended :: "bytes \<Rightarrow> bool" where
  "sign_extended key \<longleftrightarrow> list_ex (extended_at key) [0..<18]"

definition set_key_reference :: "bytes \<Rightarrow> u8 \<Rightarrow> u32 list \<times> u32 list" where
  "set_key_reference key flags =
     (let right = map (key_word ucast key) [0..<18];
          wrong = map (key_word scast key) [0..<18];
          expanded = (if bit flags 0 then wrong else right);
          initial = map2 (XOR) BF_init_P expanded
      in (expanded,
          if bit flags 1 \<and> sign_extended key \<and> right = wrong then initial[0 := initial ! 0 XOR 0x10000] else initial))"

section \<open>The pointer\<close>

lemma key_byte_ptr: "char_at key (m mod Suc (length key)) = key_byte key m"
proof -
  have "m mod Suc (length key) < Suc (length key)" by simp
  then show ?thesis by (auto simp: key_byte_def char_at_def nth_append)
qed

lemma key_byte_zero:
  assumes "0 \<notin> set key"
  shows "key_byte key m = 0 \<longleftrightarrow> m mod Suc (length key) = length key"
proof -
  have "m mod Suc (length key) < Suc (length key)" by simp
  then show ?thesis using assms by (auto simp: key_byte_def nth_append less_Suc_eq dest: nth_mem)
qed

lemma and_single: "w AND push_bit k 1 = (if bit w k then push_bit k 1 else (0 :: u32))"
  by (rule bit_word_eqI)
    (cases "bit w k"; auto simp only: if_True if_False bit_and_iff bit_push_bit_iff bit_1_iff bit_0_eq bot_apply bot_bool_def
       diff_is_0_eq dest!: le_antisym)

lemma and_bit_7: "w AND 0x80 = (if bit w 7 then 0x80 else (0 :: u32))"
proof -
  have "w AND push_bit 7 1 = (if bit w 7 then push_bit 7 1 else 0)" by (rule and_single)
  then show ?thesis by simp
qed

lemma set_key_char_eq:
  assumes "0 \<notin> set key"
  shows "set_key_char key j (m mod Suc (length key), t0, t1, sign) =
    (Suc m mod Suc (length key), push_bit 8 t0 OR ucast (key_byte key m), push_bit 8 t1 OR scast (key_byte key m),
     if j \<noteq> 0 \<and> bit (key_byte key m) 7 then sign OR 0x80 else sign)"
proof -
  have "bit (push_bit 8 t1 OR scast (key_byte key m)) 7 \<longleftrightarrow> bit (key_byte key m) 7" by (simp add: bit_simps)
  moreover have "(if key_byte key m = 0 then 0 else m mod Suc (length key) + 1) = Suc m mod Suc (length key)"
    using key_byte_zero [OF assms, of m] by (simp add: mod_Suc)
  ultimately show ?thesis
    unfolding set_key_char_def Let_def prod.case key_byte_ptr and_bit_7 by simp
qed

lemma set_key_chars:
  assumes "0 \<notin> set key"
  shows "fold (set_key_char key) [0..<4] (4 * i mod Suc (length key), 0, 0, sign) =
    (4 * Suc i mod Suc (length key), key_word ucast key i, key_word scast key i,
     if extended_at key i then sign OR 0x80 else sign)"
proof -
  have u: "[0..<4] = [0, 1, 2, 3]" by (simp add: upt_rec)
  have s: "4 * Suc i = Suc (Suc (Suc (Suc (4 * i))))" by simp
  have n: "4 * i + 1 = Suc (4 * i)" "4 * i + 2 = Suc (Suc (4 * i))" "4 * i + 3 = Suc (Suc (Suc (4 * i)))" by simp_all
  show ?thesis
    by (simp only: u fold_simps set_key_char_eq [OF assms] s key_word_def foldl.simps n) (auto simp: n extended_at_def)
qed

lemma set_key_words:
  assumes "0 \<notin> set key" and "bug < 2"
  shows "fold (set_key_word key bug) [0..<n] (0, 0, 0, [], []) =
    (4 * n mod Suc (length key),
     if list_ex (extended_at key) [0..<n] then 0x80 else 0,
     fold (\<lambda>i d. d OR (key_word ucast key i XOR key_word scast key i)) [0..<n] 0,
     map (key_word (if bug = 0 then ucast else scast) key) [0..<n],
     map (\<lambda>i. BF_init_P ! i XOR key_word (if bug = 0 then ucast else scast) key i) [0..<n])"
proof (induction n)
  case (Suc n)
  have b: "[key_word ucast key n, key_word scast key n] ! bug = key_word (if bug = 0 then ucast else scast) key n"
    using assms(2) by (auto simp: less_2_cases_iff)
  show ?case
    unfolding upt_Suc_append [OF le0] fold_append comp_def Suc.IH
    unfolding set_key_word_def prod.case set_key_chars [OF assms(1)] Let_def b fold_simps map_append list.map
    by simp
qed simp

section \<open>The safety measure\<close>

lemma xor_zero_iff: "x XOR y = 0 \<longleftrightarrow> x = (y :: u32)"
  by (auto simp: bit_eq_iff bit_xor_iff)

lemma or_zero_iff: "x OR y = 0 \<longleftrightarrow> x = 0 \<and> y = (0 :: u32)"
  by (auto simp: bit_eq_iff bit_or_iff)

lemma differ_zero: "fold (\<lambda>i d. d OR (f i XOR g i)) is (a :: u32) = 0 \<longleftrightarrow> a = 0 \<and> map f is = map g is"
  by (induction "is" arbitrary: a) (auto simp: or_zero_iff xor_zero_iff)

lemma and_bit_1: "w AND 2 = (if bit w 1 then 2 else (0 :: u32))"
proof -
  have "w AND push_bit 1 1 = (if bit w 1 then push_bit 1 1 else 0)" by (rule and_single)
  then show ?thesis by simp
qed

lemma and_bit_16: "w AND 0x10000 = (if bit w 16 then 0x10000 else (0 :: u32))"
proof -
  have "w AND push_bit 16 1 = (if bit w 16 then push_bit 16 1 else 0)" by (rule and_single)
  then show ?thesis by simp
qed

lemma diff_bit:
  "bit (((diff OR drop_bit 16 diff) AND 0xffff) + 0xffff) 16 \<longleftrightarrow> diff \<noteq> (0 :: u32)"
proof -
  define d where "d = (diff OR drop_bit 16 diff) AND 0xffff"
  have m: "0xffff = (mask 16 :: u32)" by (simp add: mask_eq_exp_minus_1)
  have zero: "d = 0 \<longleftrightarrow> diff = 0"
  proof
    assume z: "d = 0"
    show "diff = 0"
    proof (rule bit_word_eqI)
      fix n assume n: "n < LENGTH(32)"
      have none: "\<not> bit d k" for k using z by simp
      show "bit diff n = bit (0 :: u32) n"
        using n none [of n] none [of "n - 16"] unfolding d_def m by (cases "n < 16") (auto simp: bit_simps)
    qed
  qed (simp add: d_def)
  have le: "unat d \<le> 0xffff" using word_and_le1 [of "diff OR drop_bit 16 diff" "0xffff"]
    by (simp add: d_def word_le_nat_alt)
  then have "unat (d + 0xffff) = unat d + 0xffff" by (simp add: unat_plus_if')
  moreover have "bit (d + 0xffff) 16 \<longleftrightarrow> bit (unat (d + 0xffff)) 16" by (simp add: bit_unsigned_iff)
  ultimately have "bit (d + 0xffff) 16 \<longleftrightarrow> odd ((unat d + 0xffff) div 0x10000)" by (simp only: bit_iff_odd) simp
  also have "\<dots> \<longleftrightarrow> unat d \<noteq> 0"
  proof (cases "unat d")
    case (Suc k)
    then have "(unat d + 0xffff) div 0x10000 = 1" using le by simp
    then show ?thesis using Suc by simp
  qed simp
  finally show ?thesis using zero by (simp add: d_def unat_eq_0)
qed

lemma set_key_eq:
  assumes "0 \<notin> set key"
  shows "BF_set_key key flags = set_key_reference key flags"
proof -
  define bug where "bug = unat (ucast flags AND 1 :: u32)"
  define diff where "diff = fold (\<lambda>i d. d OR (key_word ucast key i XOR key_word scast key i)) [0..<18] (0 :: u32)"
  have bug: "bug = (if bit flags 0 then 1 else 0)"
    using and_single [of "ucast flags" 0] unfolding bug_def push_bit_of_1 power_0 by (simp only: bit_ucast_iff) simp
  then have b2: "bug < 2" by simp
  have safety: "push_bit 15 (ucast flags AND 2) = (if bit flags 1 then 0x10000 else (0 :: u32))"
    by (simp add: and_bit_1 bit_simps)
  have same: "diff = 0 \<longleftrightarrow> map (key_word ucast key) [0..<18] = map (key_word scast key) [0..<18]"
    by (simp add: diff_def differ_zero)
  let ?w = "key_word (if bug = 0 then ucast else scast) key"
  have P: "BF_init_P = map ((!) BF_init_P) [0..<18]" using map_nth [of BF_init_P] by simp
  have init: "map (\<lambda>i. BF_init_P ! i XOR ?w i) [0..<18] = map2 (XOR) BF_init_P (map ?w [0..<18])"
    by (subst (2) P) (simp add: map2_map_map)
  have e: "BF_set_key key flags = (map ?w [0..<18], (map2 (XOR) BF_init_P (map ?w [0..<18]))
    [0 := map2 (XOR) BF_init_P (map ?w [0..<18]) ! 0 XOR
       (push_bit 9 (if sign_extended key then 0x80 else 0) AND
        (NOT (((diff OR drop_bit 16 diff) AND 0xffff) + 0xffff) AND (if bit flags 1 then 0x10000 else 0)))])"
    unfolding BF_set_key_def Let_def bug_def [symmetric] safety set_key_words [OF assms b2] prod.case init
      diff_def [symmetric] sign_extended_def [symmetric] by (rule refl)
  have mask: "push_bit 9 (if s then 0x80 else 0) AND (NOT (((diff OR drop_bit 16 diff) AND 0xffff) + 0xffff) AND (if f then 0x10000 else 0))
      = (if f \<and> s \<and> diff = 0 then 0x10000 else (0 :: u32))" for s f
    using diff_bit [of diff] and_bit_16 [of "NOT (((diff OR drop_bit 16 diff) AND 0xffff) + 0xffff)"]
    by (auto simp: bit_not_iff)
  have id: "xs[0 := xs ! 0 XOR (if c then v else 0)] = (if c then xs[0 := xs ! 0 XOR v] else xs)" for xs :: "u32 list" and c v
    by simp
  show ?thesis
    unfolding e mask id set_key_reference_def Let_def same by (cases "bit flags 0") (simp_all only: bug if_True if_False one_neq_zero simp_thms)
qed

text \<open>So only the first 72 places of the repeated password count.\<close>

lemma set_key_prefix:
  assumes "\<And>m. m < 72 \<Longrightarrow> key_byte key m = key_byte key' m" and "0 \<notin> set key" and "0 \<notin> set key'"
  shows "BF_set_key key flags = BF_set_key key' flags"
proof -
  have w: "map (key_word f key) [0..<18] = map (key_word f key') [0..<18]" for f
    using assms(1) by (simp add: key_word_def)
  have "extended_at key i = extended_at key' i" if "i < 18" for i
    using assms(1) that by (simp add: extended_at_def)
  then have "sign_extended key = sign_extended key'" by (auto simp: sign_extended_def list_ex_iff)
  then show ?thesis
    unfolding set_key_eq [OF assms(2)] set_key_eq [OF assms(3)] set_key_reference_def w by (rule arg_cong)
qed

lemma length_set_key: "length (fst (BF_set_key key flags)) = 18 \<and> length (snd (BF_set_key key flags)) = 18"
proof -
  have "length e = length (fst (snd (snd (snd s)))) + length is \<and> length i = length (snd (snd (snd (snd s)))) + length is"
    if "fold (set_key_word key bug) is s = (p, sg, d, e, i)" for "is" bug s p sg d e i
    using that by (induction "is" arbitrary: s) (fastforce simp: set_key_word_def Let_def split: prod.splits)+
  note len = this [of _ "[0..<18]" "(0, 0, 0, [], [])"]
  obtain p sg d e i where f: "fold (set_key_word key (unat (ucast flags AND 1 :: u32))) [0..<18] (0, 0, 0, [], []) = (p, sg, d, e, i)"
    by (metis prod.exhaust)
  show ?thesis using len [OF f] by (simp only: BF_set_key_def Let_def f prod.case) simp
qed

section \<open>The key check of the self-test\<close>

text \<open>
  The last part of the self-test: the password that tells the two ways apart and needs the safety
  measure, under the flags of \<open>$2a$\<close> and of \<open>$2y$\<close>.
\<close>

definition key_check :: bool where
  "key_check =
     (let k = [0xff, 0xa3, 0x33, 0x34, 0xff, 0xff, 0xff, 0xa3, 0x33, 0x34, 0x35];
          (ae, ai) = BF_set_key k 2;
          (ye, yi) = BF_set_key k 4;
          ai = ai[0 := ai ! 0 XOR 0x10000]
      in ai ! 0 = 0xdb9c59bc \<and> ye ! 17 = 0x33343500 \<and> ae = ye \<and> ai = yi)"

lemma key_check_holds: "key_check"
  unfolding key_check_def by code_simp

section \<open>Properties\<close>

text \<open>
  C22: The key schedule computes what its comment says: the expanded key is the password with
  its terminator, repeated and packed four characters to a word, each widened without sign, or with
  sign when the flags ask for the old mistake; bit 16 of the first word of the initial key is flipped
  exactly when the flags ask for safety, both ways agree on the whole key, and some character that is
  not the first of its word has its top bit set.
\<close>

theorem key_schedule:
  assumes "0 \<notin> set key"
  shows "BF_set_key key flags = set_key_reference key flags"
  by (rule set_key_eq [OF assms])

theorem key_schedule_witness:
  "BF_set_key [0xff, 0xa3, 0x33, 0x34] 2 = set_key_reference [0xff, 0xa3, 0x33, 0x34] 2"
  by (rule key_schedule) simp

end
