(* ===== verification/Bf_Crypt.thy ===== *)
theory Bf_Crypt
  imports Bf_Key
begin

text \<open>
  \<open>BF_crypt\<close>, the self-tested \<open>_crypt_blowfish_rn\<close> and the salt generator of \<open>crypt_blowfish.c\<close>: the salted
  key schedule, its costly repetition, the hash. A setting is accepted exactly when it is well
  formed; the hash is 60 characters, itself a setting, and hashing the same password with it
  gives it again.
\<close>

section \<open>Results\<close>

text \<open>\<open>errno\<close> when a null pointer is returned, \<open>None\<close> when the output buffer is.\<close>

datatype crypt_errno = ERANGE | EINVAL | ENOMEM

text \<open>The buffer after some bytes have been written at its start.\<close>

definition write_front :: "bytes \<Rightarrow> bytes \<Rightarrow> bytes" where
  "write_front bs out = bs @ drop (length bs) out"

section \<open>BF_crypt\<close>

definition flags_by_subtype :: bytes where
  "flags_by_subtype = [2, 4, 0, 0, 0, 0, 0, 0, 0, 0, 0, 0, 0, 0, 0, 0, 0, 0, 0, 0, 0, 0, 0, 1, 4, 0]"

definition subtype_flags :: "u8 \<Rightarrow> u8" where
  "subtype_flags c = flags_by_subtype ! (unat c - 97)"

text \<open>The checks are made from left to right and stop at the first that fails.\<close>

definition setting_ok :: "bytes \<Rightarrow> bool" where
  "setting_ok s \<longleftrightarrow>
     \<not> (char_at s 0 \<noteq> 36 \<or> char_at s 1 \<noteq> 50 \<or> char_at s 2 < 97 \<or> 122 < char_at s 2 \<or>
        subtype_flags (char_at s 2) = 0 \<or> char_at s 3 \<noteq> 36 \<or>
        char_at s 4 < 48 \<or> 51 < char_at s 4 \<or> char_at s 5 < 48 \<or> 57 < char_at s 5 \<or>
        (char_at s 4 = 51 \<and> 49 < char_at s 5) \<or> char_at s 6 \<noteq> 36)"

definition setting_count :: "bytes \<Rightarrow> u32" where
  "setting_count s = push_bit ((unat (char_at s 4) - 48) * 10 + (unat (char_at s 5) - 48)) 1"

text \<open>Words and bytes share their memory in a union.\<close>

definition words_of :: "bytes \<Rightarrow> nat \<Rightarrow> u32 list" where
  "words_of bs n = map (\<lambda>i. load_bytes (take 4 (drop (4 * i) bs))) [0..<n]"

definition bytes_of :: "u32 list \<Rightarrow> bytes" where
  "bytes_of ws = concat (map (mem_bytes 4) ws)"

text \<open>Two words of the salt go into a block before it is encrypted.\<close>

definition salted :: "BF_ctx \<Rightarrow> u32 list \<Rightarrow> nat \<Rightarrow> u32 \<times> u32 \<Rightarrow> u32 \<times> u32" where
  "salted ctx salt k x = BF_ENCRYPT ctx (fst x XOR salt ! k, snd x XOR salt ! (k + 1))"

definition salt_P :: "u32 list \<Rightarrow> BF_ctx \<Rightarrow> BF_ctx \<times> u32 \<times> u32" where
  "salt_P salt ctx =
     fold (\<lambda>j (ctx, x). let i = 2 * j; x = salted ctx salt (i AND 2) x in (put_P i x ctx, x)) [0..<9] (ctx, 0, 0)"

definition salt_S :: "u32 list \<Rightarrow> BF_ctx \<times> u32 \<times> u32 \<Rightarrow> BF_ctx" where
  "salt_S salt s =
     fst (fold (\<lambda>j (ctx, x).
            let x = salted ctx salt ((16 + 2) AND 3) x;
                ctx = put_S (4 * j) x ctx;
                x = salted ctx salt ((16 + 4) AND 3) x
            in (put_S (4 * j + 2) x ctx, x)) [0..<256] s)"

definition xor_key :: "u32 list \<Rightarrow> BF_ctx \<Rightarrow> BF_ctx" where
  "xor_key expanded_key ctx = ctx\<lparr>bf_P := map (\<lambda>i. bf_P ctx ! i XOR expanded_key ! i) [0..<18]\<rparr>"

definition xor_salt :: "u32 list \<Rightarrow> BF_ctx \<Rightarrow> BF_ctx" where
  "xor_salt salt ctx = ctx\<lparr>bf_P := map (\<lambda>i. bf_P ctx ! i XOR salt ! (i mod 4)) [0..<18]\<rparr>"

text \<open>The inner loop runs twice and is left in the middle of its second round.\<close>

definition eks_round :: "u32 list \<Rightarrow> u32 list \<Rightarrow> BF_ctx \<Rightarrow> BF_ctx" where
  "eks_round expanded_key salt ctx = BF_body (xor_salt salt (BF_body (xor_key expanded_key ctx)))"

definition encrypt_magic :: "BF_ctx \<Rightarrow> u32 list" where
  "encrypt_magic ctx =
     concat (map (\<lambda>j. let (L, R) = (BF_ENCRYPT ctx ^^ 64) (BF_magic_w ! (2 * j), BF_magic_w ! (2 * j + 1)) in [L, R]) [0..<3])"

text \<open>The context after the key setup, and the text of the hash that goes behind the salt.\<close>

definition eks_setup :: "bytes \<Rightarrow> u8 \<Rightarrow> u32 list \<Rightarrow> nat \<Rightarrow> BF_ctx" where
  "eks_setup key flags salt count =
     (let (expanded_key, P) = BF_set_key key flags
      in (eks_round expanded_key salt ^^ count) (salt_S salt (salt_P salt \<lparr>bf_S = BF_init_S, bf_P = P\<rparr>)))"

definition hash_text :: "bytes \<Rightarrow> u8 \<Rightarrow> u32 list \<Rightarrow> nat \<Rightarrow> bytes" where
  "hash_text key flags salt count =
     BF_encode (take 23 (bytes_of (BF_swap (encrypt_magic (eks_setup key flags salt count)))))"

definition BF_crypt :: "bytes \<Rightarrow> bytes \<Rightarrow> bytes \<Rightarrow> int \<Rightarrow> u32 \<Rightarrow> crypt_errno option \<times> bytes" where
  "BF_crypt key setting output sz min_count =
     (if sz < 7 + 22 + 31 + 1 then (Some ERANGE, output)
      else if \<not> setting_ok setting then (Some EINVAL, output)
      else
        let count = setting_count setting
        in if count < min_count then (Some EINVAL, output)
           else
             (case BF_decode (drop 7 setting) 16 of
                None \<Rightarrow> (Some EINVAL, output)
              | Some salt \<Rightarrow>
                  let salt = BF_swap (words_of salt 4);
                      hash = hash_text key (subtype_flags (char_at setting 2)) salt (unat count)
                  in (None, write_front (take 28 setting @ [norm_digit (char_at setting 28)] @ hash @ [0]) output)))"

section \<open>The self-test\<close>

text \<open>The result says whether the buffer was too small.\<close>

definition crypt_output_magic :: "bytes \<Rightarrow> bytes \<Rightarrow> int \<Rightarrow> int \<times> bytes" where
  "crypt_output_magic setting output sz =
     (if sz < 3 then (-1, output)
      else (0, write_front [42, if char_at setting 0 = 42 \<and> char_at setting 1 = 48 then 49 else 48, 0] output))"

definition test_key :: bytes where
  "test_key = chars ''8b '' @ [0xd0, 0xc1, 0xd2, 0xcf, 0xcc, 0xd8]"

definition test_setting :: bytes where
  "test_setting = chars ''$2a$00$abcdefghijklmnopqrstuu''"

definition test_hashes :: "bytes list" where
  "test_hashes = [chars ''i1D709vfamulimlGcq0qq3UvuUasvEa'' @ [0, 0x55], chars ''VUrPmXD6q/nVSSp7pNDhCR9071IfIRe'' @ [0, 0x55]]"

text \<open>The character of the subtype is that of the setting when that one has been accepted.\<close>

definition self_test :: "u8 option \<Rightarrow> bool" where
  "self_test subtype =
     (let test_hash = (case subtype of None \<Rightarrow> test_hashes ! 0 | Some c \<Rightarrow> test_hashes ! unat (subtype_flags c AND 1));
          s = (case subtype of None \<Rightarrow> test_setting | Some c \<Rightarrow> test_setting[2 := c]);
          (r, p) = BF_crypt test_key s (replicate 62 0x55 @ [0]) (63 - (1 + 1)) 1;
          same = (r = None \<and> take 29 p = take 29 s \<and> take 34 (drop 29 p) = test_hash @ [0])
      in same \<and> key_check)"

definition crypt_blowfish_rn :: "bytes \<Rightarrow> bytes \<Rightarrow> bytes \<Rightarrow> int \<Rightarrow> crypt_errno option \<times> bytes" where
  "crypt_blowfish_rn key setting output sz =
     (let (m, output) = crypt_output_magic setting output sz;
          (retval, output) = BF_crypt key setting output sz 16;
          tested = self_test (if retval = None then Some (char_at setting 2) else None)
      in if tested then (retval, output)
         else let (m, output) = crypt_output_magic setting output sz in (Some EINVAL, output))"

section \<open>Salts\<close>

definition crypt_gensalt_blowfish_rn :: "bytes \<Rightarrow> u64 \<Rightarrow> bytes \<Rightarrow> int \<Rightarrow> bytes \<Rightarrow> int \<Rightarrow> crypt_errno option \<times> bytes" where
  "crypt_gensalt_blowfish_rn pre count input sz output output_size =
     (if sz < 16 \<or> output_size < 7 + 22 + 1 \<or> (count \<noteq> 0 \<and> (count < 4 \<or> 31 < count)) \<or>
         char_at pre 0 \<noteq> 36 \<or> char_at pre 1 \<noteq> 50 \<or>
         (char_at pre 2 \<noteq> 97 \<and> char_at pre 2 \<noteq> 98 \<and> char_at pre 2 \<noteq> 121)
      then (Some (if output_size < 7 + 22 + 1 then ERANGE else EINVAL),
            if 0 < output_size then write_front [0] output else output)
      else
        let count = (if count = 0 then 5 else count)
        in (None, write_front ([36, 50, char_at pre 2, 36, ucast (48 + count div 10), ucast (48 + count mod 10), 36]
                    @ BF_encode (take 16 input) @ [0]) output))"

section \<open>Sizes\<close>

lemma salted_P_ok: "bf_ok (fst (salt_P salt ctx)) = bf_ok ctx"
  unfolding salt_P_def by (subst fold_ok) (auto simp: Let_def)

lemma salted_S_ok: "bf_ok (salt_S salt s) = bf_ok (fst s)"
  unfolding salt_S_def by (rule fold_ok) (auto simp: Let_def)

lemma xor_ok: "bf_ok ctx \<Longrightarrow> bf_ok (xor_key k ctx)" "bf_ok ctx \<Longrightarrow> bf_ok (xor_salt salt ctx)"
  by (simp_all add: xor_key_def xor_salt_def bf_ok_def)

lemma eks_ok: "bf_ok (eks_setup key flags salt count)"
proof -
  have r: "bf_ok (eks_round k salt ctx)" if "bf_ok ctx" for k ctx
    using that by (simp add: eks_round_def xor_ok)
  have rounds: "bf_ok ((eks_round k salt ^^ n) ctx)" if "bf_ok ctx" for k n ctx
    using that by (induction n) (simp_all add: r)
  show ?thesis
    unfolding eks_setup_def split_beta Let_def by (rule rounds, simp only: salted_S_ok salted_P_ok, simp add: bf_ok_def length_set_key)
qed

lemma length_magic: "length (encrypt_magic ctx) = 6"
  by (simp add: encrypt_magic_def upt_rec split_beta Let_def)

lemma length_bytes_of: "length (bytes_of ws) = 4 * length ws"
  by (induction ws) (simp_all add: bytes_of_def)

lemma length_hash_text: "length (hash_text key flags salt count) = 31"
  by (simp add: hash_text_def length_encode length_bytes_of length_magic)

lemma hash_text_digits: "set (hash_text key flags salt count) \<subseteq> set BF_itoa64"
  by (simp add: hash_text_def encode_digits)

section \<open>Which settings are accepted\<close>

text \<open>A setting: the subtype, two digits for the cost, 22 digits for the salt, anything behind.\<close>

definition setting_text :: "u8 \<Rightarrow> nat \<Rightarrow> bytes \<Rightarrow> bytes" where
  "setting_text c cost salt =
     [36, 50, c, 36, 48 + of_nat (cost div 10), 48 + of_nat (cost mod 10), 36] @ salt"

definition salt_text :: "bytes \<Rightarrow> bool" where
  "salt_text s \<longleftrightarrow> length s = 22 \<and> set s \<subseteq> set BF_itoa64"

lemma subtype_table: "\<forall>k \<in> set [0..<26]. flags_by_subtype ! k \<noteq> 0 \<longleftrightarrow> k \<in> {0, 1, 23, 24}"
  by code_simp

lemma subtypes: "97 \<le> c \<and> c \<le> 122 \<and> subtype_flags c \<noteq> 0 \<longleftrightarrow> c \<in> {97, 98, 120, 121}"
proof (cases "97 \<le> c \<and> c \<le> 122")
  case True
  then have k: "97 \<le> unat c" "unat c \<le> 122" by (simp_all add: word_le_nat_alt)
  then have "subtype_flags c \<noteq> 0 \<longleftrightarrow> unat c - 97 \<in> {0, 1, 23, 24}"
    using bspec [OF subtype_table, of "unat c - 97"] by (simp add: subtype_flags_def)
  also have "\<dots> \<longleftrightarrow> unat c \<in> {97, 98, 120, 121}" using k by auto
  also have "\<dots> \<longleftrightarrow> c \<in> {97, 98, 120, 121}" by (auto simp: word_unat_eq_iff)
  finally show ?thesis using True by blast
qed auto

lemma digit_chars: "48 \<le> (c :: u8) \<and> c \<le> 57 \<longleftrightarrow> (\<exists>d < 10. c = 48 + of_nat d)"
proof
  assume "48 \<le> c \<and> c \<le> 57"
  then have "48 \<le> unat c" "unat c \<le> 57" by (simp_all add: word_le_nat_alt)
  then have "unat c - 48 < 10" "c = 48 + of_nat (unat c - 48)" by (simp_all add: word_unat_eq_iff unsigned_of_nat unat_word_ariths take_bit_eq_mod)
  then show "\<exists>d < 10. c = 48 + of_nat d" by blast
next
  assume "\<exists>d < 10. c = 48 + of_nat d"
  then obtain d where d: "d < 10" "c = 48 + of_nat d" by blast
  then have "unat c = 48 + d" by (simp add: unat_word_ariths unsigned_of_nat take_bit_eq_mod)
  then show "48 \<le> c \<and> c \<le> 57" using d(1) by (simp add: word_le_nat_alt)
qed

lemma digit_char_value: "d < 10 \<Longrightarrow> unat (48 + of_nat d :: u8) = 48 + d"
  by (simp add: unat_word_ariths unsigned_of_nat take_bit_eq_mod)

lemma seven:
  assumes "char_at s 6 \<noteq> 0"
  obtains a b c d e f g r where "s = a # b # c # d # e # f # g # r"
proof -
  have "6 < length s" using assms by (auto simp: char_at_def split: if_splits)
  then have "7 \<le> length s" by simp
  then show ?thesis using that by (auto simp: eval_nat_numeral Suc_le_length_iff)
qed

text \<open>The checks of the code, with the salt, against the form of a setting.\<close>

lemma setting_parts:
  assumes "s = setting_text c cost r" and "cost < 32"
  shows "char_at s 2 = c" and "setting_count s = push_bit cost 1" and "drop 7 s = r"
proof -
  have "cost div 10 < 10" "cost mod 10 < 10" using assms(2) by simp_all
  then have "(unat (char_at s 4) - 48) * 10 + (unat (char_at s 5) - 48) = cost"
    by (simp add: assms(1) setting_text_def digit_char_value del: of_nat_mod of_nat_div)
  then show "setting_count s = push_bit cost 1" by (simp add: setting_count_def)
qed (simp_all add: assms(1) setting_text_def)

lemma setting_ok_iff:
  "setting_ok s \<longleftrightarrow> (\<exists>c cost r. c \<in> {97, 98, 120, 121} \<and> cost < 32 \<and> s = setting_text c cost r)"
proof
  assume ok: "setting_ok s"
  then have "char_at s 6 \<noteq> 0" by (auto simp: setting_ok_def)
  then obtain a b c d e f g r where s: "s = a # b # c # d # e # f # g # r" by (rule seven)
  from ok have fixed: "a = 36" "b = 50" "d = 36" "g = 36" and c: "c \<in> {97, 98, 120, 121}"
    and ef: "48 \<le> e" "e \<le> 51" "48 \<le> f" "f \<le> 57" "\<not> (e = 51 \<and> 49 < f)"
    using subtypes [of c] by (simp_all add: setting_ok_def s not_less)
  have "e \<le> 57" using ef(2) by (rule order_trans) simp
  then obtain x y where xy: "x < 10" "e = 48 + of_nat x" "y < 10" "f = 48 + of_nat y"
    using ef digit_chars [of e] digit_chars [of f] by blast
  have "x \<le> 3" using ef(2) digit_char_value [OF xy(1)] by (simp add: xy(2) word_le_nat_alt)
  moreover have "x = 3 \<Longrightarrow> y \<le> 1"
    using ef(5) digit_char_value [OF xy(3)] by (simp add: xy(2,4) word_less_nat_alt)
  ultimately have "10 * x + y < 32" using xy(3) by linarith
  moreover have "s = setting_text c (10 * x + y) r" using xy by (simp add: s setting_text_def fixed)
  ultimately show "\<exists>c cost r. c \<in> {97, 98, 120, 121} \<and> cost < 32 \<and> s = setting_text c cost r" using c by blast
next
  assume "\<exists>c cost r. c \<in> {97, 98, 120, 121} \<and> cost < 32 \<and> s = setting_text c cost r"
  then obtain c cost r where s: "c \<in> {97, 98, 120, 121}" "cost < 32" "s = setting_text c cost r" by blast
  define x y where "x = cost div 10" and "y = cost mod 10"
  have xy: "x < 10" "y < 10" "x \<le> 3" "x = 3 \<Longrightarrow> y \<le> 1" using s(2) mult_div_mod_eq [of 10 cost] unfolding x_def y_def by linarith+
  have v: "unat (48 + of_nat x :: u8) = 48 + x" "unat (48 + of_nat y :: u8) = 48 + y" using xy digit_char_value by blast+
  have "48 \<le> (48 + of_nat x :: u8)" "(48 + of_nat x :: u8) \<le> 51" "48 \<le> (48 + of_nat y :: u8)" "(48 + of_nat y :: u8) \<le> 57"
    "\<not> ((48 + of_nat x :: u8) = 51 \<and> 49 < (48 + of_nat y :: u8))"
    using xy not_less [of 1 y] by (auto simp: word_le_nat_alt word_less_nat_alt word_unat_eq_iff v)
  then show "setting_ok s"
    using subtypes [of c] s(1) by (auto simp: setting_ok_def s(3) setting_text_def not_less simp flip: x_def y_def)
qed

section \<open>The hash\<close>

lemma char_at_setting: "char_at (setting_text c cost r) (7 + i) = char_at r i"
  by (simp add: setting_text_def char_at_def nth_append)

lemma salt_read:
  "(\<exists>salt. BF_decode r 16 = Some salt) \<longleftrightarrow> 22 \<le> length r \<and> salt_text (take 22 r)"
proof -
  have "(\<exists>salt. BF_decode r 16 = Some salt) \<longleftrightarrow> (\<exists>salt. BF_decode r (3 * 5 + 1) = Some salt \<and> length salt = 3 * 5 + 1)"
    using decode_length [of r 5] by auto
  also have "\<dots> \<longleftrightarrow> (\<forall>i < 22. char_at r i \<in> set BF_itoa64)" by (simp only: decode_digits digit_iff) simp
  also have "\<dots> \<longleftrightarrow> 22 \<le> length r \<and> salt_text (take 22 r)"
  proof
    assume all: "\<forall>i < 22. char_at r i \<in> set BF_itoa64"
    have "0 \<notin> set BF_itoa64" using digit_iff [of 0] by simp
    then have "char_at r (length r) \<notin> set BF_itoa64" by (simp add: char_at_def)
    then have l: "22 \<le> length r" using all not_less by blast
    then have "set (take 22 r) \<subseteq> set BF_itoa64" using all by (auto simp: in_set_conv_nth char_at_def)
    then show "22 \<le> length r \<and> salt_text (take 22 r)" using l by (simp add: salt_text_def)
  next
    assume r: "22 \<le> length r \<and> salt_text (take 22 r)"
    show "\<forall>i < 22. char_at r i \<in> set BF_itoa64"
    proof (intro allI impI)
      fix i :: nat assume i: "i < 22"
      then have "r ! i \<in> set (take 22 r)" using r by (auto simp: in_set_conv_nth)
      then show "char_at r i \<in> set BF_itoa64" using r i by (auto simp: salt_text_def char_at_def)
    qed
  qed
  finally show ?thesis .
qed

text \<open>The text of the hash of a password under a setting.\<close>

definition hash_of :: "bytes \<Rightarrow> u8 \<Rightarrow> nat \<Rightarrow> bytes \<Rightarrow> bytes" where
  "hash_of key c cost s =
     setting_text c cost (take 21 s @ [norm_digit (s ! 21)] @
       hash_text key (subtype_flags c) (BF_swap (words_of (the (BF_decode s 16)) 4)) (unat (push_bit cost 1 :: u32)))"

lemma salt_cut:
  assumes "length s = 22"
  shows "BF_decode (s @ r) 16 = BF_decode s 16"
proof -
  have "BF_decode (s @ r) (3 * 5 + 1) = BF_decode s (3 * 5 + 1)"
    by (rule decode_cong) (use assms in \<open>simp_all add: char_at_def nth_append\<close>)
  then show ?thesis by simp
qed

text \<open>The subtype is one of \<open>a\<close>, \<open>b\<close>, \<open>x\<close> and \<open>y\<close>.\<close>

definition accepted :: "u32 \<Rightarrow> bytes \<Rightarrow> u8 \<Rightarrow> nat \<Rightarrow> bytes \<Rightarrow> bytes \<Rightarrow> bool" where
  "accepted min_count setting c cost s r \<longleftrightarrow>
     c \<in> {97, 98, 120, 121} \<and> cost < 32 \<and> salt_text s \<and> setting = setting_text c cost (s @ r) \<and> min_count \<le> push_bit cost 1"

lemma crypt_form:
  assumes "accepted min_count setting c cost s r" and "61 \<le> sz"
  shows "BF_crypt key setting output sz min_count = (None, write_front (hash_of key c cost s @ [0]) output)"
  using assms(1) unfolding accepted_def
proof (elim conjE)
  assume a: "setting = setting_text c cost (s @ r)" "c \<in> {97, 98, 120, 121}" "cost < 32" "salt_text s" "min_count \<le> push_bit cost 1"
  have ok: "setting_ok setting" using a(1,2,3) setting_ok_iff by blast
  note parts = setting_parts [OF a(1,3)]
  have l: "length s = 22" using a(4) by (simp add: salt_text_def)
  have "\<exists>salt. BF_decode s 16 = Some salt" using a(4) l by (simp add: salt_read)
  then obtain salt where d: "BF_decode s 16 = Some salt" ..
  have t: "take 28 setting = setting_text c cost (take 21 s)" "char_at setting 28 = s ! 21"
    using l by (simp_all add: a(1) setting_text_def char_at_def nth_append)
  have min_ok: "\<not> push_bit cost 1 < min_count" using a(5) by (simp only: not_less)
  have size_ok: "\<not> sz < 7 + 22 + 31 + 1" using assms(2) by simp
  show ?thesis
    unfolding BF_crypt_def Let_def parts salt_cut [OF l] d t if_not_P [OF min_ok] if_not_P [OF size_ok] hash_of_def
      setting_text_def append_assoc option.sel option.case
    by (simp only: ok not_True_eq_False if_False)
qed

lemma crypt_refused:
  assumes "(\<nexists>c cost s r. accepted min_count setting c cost s r) \<or> sz < 61"
  shows "BF_crypt key setting output sz min_count = (Some (if sz < 61 then ERANGE else EINVAL), output)"
proof (cases "\<not> sz < 61 \<and> setting_ok setting \<and> min_count \<le> setting_count setting")
  case True
  then obtain c cost r where s: "c \<in> {97, 98, 120, 121}" "cost < 32" "setting = setting_text c cost r"
    using setting_ok_iff by blast
  note parts = setting_parts [OF s(3,2)]
  have "\<not> salt_text (take 22 r)"
  proof
    assume salt: "salt_text (take 22 r)"
    have "accepted min_count setting c cost (take 22 r) (drop 22 r)"
      unfolding accepted_def append_take_drop_id using s salt True parts(2) by simp
    then show False using assms True by blast
  qed
  then have "BF_decode r 16 = None" using salt_read [of r] by (cases "BF_decode r 16") auto
  then show ?thesis using True by (simp add: BF_crypt_def Let_def parts)
next
  case False
  then show ?thesis by (auto simp: BF_crypt_def Let_def not_le)
qed

text \<open>The hash is accepted as a setting with the same subtype, cost and salt, and hashes alike.\<close>

definition norm_salt :: "bytes \<Rightarrow> bytes" where
  "norm_salt s = take 21 s @ [norm_digit (s ! 21)]"

lemma norm_salt_facts:
  assumes "salt_text s"
  shows "salt_text (norm_salt s)" and "BF_decode (norm_salt s) 16 = BF_decode s 16" and "norm_salt (norm_salt s) = norm_salt s"
proof -
  have l: "length s = 22" using assms by (simp add: salt_text_def)
  then have "s = take 21 s @ s ! 21 # drop (Suc 21) s" by (intro id_take_nth_drop) simp
  moreover have "drop (Suc 21) s = []" using l by simp
  ultimately have s: "take 21 s @ [s ! 21] = s" "length (take 21 s) = 21" "length s = 22" using l by auto
  have "s ! 21 \<in> set BF_itoa64" using assms s(3) by (auto simp: salt_text_def)
  then obtain c where c: "BF_safe_atoi64 (s ! 21) = Some c" using digit_iff by blast
  have "norm_digit (s ! 21) \<in> set BF_itoa64" using norm_digit_back(1) [OF c] digit_iff by blast
  then show "salt_text (norm_salt s)"
    using assms by (auto simp: salt_text_def norm_salt_def dest: in_set_takeD)
  have "BF_decode (norm_salt s) 16 = BF_decode (take 21 s @ s ! 21 # []) 16"
    unfolding norm_salt_def by (rule decode_norm [OF s(2) c])
  then show "BF_decode (norm_salt s) 16 = BF_decode s 16" by (simp only: s(1))
  show "norm_salt (norm_salt s) = norm_salt s"
    using s(2,3) norm_digit_back(2) [OF c] by (simp add: norm_salt_def nth_append)
qed

lemma hash_of_eq:
  "hash_of key c cost s = setting_text c cost (norm_salt s @
     hash_text key (subtype_flags c) (BF_swap (words_of (the (BF_decode s 16)) 4)) (unat (push_bit cost 1 :: u32)))"
  by (simp add: hash_of_def norm_salt_def)

lemma setting_text_no_nul:
  assumes "cost < 32" and "c \<noteq> 0" and "set s \<subseteq> set BF_itoa64"
  shows "0 \<notin> set (setting_text c cost s)"
proof -
  have "0 \<notin> set BF_itoa64" using digit_iff [of 0] by simp
  then have "0 \<notin> set s" using assms(3) by blast
  moreover have "(48 + of_nat d :: u8) \<noteq> 0" if "d < 10" for d
    using digit_char_value [OF that] by (metis add_is_0 unat_0 zero_neq_numeral)
  then have "(48 + of_nat (cost div 10) :: u8) \<noteq> 0" "(48 + of_nat (cost mod 10) :: u8) \<noteq> 0" using assms(1) by simp_all
  ultimately show ?thesis using assms(2) by (auto simp: setting_text_def simp del: of_nat_div of_nat_mod)
qed

lemma hash_again:
  assumes "accepted m setting c cost s r"
  obtains r' where "accepted m (hash_of key c cost s) c cost (norm_salt s) r'"
    and "hash_of key' c cost (norm_salt s) = hash_of key' c cost s"
proof
  have salt: "salt_text s" using assms by (simp add: accepted_def)
  show "accepted m (hash_of key c cost s) c cost (norm_salt s)
      (hash_text key (subtype_flags c) (BF_swap (words_of (the (BF_decode s 16)) 4)) (unat (push_bit cost 1 :: u32)))"
    using assms norm_salt_facts(1) [OF salt] by (simp add: accepted_def hash_of_eq)
  show "hash_of key' c cost (norm_salt s) = hash_of key' c cost s"
    unfolding hash_of_eq norm_salt_facts(2,3) [OF salt] by (rule refl)
qed

lemma hash_shape:
  assumes "accepted m setting c cost s r"
  shows "length (hash_of key c cost s) = 60" and "0 \<notin> set (hash_of key c cost s)"
proof -
  have a: "c \<in> {97, 98, 120, 121}" "cost < 32" "salt_text s" using assms by (simp_all add: accepted_def)
  have norm: "salt_text (norm_salt s)" by (rule norm_salt_facts(1) [OF a(3)])
  then show "length (hash_of key c cost s) = 60"
    by (simp add: hash_of_eq setting_text_def salt_text_def length_hash_text)
  show "0 \<notin> set (hash_of key c cost s)"
    unfolding hash_of_eq using a norm hash_text_digits
    by (intro setting_text_no_nul) (auto simp: salt_text_def)
qed

section \<open>Properties\<close>

text \<open>
  C21: The outcome of hashing. A buffer of less than 61 bytes or a setting that is not of the
  form of the hash type, with a cost that is high enough, is refused and the buffer stays as it was.
  Everything else is hashed: 60 characters and the terminator are written, the first 28 are those of
  the setting, and hashing the same password with the hash as the setting gives the same hash.
\<close>

theorem crypt_outcome:
  "case BF_crypt key setting output sz m of
     (Some e, out) \<Rightarrow> out = output \<and>
       (e = ERANGE \<and> sz < 61 \<or> e = EINVAL \<and> 61 \<le> sz \<and> (\<nexists>c cost s r. accepted m setting c cost s r))
   | (None, out) \<Rightarrow> 61 \<le> sz \<and> (\<exists>c cost s r. accepted m setting c cost s r) \<and>
       (\<exists>h. out = write_front (h @ [0]) output \<and> length h = 60 \<and> 0 \<notin> set h \<and> take 28 h = take 28 setting \<and>
          BF_crypt key h output sz m = (None, out))"
proof (cases "sz < 61 \<or> (\<nexists>c cost s r. accepted m setting c cost s r)")
  case True
  then have "BF_crypt key setting output sz m = (Some (if sz < 61 then ERANGE else EINVAL), output)"
    by (intro crypt_refused) blast
  then show ?thesis using True by auto
next
  case False
  then obtain c cost s r where a: "accepted m setting c cost s r" and l: "61 \<le> sz" by auto
  obtain r' where a': "accepted m (hash_of key c cost s) c cost (norm_salt s) r'"
    and h: "hash_of key c cost (norm_salt s) = hash_of key c cost s"
    using hash_again [OF a] by metis
  have "BF_crypt key (hash_of key c cost s) output sz m = (None, write_front (hash_of key c cost s @ [0]) output)"
    using crypt_form [OF a' l] by (simp only: h)
  moreover have "take 28 (hash_of key c cost s) = take 28 setting"
    using a by (simp add: accepted_def hash_of_def setting_text_def salt_text_def)
  ultimately show ?thesis using crypt_form [OF a l, of key "output"] hash_shape [OF a] a l by auto
qed

end
