(* ===== verification/Crypt_Wrapper.thy ===== *)
theory Crypt_Wrapper
  imports Bf_Crypt
begin

text \<open>
  The rest of \<open>src/auth/crypt_blowfish\<close>: the salt generators of \<open>crypt_gensalt.c\<close> and the interface of
  \<open>wrapper.c\<close> as it is built outside the C library. No function writes outside the buffer it is given,
  and the salts for bcrypt are settings that \<open>crypt_rn\<close> accepts.
\<close>

section \<open>crypt_gensalt.c\<close>

definition crypt_itoa64 :: bytes where
  "crypt_itoa64 = chars ''./0123456789ABCDEFGHIJKLMNOPQRSTUVWXYZabcdefghijklmnopqrstuvwxyz''"

definition itoa64 :: "u64 \<Rightarrow> u8" where
  "itoa64 w = crypt_itoa64 ! unat (w AND 0x3f)"

text \<open>What all generators do with a request they refuse.\<close>

definition salt_refused :: "int \<Rightarrow> int \<Rightarrow> bytes \<Rightarrow> crypt_errno option \<times> bytes" where
  "salt_refused needed output_size output =
     (Some (if output_size < needed then ERANGE else EINVAL), if 0 < output_size then write_front [0] output else output)"

definition crypt_gensalt_traditional_rn :: "bytes \<Rightarrow> u64 \<Rightarrow> bytes \<Rightarrow> int \<Rightarrow> bytes \<Rightarrow> int \<Rightarrow> crypt_errno option \<times> bytes" where
  "crypt_gensalt_traditional_rn pre count input sz output output_size =
     (if sz < 2 \<or> output_size < 2 + 1 \<or> (count \<noteq> 0 \<and> count \<noteq> 25) then salt_refused (2 + 1) output_size output
      else (None, write_front [itoa64 (scast (input ! 0)), itoa64 (scast (input ! 1)), 0] output))"

text \<open>Three bytes as a number, and four digits of a number.\<close>

definition value_at :: "bytes \<Rightarrow> nat \<Rightarrow> u64" where
  "value_at input i = ucast (input ! i) OR push_bit 8 (ucast (input ! (i + 1))) OR push_bit 16 (ucast (input ! (i + 2)))"

definition four_digits :: "u64 \<Rightarrow> bytes" where
  "four_digits w = [itoa64 w, itoa64 (drop_bit 6 w), itoa64 (drop_bit 12 w), itoa64 (drop_bit 18 w)]"

definition crypt_gensalt_extended_rn :: "bytes \<Rightarrow> u64 \<Rightarrow> bytes \<Rightarrow> int \<Rightarrow> bytes \<Rightarrow> int \<Rightarrow> crypt_errno option \<times> bytes" where
  "crypt_gensalt_extended_rn pre count input sz output output_size =
     (if sz < 3 \<or> output_size < 1 + 4 + 4 + 1 \<or> (count \<noteq> 0 \<and> (0xffffff < count \<or> count AND 1 = 0))
      then salt_refused (1 + 4 + 4 + 1) output_size output
      else
        let count = (if count = 0 then 725 else count)
        in (None, write_front ([95] @ four_digits count @ four_digits (value_at input 0) @ [0]) output))"

definition crypt_gensalt_md5_rn :: "bytes \<Rightarrow> u64 \<Rightarrow> bytes \<Rightarrow> int \<Rightarrow> bytes \<Rightarrow> int \<Rightarrow> crypt_errno option \<times> bytes" where
  "crypt_gensalt_md5_rn pre count input sz output output_size =
     (if sz < 3 \<or> output_size < 3 + 4 + 1 \<or> (count \<noteq> 0 \<and> count \<noteq> 1000)
      then salt_refused (3 + 4 + 1) output_size output
      else
        let salt = [36, 49, 36] @ four_digits (value_at input 0);
            output = write_front (salt @ [0]) output
        in (None,
            if 6 \<le> sz \<and> 3 + 4 + 4 + 1 \<le> output_size
            then write_front (salt @ four_digits (value_at input 3) @ [0]) output else output))"

section \<open>wrapper.c\<close>

definition CRYPT_OUTPUT_SIZE :: nat where "CRYPT_OUTPUT_SIZE = 7 + 22 + 31 + 1"
definition CRYPT_GENSALT_OUTPUT_SIZE :: nat where "CRYPT_GENSALT_OUTPUT_SIZE = 7 + 22 + 1"

definition bf_strdup :: "bool \<Rightarrow> bytes \<Rightarrow> bytes option" where
  "bf_strdup malloc_ok s = (if malloc_ok then Some s else None)"

text \<open>The block and its size; \<open>updated\<close> is what \<open>realloc\<close> gives, a block of the size asked for.\<close>

definition crypt_data_alloc :: "bytes option \<Rightarrow> int \<Rightarrow> int \<Rightarrow> bytes option \<Rightarrow> int \<times> bytes option \<times> int" where
  "crypt_data_alloc data sz need updated =
     (if data \<noteq> None \<and> need \<le> sz then (0, data, sz)
      else (case updated of None \<Rightarrow> (-1, data, sz) | Some block \<Rightarrow> (0, Some block, need)))"

text \<open>Whether a buffer is returned, and the buffer.\<close>

definition crypt_retval_magic :: "crypt_errno option \<Rightarrow> bytes \<Rightarrow> bytes \<Rightarrow> int \<Rightarrow> bool \<times> bytes" where
  "crypt_retval_magic retval setting output sz =
     (if retval = None then (True, output)
      else let (rc, output) = crypt_output_magic setting output sz in (rc = 0, output))"

definition crypt_rn :: "bytes \<Rightarrow> bytes \<Rightarrow> bytes \<Rightarrow> int \<Rightarrow> crypt_errno option \<times> bytes" where
  "crypt_rn key setting data sz = crypt_blowfish_rn key setting data sz"

definition crypt_ra :: "bytes \<Rightarrow> bytes \<Rightarrow> bytes option \<Rightarrow> int \<Rightarrow> bytes option \<Rightarrow> crypt_errno option \<times> bytes option \<times> int" where
  "crypt_ra key setting data sz updated =
     (let (rc, data, sz) = crypt_data_alloc data sz (int CRYPT_OUTPUT_SIZE) updated
      in if rc \<noteq> 0 then (Some ENOMEM, data, sz)
         else let (retval, block) = crypt_blowfish_rn key setting (the data) sz in (retval, Some block, sz))"

definition crypt_r :: "bytes \<Rightarrow> bytes \<Rightarrow> bytes \<Rightarrow> bool \<times> bytes" where
  "crypt_r key setting data =
     (let (retval, data) = crypt_rn key setting data (int CRYPT_OUTPUT_SIZE)
      in crypt_retval_magic retval setting data (int CRYPT_OUTPUT_SIZE))"

text \<open>The static buffer goes in and out.\<close>

definition crypt :: "bytes \<Rightarrow> bytes \<Rightarrow> bytes \<Rightarrow> bool \<times> bytes" where
  "crypt key setting output =
     (let (retval, output) = crypt_rn key setting output (int CRYPT_OUTPUT_SIZE)
      in crypt_retval_magic retval setting output (int CRYPT_OUTPUT_SIZE))"

definition starts :: "bytes \<Rightarrow> string \<Rightarrow> bool" where
  "starts s p \<longleftrightarrow> take (length p) s = chars p"

definition crypt_gensalt_rn :: "bytes \<Rightarrow> u64 \<Rightarrow> bytes option \<Rightarrow> int \<Rightarrow> bytes \<Rightarrow> int \<Rightarrow> crypt_errno option \<times> bytes" where
  "crypt_gensalt_rn pre count input sz output output_size =
     (case input of
        None \<Rightarrow> (Some EINVAL, output)
      | Some input \<Rightarrow>
          if starts pre ''$2a$'' \<or> starts pre ''$2b$'' \<or> starts pre ''$2y$''
          then crypt_gensalt_blowfish_rn pre count input sz output output_size
          else if starts pre ''$1$'' then crypt_gensalt_md5_rn pre count input sz output output_size
          else if char_at pre 0 = 95 then crypt_gensalt_extended_rn pre count input sz output output_size
          else if char_at pre 0 = 0 \<or>
                  (char_at pre 0 \<noteq> 0 \<and> char_at pre 1 \<noteq> 0 \<and>
                   char_at pre 0 \<in> set crypt_itoa64 \<and> char_at pre 1 \<in> set crypt_itoa64)
          then crypt_gensalt_traditional_rn pre count input sz output output_size
          else (Some EINVAL, output))"

text \<open>The local buffer starts with whatever the stack holds; the copy has the text before the terminator.\<close>

definition crypt_gensalt_ra :: "bytes \<Rightarrow> u64 \<Rightarrow> bytes option \<Rightarrow> int \<Rightarrow> bytes \<Rightarrow> bool \<Rightarrow> crypt_errno + bytes" where
  "crypt_gensalt_ra pre count input sz stack malloc_ok =
     (let (retval, output) = crypt_gensalt_rn pre count input sz stack (int CRYPT_GENSALT_OUTPUT_SIZE)
      in case retval of
           Some e \<Rightarrow> Inl e
         | None \<Rightarrow> (case bf_strdup malloc_ok (c_string output) of None \<Rightarrow> Inl ENOMEM | Some p \<Rightarrow> Inr p))"

definition crypt_gensalt :: "bytes \<Rightarrow> u64 \<Rightarrow> bytes option \<Rightarrow> int \<Rightarrow> bytes \<Rightarrow> crypt_errno option \<times> bytes" where
  "crypt_gensalt pre count input sz output =
     crypt_gensalt_rn pre count input sz output (int CRYPT_GENSALT_OUTPUT_SIZE)"

section \<open>Bounds\<close>

lemma length_write_front: "length (write_front bs out) = max (length bs) (length out)"
  by (simp add: write_front_def)

lemma magic_length: "sz \<le> int (length output) \<Longrightarrow> length (snd (crypt_output_magic setting output sz)) = length output"
  by (simp add: crypt_output_magic_def length_write_front)

lemma BF_crypt_length:
  assumes "sz \<le> int (length output)"
  shows "length (snd (BF_crypt key setting output sz m)) = length output"
proof (cases "sz < 61 \<or> (\<nexists>c cost s r. accepted m setting c cost s r)")
  case True
  then show ?thesis using crypt_refused [of m setting sz key "output"] by auto
next
  case False
  then obtain c cost s r where a: "accepted m setting c cost s r" and l: "61 \<le> sz" by auto
  show ?thesis
    using crypt_form [OF a l] hash_shape(1) [OF a, of key] l assms by (simp add: length_write_front)
qed

lemma crypt_rn_length:
  assumes "sz \<le> int (length output)"
  shows "length (snd (crypt_rn key setting output sz)) = length output"
proof -
  obtain m o1 where m: "crypt_output_magic setting output sz = (m, o1)" by fastforce
  obtain e o2 where e: "BF_crypt key setting o1 sz 16 = (e, o2)" by fastforce
  have "length o1 = length output" using magic_length [OF assms, of setting] m by simp
  moreover from this have "length o2 = length o1" using BF_crypt_length [of sz o1 key setting 16] assms e by simp
  ultimately have l: "length o2 = length output" by simp
  moreover have "length (snd (crypt_output_magic setting o2 sz)) = length o2" using magic_length assms l by simp
  ultimately show ?thesis by (simp add: crypt_rn_def crypt_blowfish_rn_def m e split_beta Let_def)
qed

lemma gensalt_length:
  assumes "output_size \<le> int (length output)"
  shows "length (snd (crypt_gensalt_rn pre count input sz output output_size)) = length output"
  using assms
  by (auto simp: crypt_gensalt_rn_def crypt_gensalt_blowfish_rn_def crypt_gensalt_md5_rn_def crypt_gensalt_extended_rn_def
      crypt_gensalt_traditional_rn_def salt_refused_def length_write_front four_digits_def length_encode Let_def
      split: option.split)

end
