(* ===== verification/Bcrypt.thy ===== *)
theory Bcrypt
  imports Crypt_Wrapper Password
begin

text \<open>
  The passwords of the server on the hashing library of the repository: \<open>crypt_rn\<close> and
  \<open>crypt_gensalt_rn\<close> in the shape in which \<open>bcrypt.c\<close> calls them. What the library promises, a
  password that has been hashed is accepted, and how much of a password counts.
\<close>

section \<open>The calls of bcrypt.c\<close>

text \<open>
  A call with a local buffer of the given size: the text that is left in it, when there is one. What
  the buffer held before does not show, since the text ends before the terminator that is written.
\<close>

definition lib_crypt_rn :: "bytes \<Rightarrow> bytes \<Rightarrow> nat \<Rightarrow> bytes option" where
  "lib_crypt_rn key setting sz =
     (case crypt_rn key setting (replicate sz 0) (int sz) of
        (None, output) \<Rightarrow> Some (c_string output)
      | (Some e, output) \<Rightarrow> None)"

definition lib_gensalt_rn :: "bytes \<Rightarrow> int \<Rightarrow> bytes \<Rightarrow> nat \<Rightarrow> bytes option" where
  "lib_gensalt_rn pre count input sz =
     (case crypt_gensalt_rn pre (word_of_int count) (Some input) (int (length input)) (replicate sz 0) (int sz) of
        (None, output) \<Rightarrow> Some (c_string output)
      | (Some e, output) \<Rightarrow> None)"

section \<open>What the library promises\<close>

lemma c_string_front: "0 \<notin> set h \<Longrightarrow> c_string (write_front (h @ [0]) out) = h"
  by (simp add: write_front_def c_string_def) (subst takeWhile_append2; auto)

text \<open>The result depends on the self-test, which depends on nothing but the subtype.\<close>

lemma lib_crypt_accepted:
  assumes "accepted 16 setting c cost s r"
  shows "lib_crypt_rn key setting 64 = (if self_test (Some c) then Some (hash_of key c cost s) else None)"
proof -
  obtain m o1 where m: "crypt_output_magic setting (replicate 64 0) 64 = (m, o1)" by fastforce
  have f: "BF_crypt key setting o1 64 16 = (None, write_front (hash_of key c cost s @ [0]) o1)"
    by (rule crypt_form [OF assms]) simp
  have c: "char_at setting 2 = c"
    by (rule setting_parts(1)) (use assms in \<open>auto simp: accepted_def\<close>)
  show ?thesis
    by (simp add: lib_crypt_rn_def crypt_rn_def crypt_blowfish_rn_def m f c Let_def split_beta
        c_string_front [OF hash_shape(2) [OF assms]])
qed

lemma lib_crypt_refused:
  assumes "\<nexists>c cost s r. accepted 16 setting c cost s r"
  shows "lib_crypt_rn key setting sz = None"
proof -
  obtain m o1 where m: "crypt_output_magic setting (replicate sz 0) (int sz) = (m, o1)" by fastforce
  have f: "BF_crypt key setting o1 (int sz) 16 = (Some (if int sz < 61 then ERANGE else EINVAL), o1)"
    by (rule crypt_refused) (use assms in simp)
  show ?thesis
    unfolding lib_crypt_rn_def crypt_rn_def crypt_blowfish_rn_def m f Let_def prod.case
    by (auto split: prod.splits)
qed

text \<open>A salt: the subtype \<open>a\<close>, the cost, 22 digits for the 16 random bytes.\<close>

lemma two_digits:
  assumes "cost < 100"
  shows "(ucast (48 + of_nat cost div 10 :: u64) :: u8) = 48 + of_nat (cost div 10)"
    and "(ucast (48 + of_nat cost mod 10 :: u64) :: u8) = 48 + of_nat (cost mod 10)"
proof -
  have u: "unat (of_nat n :: u64) = n" if "n < 100" for n using that by (simp add: unsigned_of_nat take_bit_eq_mod)
  have "(of_nat cost div 10 :: u64) = of_nat (cost div 10)" "(of_nat cost mod 10 :: u64) = of_nat (cost mod 10)"
    using assms u [of cost] u [of "cost div 10"] u [of "cost mod 10"]
    by (simp_all add: word_unat_eq_iff unat_div unat_mod del: of_nat_div of_nat_mod)
  moreover have "(ucast (48 + of_nat d :: u64) :: u8) = 48 + of_nat d" if "d < 10" for d
    using that by (simp add: word_unat_eq_iff unsigned_ucast_eq unat_word_ariths unsigned_of_nat take_bit_eq_mod)
  ultimately show "(ucast (48 + of_nat cost div 10 :: u64) :: u8) = 48 + of_nat (cost div 10)"
    "(ucast (48 + of_nat cost mod 10 :: u64) :: u8) = 48 + of_nat (cost mod 10)"
    using assms by (simp_all del: of_nat_div of_nat_mod)
qed

lemma lib_gensalt:
  assumes "4 \<le> cost" and "cost \<le> 31" and "length input = 16"
  shows "lib_gensalt_rn (chars ''$2a$'') (int cost) input 64 = Some (setting_text 97 cost (BF_encode input))"
proof -
  have n: "0 \<notin> set (setting_text 97 cost (BF_encode input))"
    using setting_text_no_nul [of cost 97 "BF_encode input"] assms(2) encode_digits [of input] by simp
  have u: "unat (of_nat cost :: u64) = cost" using assms(2) by (simp add: unsigned_of_nat take_bit_eq_mod)
  then have range: "\<not> of_nat cost < (4 :: u64)" "\<not> (31 :: u64) < of_nat cost" "(of_nat cost :: u64) \<noteq> 0"
    using assms(1,2) by (auto simp: word_less_nat_alt word_unat_eq_iff)
  have "crypt_gensalt_rn (chars ''$2a$'') (of_nat cost) (Some input) 16 (replicate 64 0) 64 =
    (None, write_front (setting_text 97 cost (BF_encode input) @ [0]) (replicate 64 0))"
    using assms range by (simp add: crypt_gensalt_rn_def starts_def crypt_gensalt_blowfish_rn_def chars_def setting_text_def two_digits)
  then show ?thesis using assms by (simp add: lib_gensalt_rn_def c_string_front [OF n])
qed

lemma gensalt_accepted:
  assumes "4 \<le> cost" and "cost \<le> 31" and "length input = 16"
  shows "accepted 16 (setting_text 97 cost (BF_encode input)) 97 cost (BF_encode input) []"
    and "BF_decode (BF_encode input) 16 = Some input"
proof -
  have "length (BF_encode input) = 22" using assms(3) by (simp add: length_encode)
  then have salt: "salt_text (BF_encode input)" using encode_digits by (simp add: salt_text_def)
  have "(16 :: u32) \<le> push_bit cost 1"
  proof -
    have "(2 :: nat) ^ cost < 2 ^ 32" using assms(2) by (intro power_strict_increasing) simp_all
    then have "unat (push_bit cost 1 :: u32) = 2 ^ cost" by (subst unsigned_push_bit_eq) (simp add: take_bit_eq_mod push_bit_eq_mult)
    moreover have "(2 :: nat) ^ 4 \<le> 2 ^ cost" using assms(1) by (intro power_increasing) simp_all
    ultimately show ?thesis by (simp add: word_le_nat_alt)
  qed
  then show "accepted 16 (setting_text 97 cost (BF_encode input)) 97 cost (BF_encode input) []"
    using salt assms(2) by (simp add: accepted_def)
  show "BF_decode (BF_encode input) 16 = Some input"
    using decode_encode [of input "[]"] assms(3) by (cases input) auto
qed

section \<open>Passwords\<close>

text \<open>How much of a password counts, whatever the setting.\<close>

lemma key_byte_prefix:
  assumes "72 \<le> length pw" and "m < 72"
  shows "key_byte pw m = take 72 pw ! m"
  using assms by (simp add: key_byte_def nth_append)

lemma crypt_prefix:
  assumes "72 \<le> length pw" and "72 \<le> length pw'" and "take 72 pw = take 72 pw'" and "0 \<notin> set pw" and "0 \<notin> set pw'"
  shows "BF_crypt pw setting output sz m = BF_crypt pw' setting output sz m"
proof -
  have "BF_set_key pw flags = BF_set_key pw' flags" for flags
    by (rule set_key_prefix) (use assms in \<open>simp_all add: key_byte_prefix\<close>)
  then have "hash_text pw = hash_text pw'" by (intro ext) (simp add: hash_text_def eks_setup_def)
  then show ?thesis by (simp only: BF_crypt_def)
qed

lemma lib_crypt_prefix:
  assumes "72 \<le> length pw" and "72 \<le> length pw'" and "take 72 pw = take 72 pw'" and "0 \<notin> set pw" and "0 \<notin> set pw'"
  shows "lib_crypt_rn pw setting sz = lib_crypt_rn pw' setting sz"
  by (simp add: lib_crypt_rn_def crypt_rn_def crypt_blowfish_rn_def crypt_prefix [OF assms])

lemma verify_prefix:
  assumes "72 \<le> length pw" and "72 \<le> length pw'" and "take 72 pw = take 72 pw'" and "0 \<notin> set pw" and "0 \<notin> set pw'"
  shows "verify_password lib_crypt_rn (Some pw) h = verify_password lib_crypt_rn (Some pw') h"
proof -
  have "bcrypt_checkpw lib_crypt_rn pw = bcrypt_checkpw lib_crypt_rn pw'"
    by (intro ext) (simp add: bcrypt_checkpw_def bcrypt_hashpw_def lib_crypt_prefix [OF assms])
  then show ?thesis by (cases h) (simp_all add: verify_password_def)
qed

text \<open>The library keeps what \<open>hash.c\<close> relies on.\<close>

lemma lib_crypt_cases:
  assumes "lib_crypt_rn pw setting 64 = Some h"
  obtains c cost s r where "accepted 16 setting c cost s r" and "self_test (Some c)" and "h = hash_of pw c cost s"
proof -
  have "\<exists>c cost s r. accepted 16 setting c cost s r"
    using assms lib_crypt_refused [of setting pw 64] by fastforce
  then obtain c cost s r where a: "accepted 16 setting c cost s r" by blast
  then show ?thesis using that assms lib_crypt_accepted [OF a, of pw] by (auto split: if_splits)
qed

lemma lib_crypt_again:
  assumes "accepted 16 setting c cost s r"
  shows "lib_crypt_rn pw (hash_of pw c cost s) 64 = (if self_test (Some c) then Some (hash_of pw c cost s) else None)"
proof -
  obtain r' where a: "accepted 16 (hash_of pw c cost s) c cost (norm_salt s) r'"
    and h: "hash_of pw c cost (norm_salt s) = hash_of pw c cost s"
    using hash_again [OF assms] by metis
  show ?thesis using lib_crypt_accepted [OF a] by (simp add: h)
qed

interpretation bcrypt: password_library lib_gensalt_rn lib_crypt_rn
proof
  fix pw s h assume h: "lib_crypt_rn pw s BCRYPT_HASHSIZE = Some h"
  then obtain c cost t r where "accepted 16 s c cost t r" "self_test (Some c)" "h = hash_of pw c cost t"
    unfolding BCRYPT_HASHSIZE_def by (rule lib_crypt_cases)
  then show "lib_crypt_rn pw h BCRYPT_HASHSIZE = Some h" "length h = 60"
    using lib_crypt_again hash_shape(1) by (simp_all add: BCRYPT_HASHSIZE_def)
qed

text \<open>A hash that the library made under an accepted setting accepts the password it was made from.\<close>

lemma verify_hash:
  assumes "accepted 16 setting c cost s r"
  shows "verify_password lib_crypt_rn (Some pw) (Some (hash_of pw c cost s)) = (if self_test (Some c) then 0 else -1)"
  using lib_crypt_accepted [OF assms, of pw] bcrypt.hash_accepts [of pw setting] lib_crypt_again [OF assms, of pw]
  by (auto simp: BCRYPT_HASHSIZE_def verify_password_def bcrypt_checkpw_def bcrypt_hashpw_def)

text \<open>What \<open>hash_password\<close> leaves in the buffer when the random device delivers.\<close>

lemma try_read_length: "try_read answers n acc = Some input \<Longrightarrow> length input = length acc + n"
proof (induction answers n acc rule: try_read.induct)
  case (1 answers n acc)
  then show ?case
    by (subst (asm) (3) try_read.simps) (auto simp: Let_def split: if_splits list.splits sys_read.splits)
qed

lemma hash_password_eq:
  assumes "rd_open dev" and "try_read (rd_reads dev) RANDBYTES [] = Some input" and "try_close (rd_close dev) = 0"
    and "61 \<le> out_size"
  shows "hash_password lib_gensalt_rn lib_crypt_rn dev (Some pw) out_size old =
    (if self_test (Some 97) then hash_of pw 97 12 (BF_encode input) else old)"
proof -
  have l: "length input = 16" using try_read_length [OF assms(2)] by (simp add: RANDBYTES_def)
  have a: "accepted 16 (setting_text 97 12 (BF_encode input)) 97 12 (BF_encode input) []"
    by (rule gensalt_accepted(1)) (simp_all add: l)
  have g: "bcrypt_gensalt lib_gensalt_rn dev BCRYPT_WORKFACTOR = (0, Some (setting_text 97 12 (BF_encode input)))"
    using lib_gensalt [of 12 input] l by (simp add: bcrypt_gensalt_def assms BCRYPT_WORKFACTOR_def BCRYPT_HASHSIZE_def)
  show ?thesis
    using assms(4) hash_shape(1) [OF a, of pw]
    by (simp add: hash_password_def g bcrypt_hashpw_def BCRYPT_HASHSIZE_def lib_crypt_accepted [OF a] HASH_HEX_SIZE_def)
qed

section \<open>Properties\<close>

text \<open>
  C20: When the random device delivers 16 bytes and the buffer has room, hashing a
  password leaves the hash under those bytes as the salt, with cost 12, and verifying the same password
  against it succeeds. The one other outcome is that the self-test of the library fails for the
  subtype: then the buffer is not touched, and nothing verifies.
\<close>

theorem hashed_password_accepted:
  assumes "rd_open dev" and "try_read (rd_reads dev) RANDBYTES [] = Some input" and "try_close (rd_close dev) = 0"
    and "61 \<le> out_size"
  shows "hash_password lib_gensalt_rn lib_crypt_rn dev (Some pw) out_size old =
      (if self_test (Some 97) then hash_of pw 97 12 (BF_encode input) else old) \<and>
    verify_password lib_crypt_rn (Some pw) (Some (hash_of pw 97 12 (BF_encode input))) =
      (if self_test (Some 97) then 0 else -1)"
proof -
  have l: "length input = 16" using try_read_length [OF assms(2)] by (simp add: RANDBYTES_def)
  have "accepted 16 (setting_text 97 12 (BF_encode input)) 97 12 (BF_encode input) []"
    by (rule gensalt_accepted(1)) (simp_all add: l)
  then show ?thesis using hash_password_eq [OF assms] verify_hash by blast
qed

theorem hashed_password_accepted_witness:
  "hash_password lib_gensalt_rn lib_crypt_rn
      \<lparr>rd_open = True, rd_reads = [Interrupted, Got (replicate 10 7), Got (replicate 6 9)], rd_close = [None, Some 0]\<rparr>
      (Some (chars ''secret'')) 61 [] =
      (if self_test (Some 97) then hash_of (chars ''secret'') 97 12 (BF_encode (replicate 10 7 @ replicate 6 9)) else []) \<and>
    verify_password lib_crypt_rn (Some (chars ''secret''))
      (Some (hash_of (chars ''secret'') 97 12 (BF_encode (replicate 10 7 @ replicate 6 9)))) =
      (if self_test (Some 97) then 0 else -1)"
  by (rule hashed_password_accepted) (simp_all add: try_read.simps RANDBYTES_def Let_def)

text \<open>
  C39: Passwords of 72 bytes or more that agree on the first 72 are accepted against the
  same hashes.
\<close>

theorem password_prefix:
  assumes "72 \<le> length pw" and "72 \<le> length pw'" and "take 72 pw = take 72 pw'" and "0 \<notin> set pw" and "0 \<notin> set pw'"
  shows "verify_password lib_crypt_rn (Some pw) h = verify_password lib_crypt_rn (Some pw') h"
  by (rule verify_prefix [OF assms])

theorem password_prefix_witness:
  "verify_password lib_crypt_rn (Some (replicate 72 97 @ [98])) (Some (chars ''$2a$12$'')) =
   verify_password lib_crypt_rn (Some (replicate 72 97 @ [99, 100])) (Some (chars ''$2a$12$''))"
  by (rule password_prefix) simp_all

end
