(* ===== verification/Add_User.thy ===== *)
theory Add_User
  imports Bcrypt Database
begin

text \<open>
  The program \<open>src/tools/add_user.c\<close>, which puts a user into the database from the command line. Its
  messages are left out; the result is the exit status and the database, when it has been opened.
\<close>

definition sql_check_user :: bytes where
  "sql_check_user = chars ''SELECT id FROM users WHERE username = ?;''"

definition sql_add_user :: bytes where
  "sql_add_user = chars ''INSERT INTO users (username, nickname, password_hash) VALUES (?, ?, ?);''"

text \<open>The part behind the check: the user name is the nickname as well.\<close>

definition add_user_insert :: "'db sqlite \<Rightarrow> 'db \<Rightarrow> bytes \<Rightarrow> bytes \<Rightarrow> int \<times> 'db option" where
  "add_user_insert sq db username hash =
     (if sq_prepare sq db sql_add_user \<noteq> SQLITE_OK then (1, Some db)
      else
        let (rc, row, db) = sq_step sq db sql_add_user [SqlText username, SqlText username, SqlText hash]
        in if rc \<noteq> SQLITE_DONE then (1, Some db) else (0, Some db))"

definition add_user_main :: "'db sqlite \<Rightarrow> (bytes \<Rightarrow> int \<Rightarrow> bytes \<Rightarrow> nat \<Rightarrow> bytes option) \<Rightarrow>
    (bytes \<Rightarrow> bytes \<Rightarrow> nat \<Rightarrow> bytes option) \<Rightarrow> random_device \<Rightarrow> bytes list \<Rightarrow> int \<times> 'db option" where
  "add_user_main sq salt_fn crypt_fn dev argv =
     (if length argv \<noteq> 4 then (1, None)
      else
        let db_path = argv ! 1; username = argv ! 2; password = argv ! 3
        in (case bcrypt_gensalt salt_fn dev 12 of
              (rc, salt) \<Rightarrow>
                if rc \<noteq> 0 then (1, None)
                else
                  (case bcrypt_hashpw crypt_fn password (the salt) of
                     (rc, hash) \<Rightarrow>
                       if rc \<noteq> 0 then (1, None)
                       else
                         let (rc, db) = sq_open sq db_path
                         in if rc \<noteq> SQLITE_OK then (1, None)
                            else if sq_prepare sq db sql_check_user \<noteq> SQLITE_OK then (1, Some db)
                            else
                              let (rc, row, db) = sq_step sq db sql_check_user [SqlText username]
                              in if rc = SQLITE_ROW then (0, Some db)
                                 else add_user_insert sq db username (the hash))))"

text \<open>
  What is inserted is the hash of the password under a fresh salt, which accepts the password: the
  user can log in.
\<close>

lemma add_user_stores:
  assumes "rd_open dev" and "try_read (rd_reads dev) RANDBYTES [] = Some input" and "try_close (rd_close dev) = 0"
    and "sq_open sq path = (SQLITE_OK, db)" and "sq_prepare sq db sql_check_user = SQLITE_OK"
    and "sq_step sq db sql_check_user [SqlText user] = (SQLITE_DONE, row, db1)"
  shows "add_user_main sq lib_gensalt_rn lib_crypt_rn dev [prog, path, user, pw] =
    (if self_test (Some 97) then add_user_insert sq db1 user (hash_of pw 97 12 (BF_encode input)) else (1, None))"
proof -
  have l: "length input = 16" using try_read_length [OF assms(2)] by (simp add: RANDBYTES_def)
  have a: "accepted 16 (setting_text 97 12 (BF_encode input)) 97 12 (BF_encode input) []"
    by (rule gensalt_accepted(1)) (simp_all add: l)
  have "bcrypt_gensalt lib_gensalt_rn dev 12 = (0, Some (setting_text 97 12 (BF_encode input)))"
    using lib_gensalt [of 12 input] l by (simp add: bcrypt_gensalt_def assms(1-3) BCRYPT_HASHSIZE_def)
  then show ?thesis
    by (simp add: add_user_main_def bcrypt_hashpw_def BCRYPT_HASHSIZE_def lib_crypt_accepted [OF a] assms(4-6) sqlite_codes)
qed

end
