(* ===== verification/Spec2Isabelle.thy ===== *)
theory Spec2Isabelle
  imports Engine_Threads Video_Flow Server_Main Quic_Tls Add_User
begin

text \<open>
  Verification of OTT_QUIC, a video streaming server in C. The process listens on a TCP port, where
  every client gets a thread that either answers one HTTP request or, after an upgrade, speaks
  WebSocket, and on a UDP port, where one thread runs a QUIC-like protocol of its own. Users,
  sessions, videos and watch history are kept in an SQLite database, videos and their segments
  in files.

  \<^bold>\<open>The parts of the program and the theories.\<close>

  \<^item> Packets, \<open>src/server/quic.h\<close> and \<open>quic.c\<close>: \<open>Quic_Packet\<close> has the packet type, its flags and the
    two functions of the codec. Its lemmas: the layout on the wire, round trip, which datagrams are
    refused.
  \<^item> Streams, \<open>quic_stream.c\<close>: \<open>Quic_Stream\<close>. A stream is its next offset and the list of buffered
    segments; \<open>quic_stream_on_data\<close> inserts a segment and hands over what is contiguous. The lemmas
    give the set of positions received and the frontier, which the operations refine, delivery
    in order under loss, duplication, overlap and any arrival order, completeness, the bounds of the
    output buffer.
  \<^item> The engine, \<open>quic.c\<close>: \<open>Quic_Engine\<close> has the state (connections, packets that wait for an
    acknowledgement, counters, the log of datagrams sent and of callbacks made) and every
    function; \<open>Engine_Invariant\<close> the events a started engine can have, the well-formedness of
    its tables and its preservation; \<open>Engine_Delivery\<close> follows one connection through any run;
    \<open>Engine_Control\<close>, \<open>Engine_Properties\<close> and \<open>Engine_Counters\<close> have the handshake, which packets are
    let through, acknowledgement and retransmission, closing, the counters. \<open>Engine_Threads\<close> cuts the
    receive loop and the calls of other threads where they hold no lock, down to the single assignments
    that fill a pending slot; accesses outside the lock may moreover meet and leave anything in the
    memory they touch (\<open>race_step\<close>). The table of connections stays well formed all the same, and two
    gaps of the code show.
  \<^item> Fixed tables: \<open>Slot_Table\<close> states what streams, connections and pending packets share as a
    locale, interpreted on the claim and release operations of each of the three.
  \<^item> WebSocket, \<open>websocket.c\<close>: \<open>Ws_Io\<close> (the transport), \<open>Ws_Frame\<close> (frames), \<open>Sha1\<close> and \<open>Ws_Accept\<close>
    (the accept key), \<open>Ws_Upgrade\<close> (the first message), \<open>Ws_Command\<close> (the JSON commands), \<open>Ws_Media\<close>
    (files and QUIC chunks), \<open>Video_Flow\<close> (the packets of a chunk from the sender's engine to the
    receiver's reassembly), \<open>Ws_Handler\<close> (one definition per command of \<open>handle_text_frame\<close>),
    \<open>Ws_Server\<close> (\<open>websocket_handle_client\<close>), \<open>Ws_Dialogue\<close> (what a client sees).
  \<^item> HTTP, \<open>http.c\<close> and \<open>src/http/api.c\<close>: \<open>Http_Request\<close> (the parser), \<open>Http_Api\<close> (login, sign-up,
    logout, administration, static files, the dispatcher), \<open>Api_Safety\<close> (what it keeps safe),
    \<open>Login_Flow\<close> (from the login to the administration).
  \<^item> Uploads, \<open>upload.c\<close> and \<open>src/utils/thumbnail.c\<close>: \<open>Upload\<close>; forms of any order of
    fields and extra head lines are read back, \<open>Upload_Flow\<close> follows an upload to the files and rows.
  \<^item> Data, \<open>src/db/database.c\<close>: \<open>Database\<close>, and \<open>Sql_Tables\<close> with what SQLite documents of the
    statements used; \<open>src/auth\<close>: \<open>Password\<close> and \<open>Session\<close>.
  \<^item> The hashing library, \<open>src/auth/crypt_blowfish\<close>: \<open>Bf_Tables\<close> (the constants), \<open>Bf_Core\<close> (the
    cipher, shown to be a Feistel network), \<open>Bf_Radix\<close> (the radix-64 code), \<open>Bf_Key\<close> (the key schedule
    and its safety measure), \<open>Bf_Crypt\<close> (\<open>BF_crypt\<close>, the self-test, which settings are accepted),
    \<open>Crypt_Wrapper\<close> (the salt generators and \<open>wrapper.c\<close>); \<open>Bcrypt\<close> puts it under \<open>bcrypt.c\<close> and
    \<open>hash.c\<close>, and \<open>Add_User\<close> is the program \<open>tools/add_user.c\<close> on it.
  \<^item> The process: \<open>server.c\<close> in \<open>Server_Pool\<close> (accept loop and client threads as a step relation),
    a client thread over all of its parts in \<open>Server_System\<close>, \<open>src/main.c\<close> in \<open>Server_Main\<close>.
  \<^item> \<open>quic_tls.c\<close>, a placeholder nothing calls: \<open>Quic_Tls\<close>.
  \<^item> Shared: \<open>Prelude\<close> (integers in memory, searches), \<open>C_String\<close> and \<open>C_Number\<close> (the functions of
    the C library the sources use on text).

  \<^bold>\<open>How they meet.\<close> The transport gives the frames and the HTTP functions a contract (a source of
  bytes that hands out what is pending in order, a sink that appends), stated as locales in \<open>Ws_Io\<close>
  and interpreted on \<open>io_read\<close> and \<open>io_write\<close>. A connection hands a plain request to a function it does
  not know; the contract is the locale \<open>http_answers\<close>, interpreted on \<open>http_api_handle\<close> in
  \<open>Server_System\<close>. Passwords rest on a hash that gives itself again when it is taken as the salt (the
  locale \<open>password_library\<close>), interpreted on the functions of the hashing library. Sessions rest on what SQLite documents under the schema of
  \<open>database.c\<close> (\<open>sqlite_tables\<close> in \<open>Sql_Tables\<close>, a predicate on the SQL engine): any statement may fail and
  then changes nothing, the clock moves between statements, the row of a session needs that of its
  user and an identifier not in use. What needs statements to succeed says so (\<open>no_failures\<close>). An
  engine in memory with these tables, a clock that ticks and the foreign key is shown to keep both.

  \<^bold>\<open>Conventions.\<close> A pointer to a structure is the structure; a function that writes through it
  returns the new one. A null pointer is \<open>None\<close>, and so is an out parameter left alone or a failure
  that carries nothing else. Machine integers are words of their width; \<open>int\<close> stands where C
  computes with \<open>int\<close> or \<open>long\<close> values that come from outside or stay small. Bytes are \<open>u8\<close>, text is
  a list of bytes. What is not under \<open>src/\<close> is an argument: \<open>malloc\<close> and \<open>sendto\<close> (\<open>world\<close>), clocks
  (a function from the number of the reading), files (\<open>file_view\<close> of a path), the SQL engine (\<open>sqlite\<close>,
  with the texts of the statements kept), the random device, the
  answers of sockets, threads and OpenSSL, and what memory that was never set holds where the code
  reads it. A call of \<open>recv\<close>, \<open>send\<close> or their TLS counterparts takes one answer from a list
  in the state: how many bytes, or failure. Commands, deleted and written files are a list of effects.
  A critical section is one step; so is an operation of the engine outside \<open>Engine_Threads\<close>.

  \<^bold>\<open>Ends of loops.\<close> Loops are structural recursion or \<open>function\<close> with a measure; none has fuel. The
  input of a connection is what its client sends up to the end, so the loops on a transport end in the
  model because every answer uses up pending bytes or the list of answers; how long a client keeps the
  frame loop of the code busy is up to the client. The listings that write into a fixed buffer return
  \<open>None\<close> where a comma would fall outside it, and \<open>Server_System\<close> shows that no client can bring that about. The receive loop, the accept loop and
  the client threads do not end by themselves: they are relations, one step or iteration each.

  \<^bold>\<open>Not modelled.\<close> SQLite and OpenSSL; log output; the web pages, tests and scripts. Of
  \<open>crypt_blowfish\<close> what is not compiled into the server: the test program, the variants for other
  processors and for use inside the C library. Its self-test encrypts some 28000 rounds on a fixed
  password; the model has it as \<open>self_test\<close>, of which the part on the key schedule is evaluated, and
  the theorems say what follows when it succeeds and when it fails. Data races: the engine
  reassembles and fills pending slots outside its lock; \<open>Engine_Threads\<close> leaves open what such an
  access meets and leaves in the memory it is about, and does not describe writes elsewhere, which a
  reassembly in a list that another thread frees may come to in C. The engine, the database and the context of
  the clients are shared by pointer; a function gets what it uses of them and returns it, so the
  interleaving of two clients inside a handler is not described. \<open>double\<close>: a duration is the
  integer that is stored or the text that is printed, as given by the probe. A host with other than
  little-endian byte order, 64-bit \<open>size_t\<close> and 32-bit \<open>int\<close>.
\<close>

end
